(* ===== verification/Prelude.thy ===== *)
theory Prelude
  imports Complex_Main "HOL-Library.Word" "HOL-Library.List_Lexorder"
begin

section \<open>Prelude: shared types, collections and generic lemmas\<close>

text \<open>
  What every component of the development uses: the JavaScript string type (a list of
  16-bit code units, compared lexicographically by code unit as the language does), string
  literals, decimal numerals, padding and searching, the first-error traversal of a list,
  and the lemmas about them that the components share.
\<close>

subsection \<open>Strings of 16-bit code units\<close>

type_synonym code_unit = "16 word"
type_synonym jsstr = "code_unit list"
type_synonym byte = "8 word"

text \<open>An ASCII literal: each character becomes the code unit with its number.\<close>

definition cu :: "char \<Rightarrow> code_unit" where
  "cu c = of_char c"

definition js :: "string \<Rightarrow> jsstr" where
  "js s = map cu s"

lemma unat_cu: "unat (cu c) = of_char c"
proof -
  have "(of_char c :: nat) < 65536"
    by (rule less_trans [OF nat_of_char_less_256]) simp
  then have "take_bit 16 (of_char c :: nat) = of_char c"
    by (simp add: take_bit_nat_eq_self)
  moreover have "cu c = of_nat (of_char c)"
    by (cases c) (simp add: cu_def)
  ultimately show ?thesis by (simp add: unat_of_nat take_bit_eq_mod)
qed

lemma cu_inject [simp]: "cu c = cu d \<longleftrightarrow> c = d"
  by (metis unat_cu of_char_eq_iff)

lemma inj_cu: "inj cu"
  by (rule injI) simp

lemma js_inject [simp]: "js s = js t \<longleftrightarrow> s = t"
  unfolding js_def by (rule inj_map_eq_map) (rule inj_cu)

lemma js_simps [simp]:
  "js [] = []"
  "length (js s) = length s"
  "js s = [] \<longleftrightarrow> s = []"
  by (simp_all add: js_def)

lemma js_append: "js (s @ t) = js s @ js t"
  by (simp add: js_def)

lemma js_Cons: "js (c # s) = cu c # js s"
  by (simp add: js_def)

subsection \<open>Decimal numerals\<close>

definition is_digit :: "code_unit \<Rightarrow> bool" where
  "is_digit c \<longleftrightarrow> 48 \<le> c \<and> c \<le> 57"

definition digit_val :: "code_unit \<Rightarrow> nat" where
  "digit_val c = unat c - 48"

definition digit_cu :: "nat \<Rightarrow> code_unit" where
  "digit_cu d = of_nat (48 + d)"

definition all_digits :: "jsstr \<Rightarrow> bool" where
  "all_digits s \<longleftrightarrow> list_all is_digit s"

text \<open>The value of a run of digits, as \<open>Number(text)\<close> reads it.\<close>

definition read_dec :: "jsstr \<Rightarrow> nat" where
  "read_dec s = foldl (\<lambda>n c. 10 * n + digit_val c) 0 s"

text \<open>The shortest decimal numeral of a number, as \<open>String(n)\<close> prints it.\<close>

fun show_nat :: "nat \<Rightarrow> jsstr" where
  "show_nat n = (if n < 10 then [digit_cu n] else show_nat (n div 10) @ [digit_cu (n mod 10)])"

declare show_nat.simps [simp del]

text \<open>The same on integers, so that large numbers evaluate.\<close>

function show_pos :: "int \<Rightarrow> jsstr" where
  "show_pos i = (if i < 10 then [digit_cu (nat i)] else show_pos (i div 10) @ [digit_cu (nat (i mod 10))])"
  by pat_completeness auto
termination
  by (relation "measure nat") auto

declare show_pos.simps [simp del]

definition show_int :: "int \<Rightarrow> jsstr" where
  "show_int i = (if i < 0 then cu CHR ''-'' # show_pos (- i) else show_pos i)"

definition pad_start :: "nat \<Rightarrow> code_unit \<Rightarrow> jsstr \<Rightarrow> jsstr" where
  "pad_start w c s = replicate (w - length s) c @ s"

definition pad_end :: "nat \<Rightarrow> code_unit \<Rightarrow> jsstr \<Rightarrow> jsstr" where
  "pad_end w c s = s @ replicate (w - length s) c"

text \<open>Exactly \<open>w\<close> digits, the number's last ones: what zero padding prints below \<open>10 ^ w\<close>.\<close>

primrec fix_digits :: "nat \<Rightarrow> nat \<Rightarrow> jsstr" where
  "fix_digits 0 n = []"
| "fix_digits (Suc w) n = fix_digits w (n div 10) @ [digit_cu (n mod 10)]"

lemma unat_digit_cu: "d < 10 \<Longrightarrow> unat (digit_cu d) = 48 + d"
proof -
  assume "d < 10"
  then have "(48 + d) mod 2 ^ 16 = 48 + d" by simp
  then show ?thesis unfolding digit_cu_def unat_of_nat by (simp add: take_bit_eq_mod)
qed

lemma digit_val_cu [simp]: "d < 10 \<Longrightarrow> digit_val (digit_cu d) = d"
  by (simp add: digit_val_def unat_digit_cu)

lemma is_digit_unat: "is_digit c \<longleftrightarrow> 48 \<le> unat c \<and> unat c \<le> 57"
  by (simp add: is_digit_def word_le_nat_alt)

lemma is_digit_cu [simp]: "d < 10 \<Longrightarrow> is_digit (digit_cu d)"
  by (simp add: is_digit_unat unat_digit_cu)

lemma digit_val_less: "is_digit c \<Longrightarrow> digit_val c < 10"
  by (auto simp: is_digit_unat digit_val_def)

lemma digit_cu_val: "is_digit c \<Longrightarrow> digit_cu (digit_val c) = c"
  by (auto simp: is_digit_unat digit_val_def digit_cu_def)

lemma digit_cu_inject: "c < 10 \<Longrightarrow> d < 10 \<Longrightarrow> digit_cu c = digit_cu d \<longleftrightarrow> c = d"
  by (metis digit_val_cu)

lemma all_digits_simps [simp]:
  "all_digits []"
  "all_digits (c # s) \<longleftrightarrow> is_digit c \<and> all_digits s"
  "all_digits (s @ t) \<longleftrightarrow> all_digits s \<and> all_digits t"
  by (simp_all add: all_digits_def)

lemma read_dec_snoc: "read_dec (s @ [c]) = 10 * read_dec s + digit_val c"
  by (simp add: read_dec_def)

lemma read_dec_Nil [simp]: "read_dec [] = 0"
  by (simp add: read_dec_def)

lemma length_fix_digits [simp]: "length (fix_digits w n) = w"
  by (induction w arbitrary: n) auto

lemma all_digits_fix_digits [simp]: "all_digits (fix_digits w n)"
  by (induction w arbitrary: n) auto

lemma read_dec_fix_digits: "n < 10 ^ w \<Longrightarrow> read_dec (fix_digits w n) = n"
proof (induction w arbitrary: n)
  case (Suc w)
  then have "n div 10 < 10 ^ w" by (simp add: div_less_iff_less_mult mult.commute)
  with Suc.IH show ?case by (simp add: read_dec_snoc)
qed simp

lemma fix_digits_read_dec: "all_digits s \<Longrightarrow> fix_digits (length s) (read_dec s) = s"
proof (induction s rule: rev_induct)
  case (snoc c s)
  have "(10 * read_dec s + digit_val c) div 10 = read_dec s"
    using digit_val_less [of c] snoc.prems by simp
  moreover have "(10 * read_dec s + digit_val c) mod 10 = digit_val c"
    using digit_val_less [of c] snoc.prems by simp
  ultimately show ?case using snoc by (simp add: read_dec_snoc digit_cu_val)
qed simp

lemma read_dec_less: "all_digits s \<Longrightarrow> read_dec s < 10 ^ length s"
proof (induction s rule: rev_induct)
  case (snoc c s)
  then have "read_dec s < 10 ^ length s" and "digit_val c < 10"
    by (auto intro: digit_val_less)
  then show ?case by (simp add: read_dec_snoc)
qed simp

lemma show_nat_nonempty [simp]: "show_nat n \<noteq> []"
  by (subst show_nat.simps) simp

lemma all_digits_show_nat [simp]: "all_digits (show_nat n)"
proof (induction n rule: show_nat.induct)
  case (1 n)
  then show ?case by (subst show_nat.simps) simp
qed

lemma read_dec_show_nat [simp]: "read_dec (show_nat n) = n"
proof (induction n rule: show_nat.induct)
  case (1 n)
  then show ?case
    by (subst show_nat.simps) (simp add: read_dec_snoc, simp add: read_dec_def)
qed

lemma show_nat_inject [simp]: "show_nat m = show_nat n \<longleftrightarrow> m = n"
  by (metis read_dec_show_nat)

lemma show_pos_nat: "0 \<le> i \<Longrightarrow> show_pos i = show_nat (nat i)"
proof (induction i rule: show_pos.induct)
  case (1 i)
  have nats: "nat i div 10 = nat (i div 10)" "nat i mod 10 = nat (i mod 10)"
    using 1 by (simp_all add: nat_div_distrib nat_mod_distrib)
  show ?case
  proof (cases "i < 10")
    case True
    then have "nat i < 10" by linarith
    with True show ?thesis by (subst show_pos.simps, subst show_nat.simps) simp
  next
    case False
    then have "\<not> nat i < 10" "0 \<le> i div 10" by (simp_all add: pos_imp_zdiv_nonneg_iff)
    with False 1 nats show ?thesis by (subst show_pos.simps, subst show_nat.simps) simp
  qed
qed

lemma fix_digits_zero: "fix_digits w 0 = replicate w (digit_cu 0)"
  by (induction w) (simp_all add: replicate_append_same)

lemma pad_start_show_nat:
  "n < 10 ^ w \<Longrightarrow> 0 < w \<Longrightarrow> pad_start w (digit_cu 0) (show_nat n) = fix_digits w n"
proof (induction w arbitrary: n)
  case (Suc w)
  show ?case
  proof (cases "n < 10")
    case True
    then show ?thesis
      by (subst show_nat.simps) (simp add: pad_start_def fix_digits_zero)
  next
    case False
    with Suc.prems have lt: "n div 10 < 10 ^ w" and pos: "0 < w"
      by (auto simp: div_less_iff_less_mult mult.commute intro: Nat.gr0I)
    from Suc.IH [OF this] have "pad_start w (digit_cu 0) (show_nat (n div 10)) = fix_digits w (n div 10)" .
    with False show ?thesis
      by (subst show_nat.simps) (simp add: pad_start_def)
  qed
qed simp

lemma cu_zero: "cu CHR ''0'' = digit_cu 0"
  by (simp add: cu_def digit_cu_def)

lemma not_digit_punct [simp]:
  "\<not> is_digit (cu CHR ''-'')" "\<not> is_digit (cu CHR ''+'')" "\<not> is_digit (cu CHR '':'')"
  "\<not> is_digit (cu CHR ''.'')" "\<not> is_digit (cu CHR ''T'')" "\<not> is_digit (cu CHR ''Z'')"
  by (simp_all add: is_digit_def cu_def)

subsection \<open>Strings: literal prefixes, searching, padding\<close>

text \<open>\<open>text.startsWith(p)\<close>, and \<open>text.slice(p.length)\<close> after it succeeded.\<close>

definition starts_with :: "jsstr \<Rightarrow> jsstr \<Rightarrow> bool" where
  "starts_with p s \<longleftrightarrow> take (length p) s = p"

definition contains_nul :: "jsstr \<Rightarrow> bool" where
  "contains_nul s \<longleftrightarrow> 0 \<in> set s"

lemma starts_with_append [simp]: "starts_with p (p @ s)"
  by (simp add: starts_with_def)

lemma starts_with_drop: "starts_with p s \<Longrightarrow> s = p @ drop (length p) s"
  by (metis append_take_drop_id starts_with_def)

lemma length_pad_start [simp]: "length (pad_start w c s) = max w (length s)"
  by (simp add: pad_start_def)

lemma length_pad_end [simp]: "length (pad_end w c s) = max w (length s)"
  by (simp add: pad_end_def)

subsection \<open>Results\<close>

text \<open>
  A result is a sum, with \<open>Inl\<close> for the failure. \<open>traverse f xs\<close> runs \<open>f\<close> over a list and
  stops at the first failure, as a loop that returns or throws does.
\<close>

primrec traverse :: "('a \<Rightarrow> 'e + 'b) \<Rightarrow> 'a list \<Rightarrow> 'e + 'b list" where
  "traverse f [] = Inr []"
| "traverse f (x # xs) =
     (case f x of Inl e \<Rightarrow> Inl e
      | Inr y \<Rightarrow> (case traverse f xs of Inl e \<Rightarrow> Inl e | Inr ys \<Rightarrow> Inr (y # ys)))"

lemma traverse_Inr_iff:
  "traverse f xs = Inr ys \<longleftrightarrow> list_all2 (\<lambda>x y. f x = Inr y) xs ys"
proof (induction xs arbitrary: ys)
  case Nil
  then show ?case by (cases ys) auto
next
  case (Cons x xs)
  show ?case
  proof (cases "f x")
    case (Inr y)
    then show ?thesis
      by (cases "traverse f xs"; cases ys) (auto simp: Cons.IH [symmetric])
  qed (cases ys; simp)
qed

lemma traverse_length: "traverse f xs = Inr ys \<Longrightarrow> length ys = length xs"
  by (auto simp: traverse_Inr_iff dest: list_all2_lengthD)

lemma traverse_Inl: "traverse f xs = Inl e \<Longrightarrow> \<exists>x\<in>set xs. f x = Inl e"
  by (induction xs) (auto split: sum.splits)

lemma traverse_fails: "x \<in> set xs \<Longrightarrow> f x = Inl e \<Longrightarrow> \<exists>e'. traverse f xs = Inl e'"
  by (induction xs) (auto split: sum.splits)

lemma traverse_total: "(\<And>x. x \<in> set xs \<Longrightarrow> f x = Inr (g x)) \<Longrightarrow> traverse f xs = Inr (map g xs)"
  by (induction xs) auto

end
