(* ===== verification/Machines.thy ===== *)
theory Machines
  imports Prelude
begin

section \<open>State machines\<close>

text \<open>
  What the stateful components share: an invariant that holds initially and is kept by every
  step holds in every reachable state, and a machine whose remaining work shrinks with every
  move of its environment, and that can move while work remains, always comes to rest.
\<close>

locale invariant_machine =
  fixes init :: "'s \<Rightarrow> bool" and step :: "'s \<Rightarrow> 's \<Rightarrow> bool" and inv :: "'s \<Rightarrow> bool"
  assumes init_inv: "init s \<Longrightarrow> inv s"
    and step_inv: "inv s \<Longrightarrow> step s t \<Longrightarrow> inv t"
begin

lemma steps_inv: "step\<^sup>*\<^sup>* s t \<Longrightarrow> inv s \<Longrightarrow> inv t"
  by (induction rule: rtranclp_induct) (auto intro: step_inv)

lemma reachable_inv: "init s \<Longrightarrow> step\<^sup>*\<^sup>* s t \<Longrightarrow> inv t"
  using steps_inv init_inv by blast

end

locale draining_machine = invariant_machine +
  fixes move :: "'s \<Rightarrow> 's \<Rightarrow> bool" and draining rest :: "'s \<Rightarrow> bool" and work :: "'s \<Rightarrow> nat"
  assumes move_step: "move s t \<Longrightarrow> step s t"
    and progress: "inv s \<Longrightarrow> draining s \<Longrightarrow> \<not> rest s \<Longrightarrow> \<exists>t. move s t"
    and decrease: "inv s \<Longrightarrow> draining s \<Longrightarrow> move s t \<Longrightarrow> work t < work s"
    and keeps: "inv s \<Longrightarrow> draining s \<Longrightarrow> move s t \<Longrightarrow> draining t"
begin

text \<open>Every run of moves has at most \<open>work s\<close> of them, and when it cannot go on it has come to rest.\<close>

lemma run_bound: "(move ^^ n) s t \<Longrightarrow> inv s \<Longrightarrow> draining s \<Longrightarrow> n + work t \<le> work s \<and> inv t \<and> draining t"
proof (induction n arbitrary: t)
  case (Suc n)
  then obtain u where u: "(move ^^ n) s u" "move u t" by auto
  from Suc.IH [OF u(1) Suc.prems(2,3)] u(2) decrease [of u t] keeps [of u t] step_inv [OF _ move_step, of u t]
  show ?case by auto
qed simp

lemma stuck_rests: "(move ^^ n) s t \<Longrightarrow> inv s \<Longrightarrow> draining s \<Longrightarrow> (\<nexists>u. move t u) \<Longrightarrow> rest t"
  using run_bound progress by blast

lemma reaches_rest: "inv s \<Longrightarrow> draining s \<Longrightarrow> \<exists>t. move\<^sup>*\<^sup>* s t \<and> rest t"
proof (induction "work s" arbitrary: s rule: less_induct)
  case less
  show ?case
  proof (cases "rest s")
    case False
    then obtain t where t: "move s t" using progress less.prems by blast
    then obtain u where "move\<^sup>*\<^sup>* t u" "rest u"
      using less.hyps [OF decrease] less.prems keeps step_inv [OF _ move_step] by blast
    with t show ?thesis by (meson converse_rtranclp_into_rtranclp)
  qed auto
qed

end

end
