(* ===== verification/JsValues.thy ===== *)
theory JsValues
  imports Prelude
begin

section \<open>JavaScript values\<close>

text \<open>
  The values the program inspects at run time: what \<open>typeof\<close>, \<open>Array.isArray\<close>,
  \<open>Object.hasOwn\<close>, \<open>Object.keys\<close>, \<open>Object.getOwnPropertyDescriptor\<close> and a property
  read return on them. An object is its own properties in the language's property order, each
  a data property or an accessor, with its enumerable flag; a class tag stands for the
  constructors the program tests with \<open>instanceof\<close>. None of the names the program reads is
  inherited from \<open>Object.prototype\<close>, so a read of a missing own property is \<open>undefined\<close>.
  Symbols and bigints, which no check accepts, share the constructor \<open>JOpaque\<close>. A number is
  NaN, an infinity, negative zero, or the rational value of a finite double.
\<close>

datatype jsnum = JNaN | JPosInf | JNegInf | JNegZero | JFin rat

datatype objclass =
    PlainObject | ErrorObject | AggregateErrorObject | AbortSignalObject | TrapProxy

datatype jsval =
    JUndef | JNull | JBool bool | JNum jsnum | JStr jsstr | JArr "jsval list"
  | JObj objclass "(jsstr \<times> jsprop) list" | JFun nat | JOpaque nat
and jsprop =
    DataProp jsval bool
  | AccProp jsval bool

type_synonym props = "(jsstr \<times> jsprop) list"

text \<open>
  \<open>DataProp v e\<close> is a data property with value \<open>v\<close>; \<open>AccProp v e\<close> an accessor whose getter
  returns \<open>v\<close>; \<open>e\<close> is the enumerable flag of both.
\<close>

fun enumerable :: "jsprop \<Rightarrow> bool" where
  "enumerable (DataProp v e) = e"
| "enumerable (AccProp v e) = e"

fun prop_read :: "jsprop \<Rightarrow> jsval" where
  "prop_read (DataProp v e) = v"
| "prop_read (AccProp v e) = v"

text \<open>An object literal or a parsed JSON object: enumerable data properties only.\<close>

definition plain :: "(jsstr \<times> jsval) list \<Rightarrow> jsval" where
  "plain kvs = JObj PlainObject (map (\<lambda>(k, v). (k, DataProp v True)) kvs)"

subsection \<open>Reflection\<close>

text \<open>\<open>typeof value === "object" && value !== null\<close>.\<close>

fun is_object_or_array :: "jsval \<Rightarrow> bool" where
  "is_object_or_array (JObj c ps) = True"
| "is_object_or_array (JArr vs) = True"
| "is_object_or_array _ = False"

text \<open>\<open>typeof value === "object" && value !== null && !Array.isArray(value)\<close>.\<close>

fun is_record :: "jsval \<Rightarrow> bool" where
  "is_record (JObj c ps) = True"
| "is_record _ = False"

text \<open>The own properties of an object; the others have none of the names the program reads.\<close>

fun own_props :: "jsval \<Rightarrow> props" where
  "own_props (JObj c ps) = ps"
| "own_props _ = []"

text \<open>\<open>Object.getOwnPropertyDescriptor(value, key)\<close>, \<open>Object.hasOwn(value, key)\<close>,
  \<open>value[key]\<close>, \<open>Object.keys(value)\<close> and \<open>Object.entries(value)\<close>.\<close>

definition own_descriptor :: "jsval \<Rightarrow> jsstr \<Rightarrow> jsprop option" where
  "own_descriptor v k = map_of (own_props v) k"

definition has_own :: "jsval \<Rightarrow> jsstr \<Rightarrow> bool" where
  "has_own v k \<longleftrightarrow> own_descriptor v k \<noteq> None"

definition get_prop :: "jsval \<Rightarrow> jsstr \<Rightarrow> jsval" where
  "get_prop v k = (case own_descriptor v k of None \<Rightarrow> JUndef | Some p \<Rightarrow> prop_read p)"

definition object_entries :: "jsval \<Rightarrow> (jsstr \<times> jsval) list" where
  "object_entries v = map (\<lambda>(k, p). (k, prop_read p)) (filter (\<lambda>(k, p). enumerable p) (own_props v))"

definition object_keys :: "jsval \<Rightarrow> jsstr list" where
  "object_keys v = map fst (object_entries v)"

text \<open>An object has each of its property names once.\<close>

definition wf_object :: "jsval \<Rightarrow> bool" where
  "wf_object v \<longleftrightarrow> distinct (map fst (own_props v))"

text \<open>\<open>target[key] = value\<close> on a null-prototype object of data properties: a new name goes last.\<close>

fun assign_key :: "('k \<times> 'v) list \<Rightarrow> 'k \<Rightarrow> 'v \<Rightarrow> ('k \<times> 'v) list" where
  "assign_key [] k v = [(k, v)]"
| "assign_key ((k', v') # kvs) k v =
     (if k' = k then (k, v) # kvs else (k', v') # assign_key kvs k v)"

lemma map_of_assign_key: "map_of (assign_key kvs k v) = (map_of kvs)(k \<mapsto> v)"
  by (induction kvs k v rule: assign_key.induct) (auto simp: fun_eq_iff)

lemma assign_key_new: "k \<notin> fst ` set kvs \<Longrightarrow> assign_key kvs k v = kvs @ [(k, v)]"
  by (induction kvs k v rule: assign_key.induct) auto

lemma keys_assign_key: "fst ` set (assign_key kvs k v) = insert k (fst ` set kvs)"
  by (induction kvs k v rule: assign_key.induct) auto

lemma distinct_assign_key: "distinct (map fst kvs) \<Longrightarrow> distinct (map fst (assign_key kvs k v))"
proof (induction kvs k v rule: assign_key.induct)
  case (2 k' v' kvs k v)
  then show ?case using keys_assign_key [of kvs k v] by (auto simp flip: set_map)
qed simp

subsection \<open>Numbers\<close>

text \<open>\<open>Number.isFinite\<close>, \<open>Number.isInteger\<close> and \<open>Number.isSafeInteger\<close>.\<close>

fun is_finite_num :: "jsnum \<Rightarrow> bool" where
  "is_finite_num (JFin r) = True"
| "is_finite_num JNegZero = True"
| "is_finite_num _ = False"

text \<open>The integer a number is, when it is one (negative zero is the integer 0).\<close>

fun num_int :: "jsnum \<Rightarrow> int option" where
  "num_int (JFin r) = (if snd (quotient_of r) = 1 then Some (fst (quotient_of r)) else None)"
| "num_int JNegZero = Some 0"
| "num_int _ = None"

definition max_safe_integer :: int where
  "max_safe_integer = 9007199254740991"

definition safe_int :: "int \<Rightarrow> bool" where
  "safe_int i \<longleftrightarrow> \<bar>i\<bar> \<le> max_safe_integer"

definition jint :: "int \<Rightarrow> jsval" where
  "jint i = JNum (JFin (of_int i))"

text \<open>A value that is a number and a safe integer, as that integer.\<close>

fun safe_integer_value :: "jsval \<Rightarrow> int option" where
  "safe_integer_value (JNum n) =
     (case num_int n of Some i \<Rightarrow> if safe_int i then Some i else None | None \<Rightarrow> None)"
| "safe_integer_value _ = None"

lemma num_int_of_int [simp]: "num_int (JFin (of_int i)) = Some i"
  by (simp add: quotient_of_int)

lemma safe_integer_value_jint [simp]:
  "safe_integer_value (jint i) = (if safe_int i then Some i else None)"
  by (simp add: jint_def del: num_int.simps)

lemma safe_integer_value_SomeD: "safe_integer_value v = Some i \<Longrightarrow> safe_int i"
  by (cases v) (auto split: option.splits if_splits)

subsection \<open>Facts about property access\<close>

lemma own_props_plain [simp]: "own_props (plain kvs) = map (\<lambda>(k, v). (k, DataProp v True)) kvs"
  by (simp add: plain_def)

lemma is_record_plain [simp]: "is_record (plain kvs)"
  by (simp add: plain_def)

lemma own_descriptor_plain [simp]:
  "own_descriptor (plain kvs) k = map_option (\<lambda>v. DataProp v True) (map_of kvs k)"
  by (induction kvs) (auto simp: own_descriptor_def plain_def)

lemma get_prop_plain [simp]:
  "get_prop (plain kvs) k = (case map_of kvs k of None \<Rightarrow> JUndef | Some v \<Rightarrow> v)"
  by (auto simp: get_prop_def split: option.splits)

lemma has_own_plain [simp]: "has_own (plain kvs) k \<longleftrightarrow> k \<in> fst ` set kvs"
  by (auto simp: has_own_def map_of_eq_None_iff)

lemma object_entries_plain [simp]: "object_entries (plain kvs) = kvs"
  by (induction kvs) (auto simp: object_entries_def plain_def)

lemma object_keys_plain [simp]: "object_keys (plain kvs) = map fst kvs"
  by (simp add: object_keys_def)

lemma distinct_object_entries: "wf_object v \<Longrightarrow> distinct (map fst (object_entries v))"
proof -
  have "distinct (map fst ps) \<Longrightarrow>
    distinct (map fst (map (\<lambda>(k, p). (k, prop_read p)) (filter (\<lambda>(k, p). enumerable p) ps)))" for ps
    by (induction ps) (force simp: image_iff)+
  then show "wf_object v \<Longrightarrow> distinct (map fst (object_entries v))"
    by (simp add: wf_object_def object_entries_def)
qed

lemma is_record_cases:
  assumes "is_record v"
  obtains c ps where "v = JObj c ps"
  using assms by (cases v) auto

end
