(* ===== verification/Calendar.thy ===== *)
theory Calendar
  imports JsValues
begin

section \<open>Proleptic Gregorian dates and the ECMAScript \<open>Date\<close> object\<close>

text \<open>
  The part of \<open>Date\<close> the program uses, as ECMAScript defines it: days are counted from
  1970-01-01, a time value is milliseconds since then without leap seconds, \<open>toISOString\<close>
  prints a time value and \<open>Date.parse\<close> reads the format \<open>YYYY-MM-DDTHH:mm:ss.sssZ\<close>. The leap
  year and month length rules of \<open>domain/timestamp.ts\<close> are here too, because the date
  arithmetic is proved to agree with them. The main results are that a day number and its
  civil date determine each other.
\<close>

subsection \<open>Definitions\<close>

abbreviation ms_per_day :: int where "ms_per_day \<equiv> 86400000"

definition isLeapYear :: "int \<Rightarrow> bool" where
  "isLeapYear year \<longleftrightarrow> year mod 4 = 0 \<and> (year mod 100 \<noteq> 0 \<or> year mod 400 = 0)"

definition daysInMonth :: "int \<Rightarrow> int \<Rightarrow> int" where
  "daysInMonth year month =
     (if month = 2 then (if isLeapYear year then 29 else 28)
      else if month \<in> set [4, 6, 9, 11] then 30 else 31)"

text \<open>\<open>DayFromYear\<close> of the language: the day number of 1 January.\<close>

definition day_from_year :: "int \<Rightarrow> int" where
  "day_from_year y =
     365 * (y - 1970) + (y - 1969) div 4 - (y - 1901) div 100 + (y - 1601) div 400"

definition month_start :: "bool \<Rightarrow> int \<Rightarrow> int" where
  "month_start leap m =
     (if m \<le> 1 then 0 else if m = 2 then 31
      else (if leap then 1 else 0) +
        (if m = 3 then 59 else if m = 4 then 90 else if m = 5 then 120 else if m = 6 then 151
         else if m = 7 then 181 else if m = 8 then 212 else if m = 9 then 243
         else if m = 10 then 273 else if m = 11 then 304 else if m = 12 then 334 else 365))"

definition make_day :: "int \<Rightarrow> int \<Rightarrow> int \<Rightarrow> int" where
  "make_day y m d = day_from_year y + month_start (isLeapYear y) m + d - 1"

text \<open>\<open>YearFromTime\<close>: an estimate from the 400-year cycle, corrected by at most one year.\<close>

definition year_from_day :: "int \<Rightarrow> int" where
  "year_from_day d =
     (let e = 1970 + (400 * d) div 146097
      in if d < day_from_year e then e - 1 else if day_from_year (e + 1) \<le> d then e + 1 else e)"

definition month_of :: "bool \<Rightarrow> int \<Rightarrow> int" where
  "month_of leap doy =
     (if doy < month_start leap 2 then 1 else if doy < month_start leap 3 then 2
      else if doy < month_start leap 4 then 3 else if doy < month_start leap 5 then 4
      else if doy < month_start leap 6 then 5 else if doy < month_start leap 7 then 6
      else if doy < month_start leap 8 then 7 else if doy < month_start leap 9 then 8
      else if doy < month_start leap 10 then 9 else if doy < month_start leap 11 then 10
      else if doy < month_start leap 12 then 11 else 12)"

definition civil_of_day :: "int \<Rightarrow> int \<times> int \<times> int" where
  "civil_of_day n =
     (let y = year_from_day n; doy = n - day_from_year y; m = month_of (isLeapYear y) doy
      in (y, m, doy - month_start (isLeapYear y) m + 1))"

definition valid_date :: "int \<Rightarrow> int \<Rightarrow> int \<Rightarrow> bool" where
  "valid_date y m d \<longleftrightarrow> 1 \<le> m \<and> m \<le> 12 \<and> 1 \<le> d \<and> d \<le> daysInMonth y m"

definition make_time :: "int \<Rightarrow> int \<Rightarrow> int \<Rightarrow> int \<Rightarrow> int \<Rightarrow> int \<Rightarrow> int \<Rightarrow> int" where
  "make_time y mo d h mi s ms =
     make_day y mo d * ms_per_day + h * 3600000 + mi * 60000 + s * 1000 + ms"

text \<open>\<open>TimeClip\<close>: a \<open>Date\<close> holds time values of at most \<open>8.64e15\<close> in magnitude.\<close>

definition time_clip :: "int \<Rightarrow> int option" where
  "time_clip t = (if \<bar>t\<bar> \<le> 8640000000000000 then Some t else None)"

definition show_year :: "int \<Rightarrow> jsstr" where
  "show_year y =
     (if 0 \<le> y \<and> y \<le> 9999 then pad_start 4 (cu CHR ''0'') (show_nat (nat y))
      else (if y < 0 then cu CHR ''-'' else cu CHR ''+'') #
        pad_start 6 (cu CHR ''0'') (show_nat (nat \<bar>y\<bar>)))"

definition show2 :: "int \<Rightarrow> jsstr" where
  "show2 n = pad_start 2 (cu CHR ''0'') (show_nat (nat n))"

definition show3 :: "int \<Rightarrow> jsstr" where
  "show3 n = pad_start 3 (cu CHR ''0'') (show_nat (nat n))"

text \<open>\<open>new Date(t).toISOString()\<close>: the date, then the time of day in milliseconds.\<close>

definition iso_date :: "int \<Rightarrow> jsstr" where
  "iso_date n =
     (case civil_of_day n of (y, m, d) \<Rightarrow> show_year y @ js ''-'' @ show2 m @ js ''-'' @ show2 d)"

definition iso_clock :: "int \<Rightarrow> jsstr" where
  "iso_clock t =
     show2 (t div 3600000) @ js '':'' @ show2 (t div 60000 mod 60) @ js '':'' @
     show2 (t div 1000 mod 60)"

definition toISOString :: "int \<Rightarrow> jsstr" where
  "toISOString t =
     iso_date (t div ms_per_day) @ js ''T'' @ iso_clock (t mod ms_per_day) @ js ''.'' @
     show3 (t mod 1000) @ js ''Z''"

text \<open>
  \<open>Date.parse\<close> on the fields of \<open>YYYY-MM-DDTHH:mm:ss.sssZ\<close>. The engine accepts any day up to
  31 and rolls it over, and hour 24 at exactly midnight; callers compare the printed date.
\<close>

definition date_parse_fields :: "int \<Rightarrow> int \<Rightarrow> int \<Rightarrow> int \<Rightarrow> int \<Rightarrow> int \<Rightarrow> int \<Rightarrow> int option" where
  "date_parse_fields y mo d h mi s ms =
     (if 1 \<le> mo \<and> mo \<le> 12 \<and> 1 \<le> d \<and> d \<le> 31 \<and> mi \<le> 59 \<and> s \<le> 59 \<and>
         (h \<le> 23 \<or> h = 24 \<and> mi = 0 \<and> s = 0 \<and> ms = 0)
      then time_clip (make_time y mo d h mi s ms) else None)"

subsection \<open>Years\<close>

lemma div_bounds: "0 < (k::int) \<Longrightarrow> k * (x div k) \<le> x \<and> x < k * (x div k) + k"
  using pos_mod_bound [of k x] pos_mod_sign [of k x] mult_div_mod_eq [of k x] by linarith

lemma day_from_year_lower: "146097 * (y - 1970) - 506 \<le> 400 * day_from_year y"
  and day_from_year_upper: "400 * day_from_year y \<le> 146097 * (y - 1970) + 589"
  using div_bounds [of 4 "y - 1969"] div_bounds [of 100 "y - 1901"] div_bounds [of 400 "y - 1601"]
  by (simp_all add: day_from_year_def)

lemma div_step: "0 < (k::int) \<Longrightarrow> (x + 1) div k = x div k + (if (x + 1) mod k = 0 then 1 else 0)"
proof -
  assume k: "0 < k"
  have x: "x = k * (x div k) + x mod k" by simp
  have r: "0 \<le> x mod k" "x mod k < k" using k by simp_all
  show ?thesis
  proof (cases "x mod k + 1 = k")
    case True
    with x have "x + 1 = k * (x div k) + k" by linarith
    then have "x + 1 = k * (x div k + 1)" by (simp add: distrib_left)
    with k show ?thesis by simp
  next
    case False
    with r have "(x mod k + 1) mod k = x mod k + 1" by simp
    moreover have "(x + 1) mod k = (x mod k + 1) mod k" by (simp add: mod_simps)
    moreover have "(x + 1) div k = x div k"
      using x r False by (intro int_div_pos_eq [of _ _ _ "x mod k + 1"]) auto
    ultimately show ?thesis using r by simp
  qed
qed

lemma div_step_shift:
  assumes "0 < (k::int)"
  shows "(y - k * j) div k = (y - (k * j + 1)) div k + (if y mod k = 0 then 1 else 0)"
proof -
  have "(y + k * (- j)) mod k = y mod k" by (rule mod_mult_self2)
  then have "(y - k * j) mod k = y mod k" by simp
  moreover have "y - (k * j + 1) + 1 = y - k * j" by simp
  ultimately show ?thesis using div_step [OF assms, of "y - (k * j + 1)"] by (simp only:)
qed

lemma leap_correction:
  fixes i j k d :: int
  assumes "q \<Longrightarrow> p" and "r \<Longrightarrow> q"
  shows "d + 365 + (if p then 1 else 0) - (if q then 1 else 0) + (if r then 1 else 0) =
    d + (if p \<and> (\<not> q \<or> r) then 366 else 365)"
  using assms by (cases p; cases q; cases r) simp_all

lemma day_from_year_regroup:
  fixes a :: int
  shows "365 * (a + 1 - 1970) + (b + i) - (c + j) + (e + k) =
    365 * (a - 1970) + b - c + e + 365 + i - j + k"
  by simp

lemma day_from_year_step:
  "day_from_year (y + 1) = day_from_year y + (if isLeapYear y then 366 else 365)"
proof -
  have "(y + 1 - 1969) div 4 = (y - 1969) div 4 + (if y mod 4 = 0 then 1 else 0)"
    using div_step_shift [of 4 y 492] by simp
  moreover have "(y + 1 - 1901) div 100 = (y - 1901) div 100 + (if y mod 100 = 0 then 1 else 0)"
    using div_step_shift [of 100 y 19] by simp
  moreover have "(y + 1 - 1601) div 400 = (y - 1601) div 400 + (if y mod 400 = 0 then 1 else 0)"
    using div_step_shift [of 400 y 4] by simp
  ultimately have "day_from_year (y + 1) = day_from_year y + 365 + (if y mod 4 = 0 then 1 else 0) -
      (if y mod 100 = 0 then 1 else 0) + (if y mod 400 = 0 then 1 else 0)"
    unfolding day_from_year_def by (simp only: day_from_year_regroup)
  moreover have "100 dvd y \<Longrightarrow> 4 dvd y" using dvd_trans [of 4 100 y] by simp
  moreover have "400 dvd y \<Longrightarrow> 100 dvd y" using dvd_trans [of 100 400 y] by simp
  ultimately show ?thesis
    unfolding isLeapYear_def mod_eq_0_iff_dvd by (simp only: leap_correction simp_thms)
qed

lemma day_from_year_mono: "x \<le> y \<Longrightarrow> day_from_year x \<le> day_from_year y"
proof (induction y rule: int_ge_induct)
  case (step i)
  then show ?case by (simp add: day_from_year_step)
qed simp

lemma year_from_day_bounds:
  "day_from_year (year_from_day n) \<le> n \<and> n < day_from_year (year_from_day n + 1)"
proof -
  define e where "e = 1970 + (400 * n) div 146097"
  have e: "146097 * (e - 1970) \<le> 400 * n" "400 * n < 146097 * (e - 1970) + 146097"
    using div_bounds [of 146097 "400 * n"] by (auto simp: e_def)
  have "day_from_year (e - 1) \<le> n"
    using day_from_year_upper [of "e - 1"] e by simp
  moreover have "n < day_from_year (e + 2)"
    using day_from_year_lower [of "e + 2"] e by simp
  ultimately show ?thesis
    by (auto simp: year_from_day_def e_def [symmetric] Let_def add.commute)
qed

lemma year_from_day_eq:
  assumes "day_from_year y \<le> n" "n < day_from_year (y + 1)"
  shows "year_from_day n = y"
proof (rule ccontr)
  assume "year_from_day n \<noteq> y"
  then consider "year_from_day n + 1 \<le> y" | "y + 1 \<le> year_from_day n" by linarith
  then show False
    using year_from_day_bounds [of n] assms
      day_from_year_mono [of "year_from_day n + 1" y] day_from_year_mono [of "y + 1" "year_from_day n"]
    by cases auto
qed

subsection \<open>Months\<close>

lemma month_cases:
  assumes "1 \<le> (m::int)" "m \<le> 12"
  obtains "m = 1" | "m = 2" | "m = 3" | "m = 4" | "m = 5" | "m = 6" | "m = 7" | "m = 8"
    | "m = 9" | "m = 10" | "m = 11" | "m = 12"
proof -
  have "m = 1 \<or> m = 2 \<or> m = 3 \<or> m = 4 \<or> m = 5 \<or> m = 6 \<or> m = 7 \<or> m = 8 \<or>
    m = 9 \<or> m = 10 \<or> m = 11 \<or> m = 12"
    using assms by presburger
  with that show thesis by blast
qed

lemma month_start_next:
  assumes "1 \<le> m" "m \<le> 12"
  shows "month_start (isLeapYear y) (m + 1) = month_start (isLeapYear y) m + daysInMonth y m"
  using assms by (cases rule: month_cases) (auto simp: month_start_def daysInMonth_def)

lemma month_of_bounds:
  assumes "0 \<le> doy" "doy < (if leap then 366 else 365)"
  shows "1 \<le> month_of leap doy \<and> month_of leap doy \<le> 12 \<and>
    month_start leap (month_of leap doy) \<le> doy \<and> doy < month_start leap (month_of leap doy + 1)"
  using assms by (cases leap) (simp_all add: month_of_def month_start_def)

lemma month_of_eq:
  assumes "1 \<le> m" "m \<le> 12" "month_start leap m \<le> doy" "doy < month_start leap (m + 1)"
  shows "month_of leap doy = m"
  using assms by (cases rule: month_cases) (auto simp: month_of_def month_start_def split: if_splits)

lemma month_start_bounds:
  assumes "1 \<le> m" "m \<le> 12"
  shows "0 \<le> month_start leap m \<and> month_start leap (m + 1) \<le> (if leap then 366 else 365)"
  using assms by (cases rule: month_cases) (auto simp: month_start_def)

subsection \<open>Day numbers and civil dates\<close>

lemma civil_of_make_day:
  assumes "valid_date y m d"
  shows "civil_of_day (make_day y m d) = (y, m, d)"
proof -
  define doy where "doy = month_start (isLeapYear y) m + d - 1"
  have m: "1 \<le> m" "m \<le> 12" and d: "1 \<le> d" "d \<le> daysInMonth y m"
    using assms by (auto simp: valid_date_def)
  have doy: "month_start (isLeapYear y) m \<le> doy" "doy < month_start (isLeapYear y) (m + 1)"
    using d month_start_next [OF m, of y] by (auto simp: doy_def)
  have "year_from_day (day_from_year y + doy) = y"
    using doy month_start_bounds [OF m, of "isLeapYear y"]
    by (intro year_from_day_eq) (auto simp: day_from_year_step)
  moreover have "make_day y m d = day_from_year y + doy"
    by (simp add: make_day_def doy_def)
  ultimately show ?thesis
    using month_of_eq [OF m doy] by (simp add: civil_of_day_def Let_def doy_def)
qed

lemma make_day_of_civil:
  assumes "civil_of_day n = (y, m, d)"
  shows "valid_date y m d \<and> make_day y m d = n"
proof -
  define doy where "doy = n - day_from_year (year_from_day n)"
  have y: "y = year_from_day n" and m: "m = month_of (isLeapYear y) doy"
    and d: "d = doy - month_start (isLeapYear y) m + 1"
    using assms by (auto simp: civil_of_day_def Let_def doy_def)
  have "0 \<le> doy" "doy < (if isLeapYear y then 366 else 365)"
    using year_from_day_bounds [of n] by (auto simp: doy_def y day_from_year_step split: if_splits)
  note bnd = month_of_bounds [OF this, folded m]
  then have "doy < month_start (isLeapYear y) m + daysInMonth y m"
    using month_start_next [of m y] by simp
  with bnd d have "valid_date y m d" by (simp add: valid_date_def)
  moreover have "make_day y m d = n" by (simp add: make_day_def d y doy_def)
  ultimately show ?thesis by simp
qed

lemma make_day_inject:
  "valid_date y m d \<Longrightarrow> valid_date y' m' d' \<Longrightarrow>
   make_day y m d = make_day y' m' d' \<longleftrightarrow> y = y' \<and> m = m' \<and> d = d'"
  by (metis civil_of_make_day prod.inject)

lemma valid_date_ranges: "valid_date y m d \<Longrightarrow> 1 \<le> m \<and> m \<le> 12 \<and> 1 \<le> d \<and> d \<le> 31"
  by (auto simp: valid_date_def daysInMonth_def split: if_splits)

end
