(* ===== verification/TimestampFacts.thy ===== *)
theory TimestampFacts
  imports Timestamp
begin

section \<open>Facts about timestamps\<close>

text \<open>
  The instant a parsed timestamp denotes, and what the three exported functions of
  \<open>domain/timestamp.ts\<close> do in terms of it; the shape of the accepted text; the agreement of
  the fast path with the general path.
\<close>

subsection \<open>Decimal fractions\<close>

text \<open>The value of the digits after the point.\<close>

definition frac_val :: "jsstr \<Rightarrow> rat" where
  "frac_val f = of_nat (read_dec f) / 10 ^ length f"

lemma read_dec_append: "read_dec (s @ t) = read_dec s * 10 ^ length t + read_dec t"
proof (induction t rule: rev_induct)
  case (snoc c t)
  then show ?case by (simp add: read_dec_snoc flip: append_assoc)
qed simp

lemma read_dec_Cons: "read_dec (c # s) = digit_val c * 10 ^ length s + read_dec s"
  using read_dec_append [of "[c]" s] by (simp add: read_dec_def)

lemma read_dec_zeros [simp]: "read_dec (replicate k (digit_cu 0)) = 0"
  by (induction k) (simp_all add: read_dec_Cons)

lemma frac_val_pad: "frac_val (s @ replicate k (digit_cu 0)) = frac_val s"
  by (simp add: frac_val_def read_dec_append power_add)

lemma frac_val_pad_end [simp]: "frac_val (pad_end w (digit_cu 0) s) = frac_val s"
  by (simp add: pad_end_def frac_val_pad)

lemma frac_val_bounds: "all_digits s \<Longrightarrow> 0 \<le> frac_val s \<and> frac_val s < 1"
proof -
  assume "all_digits s"
  then have "read_dec s < 10 ^ length s" by (rule read_dec_less)
  then have "(of_nat (read_dec s) :: rat) < of_nat (10 ^ length s)" by (simp only: of_nat_less_iff)
  then show ?thesis by (simp add: frac_val_def)
qed

lemma digit_less_iff: "is_digit c \<Longrightarrow> is_digit d \<Longrightarrow> c < d \<longleftrightarrow> digit_val c < digit_val d"
  by (auto simp: is_digit_unat digit_val_def word_less_nat_alt)

lemma digit_eq_iff: "is_digit c \<Longrightarrow> is_digit d \<Longrightarrow> c = d \<longleftrightarrow> digit_val c = digit_val d"
  by (metis digit_cu_val)

lemma digits_less_iff:
  "length s = length t \<Longrightarrow> all_digits s \<Longrightarrow> all_digits t \<Longrightarrow> s < t \<longleftrightarrow> read_dec s < read_dec t"
proof (induction s t rule: list_induct2)
  case (Cons c s d t)
  have s: "read_dec s < 10 ^ length t" and t: "read_dec t < 10 ^ length t"
    using Cons.prems Cons.hyps read_dec_less [of s] read_dec_less [of t] by auto
  show ?case
  proof (cases "digit_val c" "digit_val d" rule: linorder_cases)
    case less
    then have "(digit_val c + 1) * 10 ^ length t \<le> digit_val d * 10 ^ length t"
      by (intro mult_right_mono) auto
    with s less Cons show ?thesis by (simp add: read_dec_Cons digit_less_iff digit_eq_iff)
  next
    case equal
    with Cons show ?thesis by (simp add: read_dec_Cons digit_less_iff digit_eq_iff)
  next
    case greater
    then have "(digit_val d + 1) * 10 ^ length t \<le> digit_val c * 10 ^ length t"
      by (intro mult_right_mono) auto
    with t greater Cons show ?thesis by (simp add: read_dec_Cons digit_less_iff digit_eq_iff)
  qed
qed simp

lemma frac_val_less_iff:
  "length s = length t \<Longrightarrow> all_digits s \<Longrightarrow> all_digits t \<Longrightarrow> s < t \<longleftrightarrow> frac_val s < frac_val t"
  by (simp add: digits_less_iff frac_val_def divide_strict_right_mono divide_less_cancel)

lemma all_digits_replicate [simp]: "all_digits (replicate k (digit_cu 0))"
  by (induction k) simp_all

lemma all_digits_pad_end [simp]: "all_digits s \<Longrightarrow> all_digits (pad_end w (digit_cu 0) s)"
  by (simp add: pad_end_def)

lemma compareFractions_sgn:
  assumes "all_digits l" "all_digits r"
  shows "of_int (compareFractions l r) = sgn (frac_val l - frac_val r)"
proof -
  define w where "w = max (length l) (length r)"
  have "pad_end w (digit_cu 0) l < pad_end w (digit_cu 0) r \<longleftrightarrow> frac_val l < frac_val r"
    and "pad_end w (digit_cu 0) r < pad_end w (digit_cu 0) l \<longleftrightarrow> frac_val r < frac_val l"
    using assms by (simp_all add: frac_val_less_iff w_def)
  then show ?thesis
    by (simp add: compareFractions_def cu_zero Let_def w_def [symmetric])
qed

subsection \<open>The canonical fraction\<close>

lemma strip_trailing_zeros_decomp: "\<exists>k. s = strip_trailing_zeros s @ replicate k (digit_cu 0)"
proof -
  let ?P = "\<lambda>c. c = digit_cu 0"
  have "\<forall>c\<in>set (takeWhile ?P (rev s)). c = digit_cu 0" by (auto dest: set_takeWhileD)
  then obtain k where "takeWhile ?P (rev s) = replicate k (digit_cu 0)"
    by (metis replicate_length_same)
  moreover have "s = rev (dropWhile ?P (rev s)) @ rev (takeWhile ?P (rev s))"
    by (metis rev_append rev_rev_ident takeWhile_dropWhile_id)
  ultimately show ?thesis by (auto simp: strip_trailing_zeros_def cu_zero)
qed

lemma strip_trailing_zeros_last:
  "strip_trailing_zeros s \<noteq> [] \<Longrightarrow> last (strip_trailing_zeros s) \<noteq> digit_cu 0"
  using hd_dropWhile [of "\<lambda>c. c = digit_cu 0" "rev s"]
  by (simp add: strip_trailing_zeros_def cu_zero last_rev)

lemma all_digits_strip: "all_digits s \<Longrightarrow> all_digits (strip_trailing_zeros s)"
  using strip_trailing_zeros_decomp [of s] by (metis all_digits_simps(3))

lemma all_digits_take_drop: "all_digits s \<Longrightarrow> all_digits (take n s) \<and> all_digits (drop n s)"
  by (metis all_digits_simps(3) append_take_drop_id)

lemma all_digits_format: "all_digits f \<Longrightarrow> all_digits (formatCanonicalFraction f)"
  by (simp add: formatCanonicalFraction_def Let_def cu_zero all_digits_take_drop all_digits_strip)

lemma frac_val_format [simp]: "frac_val (formatCanonicalFraction f) = frac_val f"
proof -
  let ?p = "pad_end 3 (digit_cu 0) f"
  obtain k where "drop 3 ?p = strip_trailing_zeros (drop 3 ?p) @ replicate k (digit_cu 0)"
    using strip_trailing_zeros_decomp by blast
  then have "?p = formatCanonicalFraction f @ replicate k (digit_cu 0)"
    by (simp add: formatCanonicalFraction_def Let_def cu_zero)
  then have "frac_val ?p = frac_val (formatCanonicalFraction f)" by (metis frac_val_pad)
  then show ?thesis by simp
qed

lemma length_format: "3 \<le> length (formatCanonicalFraction f)"
  by (simp add: formatCanonicalFraction_def Let_def)

lemma format_length3: "length f = 3 \<Longrightarrow> formatCanonicalFraction f = f"
  by (simp add: formatCanonicalFraction_def Let_def pad_end_def strip_trailing_zeros_def)

text \<open>The canonical fraction of a value is unique, so formatting is idempotent.\<close>

lemma same_frac_val_extend:
  assumes "frac_val s = frac_val t" "all_digits s" "all_digits t" "length s \<le> length t"
  shows "t = s @ replicate (length t - length s) (digit_cu 0)"
proof -
  let ?s = "s @ replicate (length t - length s) (digit_cu 0)"
  have len: "length ?s = length t" using assms(4) by simp
  have "frac_val ?s = frac_val t" using assms(1) by (simp add: frac_val_pad)
  then have "read_dec ?s = read_dec t"
    unfolding frac_val_def len by simp
  moreover have "all_digits ?s" using assms(2) by simp
  ultimately show ?thesis using fix_digits_read_dec assms(3) len by metis
qed

lemma format_minimal:
  assumes "4 \<le> length (formatCanonicalFraction f)"
  shows "last (formatCanonicalFraction f) \<noteq> digit_cu 0"
proof -
  let ?p = "pad_end 3 (digit_cu 0) f"
  have eq: "formatCanonicalFraction f = take 3 ?p @ strip_trailing_zeros (drop 3 ?p)"
    by (simp add: formatCanonicalFraction_def Let_def cu_zero)
  with assms have "strip_trailing_zeros (drop 3 ?p) \<noteq> []" by auto
  with eq show ?thesis by (simp add: strip_trailing_zeros_last)
qed

lemma format_unique_aux:
  assumes v: "frac_val f = frac_val g" and dig: "all_digits f" "all_digits g"
    and le: "length (formatCanonicalFraction f) \<le> length (formatCanonicalFraction g)"
  shows "formatCanonicalFraction f = formatCanonicalFraction g"
proof -
  let ?f = "formatCanonicalFraction f" and ?g = "formatCanonicalFraction g"
  have eq: "?g = ?f @ replicate (length ?g - length ?f) (digit_cu 0)"
    using v dig le by (intro same_frac_val_extend) (simp_all add: all_digits_format)
  show ?thesis
  proof (cases "length ?f = length ?g")
    case True
    with eq show ?thesis by simp
  next
    case False
    with le length_format [of f] have "4 \<le> length ?g" by linarith
    then have "last ?g \<noteq> digit_cu 0" by (rule format_minimal)
    moreover have "last ?g = digit_cu 0"
      using False le by (subst eq) (simp add: last_append)
    ultimately show ?thesis by simp
  qed
qed

lemma format_eq_iff:
  "all_digits f \<Longrightarrow> all_digits g \<Longrightarrow>
   formatCanonicalFraction f = formatCanonicalFraction g \<longleftrightarrow> frac_val f = frac_val g"
  by (metis format_unique_aux frac_val_format nle_le)

lemma format_idem: "all_digits f \<Longrightarrow> formatCanonicalFraction (formatCanonicalFraction f) = formatCanonicalFraction f"
  by (simp add: format_eq_iff all_digits_format)

subsection \<open>The shape of the accepted text\<close>

definition dt_text :: "date_time_text \<Rightarrow> jsstr" where
  "dt_text dt =
     t_year dt @ js ''-'' @ t_month dt @ js ''-'' @ t_day dt @ js ''T'' @
     t_hour dt @ js '':'' @ t_minute dt @ js '':'' @ t_second dt"

definition wf_dt :: "date_time_text \<Rightarrow> bool" where
  "wf_dt dt \<longleftrightarrow>
     length (t_year dt) = 4 \<and> length (t_month dt) = 2 \<and> length (t_day dt) = 2 \<and>
     length (t_hour dt) = 2 \<and> length (t_minute dt) = 2 \<and> length (t_second dt) = 2 \<and>
     all_digits (t_year dt) \<and> all_digits (t_month dt) \<and> all_digits (t_day dt) \<and>
     all_digits (t_hour dt) \<and> all_digits (t_minute dt) \<and> all_digits (t_second dt)"

lemma take_digits_iff:
  "take_digits n s = Some (d, r) \<longleftrightarrow> s = d @ r \<and> length d = n \<and> all_digits d"
  by (auto simp: take_digits_def)

lemma expect_iff: "expect c s = Some r \<longleftrightarrow> s = cu c # r"
  by (auto simp: expect_def split: list.splits)

lemma take_digits1_iff:
  "take_digits1 s = Some (f, r) \<longleftrightarrow>
     s = f @ r \<and> f \<noteq> [] \<and> all_digits f \<and> (r = [] \<or> \<not> is_digit (hd r))" (is "?l \<longleftrightarrow> ?r")
proof
  assume ?l
  then have f: "f = takeWhile is_digit s" "r = dropWhile is_digit s" "f \<noteq> []"
    by (auto simp: take_digits1_def Let_def split: if_splits)
  then have "all_digits f" by (auto simp: all_digits_def list_all_iff dest: set_takeWhileD)
  moreover have "r = [] \<or> \<not> is_digit (hd r)" using f hd_dropWhile [of is_digit s] by auto
  ultimately show ?r using f by simp
next
  assume r: ?r
  then have "takeWhile is_digit s = f \<and> dropWhile is_digit s = r"
    by (cases r) (auto simp: all_digits_def list_all_iff takeWhile_append2 dropWhile_append2)
  with r show ?l by (simp add: take_digits1_def)
qed

lemma match_date_time_iff:
  "match_date_time s = Some (dt, r) \<longleftrightarrow> s = dt_text dt @ r \<and> wf_dt dt"
proof
  assume "match_date_time s = Some (dt, r)"
  then show "s = dt_text dt @ r \<and> wf_dt dt"
    by (auto simp: match_date_time_def take_digits_iff expect_iff bind_eq_Some_conv
        dt_text_def wf_dt_def js_def)
next
  assume "s = dt_text dt @ r \<and> wf_dt dt"
  then show "match_date_time s = Some (dt, r)"
    by (auto simp: match_date_time_def take_digits_def expect_def dt_text_def wf_dt_def js_def)
qed

lemma canonical_millisecond_pattern_iff:
  "canonical_millisecond_pattern s = Some (dt, f) \<longleftrightarrow>
     s = dt_text dt @ js ''.'' @ f @ js ''Z'' \<and> wf_dt dt \<and> length f = 3 \<and> all_digits f" (is "?l \<longleftrightarrow> ?r")
proof
  assume ?l
  then show ?r
    by (auto simp: canonical_millisecond_pattern_def match_date_time_iff take_digits_iff
        expect_iff bind_eq_Some_conv js_def split: if_splits)
next
  assume r: ?r
  then have "match_date_time s = Some (dt, js ''.'' @ f @ js ''Z'')"
    by (simp add: match_date_time_iff)
  moreover have "expect CHR ''.'' (js ''.'' @ f @ js ''Z'') = Some (f @ js ''Z'')"
    by (simp add: expect_iff js_def)
  moreover have "take_digits 3 (f @ js ''Z'') = Some (f, js ''Z'')"
    using r by (simp add: take_digits_iff)
  moreover have "expect CHR ''Z'' (js ''Z'') = Some []" by (simp add: expect_iff js_def)
  ultimately show ?l by (simp add: canonical_millisecond_pattern_def)
qed

lemma timestamp_pattern_fraction_Z:
  assumes "wf_dt dt" "all_digits f" "f \<noteq> []"
  shows "timestamp_pattern (dt_text dt @ js ''.'' @ f @ js ''Z'') = Some (dt, Some f, ZoneZ)"
proof -
  have "match_date_time (dt_text dt @ js ''.'' @ f @ js ''Z'') = Some (dt, js ''.'' @ f @ js ''Z'')"
    using assms by (simp add: match_date_time_iff)
  moreover have "match_fraction (js ''.'' @ f @ js ''Z'') = Some (Some f, js ''Z'')"
  proof -
    have "take_digits1 (f @ js ''Z'') = Some (f, js ''Z'')"
      using assms by (simp add: take_digits1_iff js_def)
    then show ?thesis by (simp add: match_fraction_def expect_def js_def)
  qed
  moreover have "match_zone (js ''Z'') = Some ZoneZ" by (simp add: match_zone_def js_def)
  ultimately show ?thesis by (simp add: timestamp_pattern_def)
qed

lemma timestamp_pattern_fields:
  assumes "timestamp_pattern s = Some (dt, fo, z)"
  shows "wf_dt dt \<and> (case fo of None \<Rightarrow> True | Some f \<Rightarrow> all_digits f)"
  using assms
  by (auto simp: timestamp_pattern_def match_date_time_iff bind_eq_Some_conv match_fraction_def
      take_digits1_iff split: option.splits)

subsection \<open>Printing a date is reading it back\<close>

text \<open>The fields \<open>toISOString\<close> prints, for years of four digits.\<close>

definition dt_of :: "int \<Rightarrow> date_time_text" where
  "dt_of t =
     (let (y, m, d) = civil_of_day (t div ms_per_day); c = t mod ms_per_day
      in \<lparr>t_year = fix_digits 4 (nat y), t_month = fix_digits 2 (nat m), t_day = fix_digits 2 (nat d),
          t_hour = fix_digits 2 (nat (c div 3600000)),
          t_minute = fix_digits 2 (nat (c div 60000 mod 60)),
          t_second = fix_digits 2 (nat (c div 1000 mod 60))\<rparr>)"

definition year_of :: "int \<Rightarrow> int" where
  "year_of t = fst (civil_of_day (t div ms_per_day))"

definition four_digit_year :: "int \<Rightarrow> bool" where
  "four_digit_year t \<longleftrightarrow> 0 \<le> year_of t \<and> year_of t \<le> 9999"

lemma wf_dt_of [simp]: "wf_dt (dt_of t)"
  by (simp add: wf_dt_def dt_of_def Let_def split: prod.splits)

lemma show2_fix: "0 \<le> n \<Longrightarrow> n < 100 \<Longrightarrow> show2 n = fix_digits 2 (nat n)"
  by (simp add: show2_def cu_zero pad_start_show_nat)

lemma show3_fix: "0 \<le> n \<Longrightarrow> n < 1000 \<Longrightarrow> show3 n = fix_digits 3 (nat n)"
  by (simp add: show3_def cu_zero pad_start_show_nat)

lemma show_year_fix: "0 \<le> y \<Longrightarrow> y \<le> 9999 \<Longrightarrow> show_year y = fix_digits 4 (nat y)"
  by (simp add: show_year_def cu_zero pad_start_show_nat)

lemma time_of_day_bounds:
  fixes t :: int
  defines "c \<equiv> t mod ms_per_day"
  shows "0 \<le> c div 3600000" "c div 3600000 < 24" "0 \<le> c div 60000 mod 60" "c div 60000 mod 60 < 60"
    "0 \<le> c div 1000 mod 60" "c div 1000 mod 60 < 60"
    "c = c div 3600000 * 3600000 + c div 60000 mod 60 * 60000 + c div 1000 mod 60 * 1000 + c mod 1000"
    "c mod 1000 = t mod 1000"
proof -
  have c: "0 \<le> c" "c < ms_per_day" by (simp_all add: c_def)
  then show "0 \<le> c div 3600000" "c div 3600000 < 24" "0 \<le> c div 60000 mod 60"
    "c div 60000 mod 60 < 60" "0 \<le> c div 1000 mod 60" "c div 1000 mod 60 < 60"
    by (simp_all add: div_less_iff_less_mult pos_imp_zdiv_nonneg_iff)
  show "c mod 1000 = t mod 1000" by (simp add: c_def mod_mod_cancel)
  have "c = c div 1000 * 1000 + c mod 1000" by simp
  also have "c div 1000 = c div 1000 div 60 * 60 + c div 1000 mod 60" by simp
  also have "c div 1000 div 60 = c div 60000" by (simp flip: zdiv_zmult2_eq)
  also have "c div 60000 = c div 60000 div 60 * 60 + c div 60000 mod 60" by simp
  also have "c div 60000 div 60 = c div 3600000" by (simp flip: zdiv_zmult2_eq)
  finally show "c = c div 3600000 * 3600000 + c div 60000 mod 60 * 60000 + c div 1000 mod 60 * 1000 + c mod 1000"
    by (simp add: algebra_simps)
qed

lemma num_fix_digits: "n < 10 ^ w \<Longrightarrow> num (fix_digits w n) = int n"
  by (simp add: num_def read_dec_fix_digits)

lemma num_nonneg: "0 \<le> num s"
  by (simp add: num_def)

lemma num_less: "all_digits s \<Longrightarrow> num s < 10 ^ length s"
  using read_dec_less [of s] by (simp add: num_def flip: of_nat_less_iff)

lemma fix_digits_num: "all_digits s \<Longrightarrow> length s = w \<Longrightarrow> fix_digits w (nat (num s)) = s"
  using fix_digits_read_dec [of s] by (simp add: num_def)

lemma show2_field: "0 \<le> n \<Longrightarrow> n < 60 \<Longrightarrow> show2 n = fix_digits 2 (nat n)"
  by (rule show2_fix) simp_all

lemma num_field: "0 \<le> n \<Longrightarrow> n < 60 \<Longrightarrow> num (fix_digits 2 (nat n)) = n"
  by (simp add: num_fix_digits)

lemma toISOString_text:
  assumes "four_digit_year t"
  shows "toISOString t = dt_text (dt_of t) @ js ''.'' @ fix_digits 3 (nat (t mod 1000)) @ js ''Z''"
proof -
  obtain y m d where civ: "civil_of_day (t div ms_per_day) = (y, m, d)" by (metis prod_cases3)
  then have "valid_date y m d" using make_day_of_civil by blast
  note rng = valid_date_ranges [OF this]
  have y: "0 \<le> y" "y \<le> 9999" using assms civ by (auto simp: four_digit_year_def year_of_def)
  note c = time_of_day_bounds [of t]
  have "t mod ms_per_day div 3600000 < 60" using c(2) by linarith
  then have clk: "iso_clock (t mod ms_per_day) = t_hour (dt_of t) @ js '':'' @ t_minute (dt_of t) @ js '':'' @ t_second (dt_of t)"
    by (simp only: iso_clock_def dt_of_def civ Let_def prod.case date_time_text.simps
        show2_field c(1) c(3) c(4) c(5) c(6))
  have "show2 m = fix_digits 2 (nat m)" "show2 d = fix_digits 2 (nat d)"
    using rng by (auto intro!: show2_field)
  then have dat: "iso_date (t div ms_per_day) = t_year (dt_of t) @ js ''-'' @ t_month (dt_of t) @ js ''-'' @ t_day (dt_of t)"
    using show_year_fix [OF y]
    by (simp only: iso_date_def dt_of_def civ Let_def prod.case date_time_text.simps)
  have "show3 (t mod 1000) = fix_digits 3 (nat (t mod 1000))" by (rule show3_fix) simp_all
  then show ?thesis by (simp only: toISOString_def clk dat dt_text_def append_assoc)
qed

lemma dt_of_values:
  assumes "four_digit_year t"
  shows "components_ok (dt_of t) \<and> time_value (dt_of t) = t - t mod 1000"
proof -
  obtain y m d where civ: "civil_of_day (t div ms_per_day) = (y, m, d)" by (metis prod_cases3)
  then have v: "valid_date y m d" "make_day y m d = t div ms_per_day"
    using make_day_of_civil by blast+
  note rng = valid_date_ranges [OF v(1)]
  have y: "0 \<le> y" "y \<le> 9999" using assms civ by (auto simp: four_digit_year_def year_of_def)
  define h mi se where "h = t mod ms_per_day div 3600000"
    and "mi = t mod ms_per_day div 60000 mod 60" and "se = t mod ms_per_day div 1000 mod 60"
  note c = time_of_day_bounds [of t, folded h_def mi_def se_def]
  have dt: "dt_of t = \<lparr>t_year = fix_digits 4 (nat y), t_month = fix_digits 2 (nat m),
      t_day = fix_digits 2 (nat d), t_hour = fix_digits 2 (nat h),
      t_minute = fix_digits 2 (nat mi), t_second = fix_digits 2 (nat se)\<rparr>"
    by (simp only: dt_of_def civ Let_def prod.case h_def mi_def se_def)
  have "h < 60" using c(2) by linarith
  then have nums: "num (t_year (dt_of t)) = y" "num (t_month (dt_of t)) = m" "num (t_day (dt_of t)) = d"
    "num (t_hour (dt_of t)) = h" "num (t_minute (dt_of t)) = mi" "num (t_second (dt_of t)) = se"
    using rng y c(1) c(3-6) by (simp_all add: dt num_field, simp add: num_fix_digits)
  have "t = t div ms_per_day * ms_per_day + t mod ms_per_day" by simp
  then have "make_time y m d h mi se 0 = t - t mod 1000"
    using c(7,8) unfolding make_time_def v(2) by linarith
  moreover have "components_ok (dt_of t)"
    using v(1) c(1-6) by (simp add: components_ok_def nums Let_def valid_date_def not_less)
  ultimately show ?thesis by (simp add: time_value_def nums)
qed

lemma components_ok_valid:
  assumes "components_ok dt"
  shows "valid_date (num (t_year dt)) (num (t_month dt)) (num (t_day dt))"
    "0 \<le> num (t_hour dt)" "num (t_hour dt) \<le> 23" "0 \<le> num (t_minute dt)" "num (t_minute dt) \<le> 59"
    "0 \<le> num (t_second dt)" "num (t_second dt) \<le> 59"
  using assms by (auto simp: components_ok_def valid_date_def Let_def not_less num_nonneg)

lemma make_time_split:
  assumes "0 \<le> h" "h \<le> 23" "0 \<le> mi" "mi \<le> 59" "0 \<le> s" "s \<le> 59" "0 \<le> ms" "ms < (1000::int)"
  shows "make_time y mo d h mi s ms div ms_per_day = make_day y mo d"
    "make_time y mo d h mi s ms mod ms_per_day div 3600000 = h"
    "make_time y mo d h mi s ms mod ms_per_day div 60000 mod 60 = mi"
    "make_time y mo d h mi s ms mod ms_per_day div 1000 mod 60 = s"
    "make_time y mo d h mi s ms mod 1000 = ms"
proof -
  define c where "c = h * 3600000 + mi * 60000 + s * 1000 + ms"
  have c: "0 \<le> c" "c < ms_per_day" using assms by (auto simp: c_def)
  have t: "make_time y mo d h mi s ms = make_day y mo d * ms_per_day + c"
    by (simp add: make_time_def c_def)
  show "make_time y mo d h mi s ms div ms_per_day = make_day y mo d"
    using c by (simp add: t div_add1_eq)
  have m: "make_time y mo d h mi s ms mod ms_per_day = c"
    using c by (simp add: t)
  show "make_time y mo d h mi s ms mod ms_per_day div 3600000 = h"
    unfolding m using assms by (intro int_div_pos_eq [of _ _ _ "mi * 60000 + s * 1000 + ms"]) (auto simp: c_def)
  have "c div 60000 = h * 60 + mi"
    using assms by (intro int_div_pos_eq [of _ _ _ "s * 1000 + ms"]) (auto simp: c_def)
  then show "make_time y mo d h mi s ms mod ms_per_day div 60000 mod 60 = mi"
    unfolding m using assms by simp
  have "c div 1000 = (h * 60 + mi) * 60 + s"
    using assms by (intro int_div_pos_eq [of _ _ _ ms]) (auto simp: c_def)
  moreover have "((h * 60 + mi) * 60 + s) mod 60 = s mod 60" by (rule mod_mult_self3)
  ultimately show "make_time y mo d h mi s ms mod ms_per_day div 1000 mod 60 = s"
    unfolding m using assms by simp
  have "make_time y mo d h mi s ms = (make_day y mo d * 86400 + h * 3600 + mi * 60 + s) * 1000 + ms"
    by (simp add: make_time_def)
  then have "make_time y mo d h mi s ms mod 1000 = ms mod 1000" by (simp only: mod_mult_self3)
  then show "make_time y mo d h mi s ms mod 1000 = ms" using assms(7,8) by simp
qed

lemma dt_of_time_value:
  assumes wf: "wf_dt dt" and ok: "components_ok dt" and ms: "0 \<le> ms" "ms < 1000"
  shows "dt_of (time_value dt + ms) = dt \<and> four_digit_year (time_value dt + ms) \<and>
    (time_value dt + ms) mod 1000 = ms"
proof -
  define t where "t = time_value dt + ms"
  have t: "t = make_time (num (t_year dt)) (num (t_month dt)) (num (t_day dt))
       (num (t_hour dt)) (num (t_minute dt)) (num (t_second dt)) ms"
    by (simp add: t_def time_value_def make_time_def)
  note v = components_ok_valid [OF ok]
  note sp = make_time_split [OF v(2-7) ms, of "num (t_year dt)" "num (t_month dt)" "num (t_day dt)", folded t]
  note civ = civil_of_make_day [OF v(1), folded sp(1)]
  have "dt_of t = dt"
    using wf by (simp add: dt_of_def civ sp(2-5) Let_def fix_digits_num wf_dt_def)
  moreover have "four_digit_year t"
    using num_less [of "t_year dt"] wf num_nonneg [of "t_year dt"]
    by (simp add: four_digit_year_def year_of_def civ wf_dt_def)
  ultimately show ?thesis using sp(5) by (simp add: t_def)
qed

subsection \<open>The fast path agrees with the general path\<close>

lemma dt_text_append_inject:
  "wf_dt a \<Longrightarrow> wf_dt b \<Longrightarrow> dt_text a @ r = dt_text b @ s \<Longrightarrow> a = b \<and> r = s"
  by (metis match_date_time_iff option.inject prod.inject)

lemma four_digit_year_bounds:
  assumes "four_digit_year t"
  shows "\<bar>t\<bar> \<le> 8640000000000000"
proof -
  obtain y m d where civ: "civil_of_day (t div ms_per_day) = (y, m, d)" by (metis prod_cases3)
  then have v: "valid_date y m d" "make_day y m d = t div ms_per_day"
    using make_day_of_civil by blast+
  note rng = valid_date_ranges [OF v(1)]
  have y: "0 \<le> y" "y \<le> 9999" using assms civ by (auto simp: four_digit_year_def year_of_def)
  have "0 \<le> month_start (isLeapYear y) m" "month_start (isLeapYear y) m \<le> 366"
    using month_start_bounds [of m "isLeapYear y"] month_start_next [of m y] rng
    by (auto simp: daysInMonth_def split: if_splits)
  with v(2) rng day_from_year_lower [of y] day_from_year_upper [of y] y
  have "- 1000000 \<le> t div ms_per_day" "t div ms_per_day \<le> 4000000"
    by (simp_all add: make_day_def)
  moreover have "t = t div ms_per_day * ms_per_day + t mod ms_per_day" by simp
  moreover have "0 \<le> t mod ms_per_day" "t mod ms_per_day < ms_per_day" by simp_all
  ultimately show ?thesis by linarith
qed

lemma drop_zero_millis_dt [simp]: "drop_zero_millis (a @ js ''.'' @ js ''000Z'') = a"
  by (simp add: drop_zero_millis_def js_def)

lemma toISOString_whole_second:
  assumes "four_digit_year t" "t mod 1000 = 0"
  shows "drop_zero_millis (toISOString t) = dt_text (dt_of t)"
proof -
  have "fix_digits 3 0 @ js ''Z'' = js ''000Z''"
    by (simp add: fix_digits_zero js_def cu_zero numeral_3_eq_3)
  then show ?thesis
    using assms by (simp add: toISOString_text)
qed

lemma fast_path_ok:
  assumes wf: "wf_dt dt" "length f = 3" "all_digits f" and ok: "components_ok dt"
  shows "parse_canonical_milliseconds (dt_text dt @ js ''.'' @ f @ js ''Z'') dt f =
    Inr \<lparr>canonical = dt_text dt @ js ''.'' @ f @ js ''Z'', wholeSecondMs = time_value dt, fraction = f\<rparr>"
proof -
  have f: "0 \<le> num f" "num f < 1000" using num_less [OF wf(3)] wf(2) by (simp_all add: num_nonneg)
  define t where "t = time_value dt + num f"
  note dt = dt_of_time_value [OF wf(1) ok f, folded t_def]
  note v = components_ok_valid [OF ok]
  have "date_parse_fields (num (t_year dt)) (num (t_month dt)) (num (t_day dt))
      (num (t_hour dt)) (num (t_minute dt)) (num (t_second dt)) (num f) =
      time_clip (make_time (num (t_year dt)) (num (t_month dt)) (num (t_day dt))
      (num (t_hour dt)) (num (t_minute dt)) (num (t_second dt)) (num f))"
    using v valid_date_ranges [OF v(1)] by (simp add: date_parse_fields_def)
  also have "\<dots> = Some t"
    using four_digit_year_bounds [of t] dt
    by (simp add: time_clip_def t_def time_value_def make_time_def)
  finally have parse: "date_parse_fields (num (t_year dt)) (num (t_month dt)) (num (t_day dt))
      (num (t_hour dt)) (num (t_minute dt)) (num (t_second dt)) (num f) = Some t" .
  have "toISOString t = dt_text dt @ js ''.'' @ f @ js ''Z''"
    using dt wf by (simp add: toISOString_text fix_digits_num)
  moreover have "(t div 1000) * 1000 = time_value dt"
    using dt minus_mod_eq_div_mult [of t 1000] by (simp add: t_def)
  ultimately show ?thesis by (simp add: parse_canonical_milliseconds_def parse)
qed

lemma fast_path_reject:
  assumes wf: "wf_dt dt" "length f = 3" "all_digits f" and bad: "\<not> components_ok dt"
  shows "parse_canonical_milliseconds (dt_text dt @ js ''.'' @ f @ js ''Z'') dt f = Inl Components"
proof -
  have "toISOString t \<noteq> dt_text dt @ js ''.'' @ f @ js ''Z''"
    if t: "t = make_time (num (t_year dt)) (num (t_month dt)) (num (t_day dt))
      (num (t_hour dt)) (num (t_minute dt)) (num (t_second dt)) (num f)" for t
  proof
    assume eq: "toISOString t = dt_text dt @ js ''.'' @ f @ js ''Z''"
    show False
    proof (cases "four_digit_year t")
      case True
      then have "dt_text (dt_of t) @ js ''.'' @ fix_digits 3 (nat (t mod 1000)) @ js ''Z'' =
          dt_text dt @ js ''.'' @ f @ js ''Z''"
        using eq by (simp add: toISOString_text)
      then have "dt_of t = dt" using dt_text_append_inject wf(1) wf_dt_of by blast
      then show False using dt_of_values [OF True] bad by simp
    next
      case False
      then have "\<not> is_digit (hd (toISOString t))"
        by (auto simp: toISOString_def iso_date_def four_digit_year_def year_of_def show_year_def
            split: prod.splits)
      moreover have "is_digit (hd (dt_text dt @ js ''.'' @ f @ js ''Z''))"
        using wf(1) by (cases "t_year dt") (auto simp: dt_text_def wf_dt_def)
      ultimately show False using eq by simp
    qed
  qed
  then show ?thesis
    by (auto simp: parse_canonical_milliseconds_def date_parse_fields_def time_clip_def split: option.splits)
qed

lemma fast_path_general:
  assumes "canonical_millisecond_pattern v = Some (dt, f)"
  shows "timestamp_pattern v = Some (dt, Some f, ZoneZ) \<and>
    parse_canonical_milliseconds v dt f = parse_general dt (Some f) ZoneZ"
proof -
  have v: "v = dt_text dt @ js ''.'' @ f @ js ''Z''" and wf: "wf_dt dt" "length f = 3" "all_digits f"
    using assms by (auto simp: canonical_millisecond_pattern_iff)
  have "parse_canonical_milliseconds v dt f = parse_general dt (Some f) ZoneZ"
  proof (cases "components_ok dt")
    case True
    note dt = dt_of_time_value [OF wf(1) True, of 0, simplified]
    with wf have "drop_zero_millis (toISOString (time_value dt)) = dt_text dt"
      by (simp add: toISOString_whole_second)
    then show ?thesis
      using True wf by (simp add: fast_path_ok v parse_general_def format_length3)
  next
    case False
    then show ?thesis using wf by (simp add: fast_path_reject v parse_general_def)
  qed
  moreover have "f \<noteq> []" using wf(2) by auto
  ultimately show ?thesis
    using wf v by (simp add: timestamp_pattern_fraction_Z)
qed

text \<open>So the whole function is its general path.\<close>

lemma parse_general_path:
  "parseCanonicalTimestamp v =
     (case timestamp_pattern v of
        None \<Rightarrow> Inl Grammar
      | Some (dt, fo, z) \<Rightarrow> parse_general dt fo z)"
  by (auto simp: parseCanonicalTimestamp_def fast_path_general split: option.splits prod.splits)

subsection \<open>Instants\<close>

text \<open>The instant a parsed timestamp denotes, in seconds since 1970, exactly.\<close>

definition instant :: "parsed_timestamp \<Rightarrow> rat" where
  "instant ts = of_int (wholeSecondMs ts) / 1000 + frac_val (fraction ts)"

definition wf_timestamp :: "parsed_timestamp \<Rightarrow> bool" where
  "wf_timestamp ts \<longleftrightarrow> wholeSecondMs ts mod 1000 = 0 \<and> all_digits (fraction ts) \<and>
     canonical ts = drop_zero_millis (toISOString (wholeSecondMs ts)) @ js ''.'' @
       formatCanonicalFraction (fraction ts) @ js ''Z''"

lemma time_value_mod: "time_value dt mod 1000 = 0"
proof -
  have "time_value dt = (make_day (num (t_year dt)) (num (t_month dt)) (num (t_day dt)) * 86400 +
      num (t_hour dt) * 3600 + num (t_minute dt) * 60 + num (t_second dt)) * 1000"
    by (simp add: time_value_def make_time_def)
  then show ?thesis by (simp only: mod_mult_self2_is_0)
qed

lemma whole_second_offset: "(time_value dt - offset * 60000) mod 1000 = 0"
proof -
  have "time_value dt = time_value dt div 1000 * 1000"
    using time_value_mod [of dt] minus_mod_eq_div_mult [of "time_value dt" 1000] by simp
  then have "time_value dt - offset * 60000 = (time_value dt div 1000 - offset * 60) * 1000"
    by simp
  then show ?thesis by (simp only: mod_mult_self2_is_0)
qed

lemma parse_general_wf:
  assumes "parse_general dt fo z = Inr ts" "case fo of None \<Rightarrow> True | Some f \<Rightarrow> all_digits f"
  shows "wf_timestamp ts"
  using assms whole_second_offset
  by (auto simp: parse_general_def wf_timestamp_def Let_def split: if_splits option.splits)

lemma parse_wf: "parseCanonicalTimestamp v = Inr ts \<Longrightarrow> wf_timestamp ts"
  by (auto simp: parse_general_path split: option.splits prod.splits
      intro!: parse_general_wf dest!: timestamp_pattern_fields)

lemma whole_second_split: "wf_timestamp ts \<Longrightarrow> wholeSecondMs ts = wholeSecondMs ts div 1000 * 1000"
  using minus_mod_eq_div_mult [of "wholeSecondMs ts" 1000] by (simp add: wf_timestamp_def)

lemma compare_sgn:
  assumes "wf_timestamp l" "wf_timestamp r"
  shows "of_int (compareParsedTimestamps l r) = sgn (instant l - instant r)"
proof -
  have fr: "0 \<le> frac_val (fraction l)" "frac_val (fraction l) < 1"
    "0 \<le> frac_val (fraction r)" "frac_val (fraction r) < 1"
    using assms frac_val_bounds by (auto simp: wf_timestamp_def)
  define a b where "a = wholeSecondMs l div 1000" and "b = wholeSecondMs r div 1000"
  have ab: "wholeSecondMs l = a * 1000" "wholeSecondMs r = b * 1000"
    using assms whole_second_split by (simp_all add: a_def b_def)
  have inst: "instant l = of_int a + frac_val (fraction l)" "instant r = of_int b + frac_val (fraction r)"
    by (simp_all add: instant_def ab)
  show ?thesis
  proof (cases a b rule: linorder_cases)
    case less
    then have "(of_int a :: rat) + 1 \<le> of_int b" by linarith
    with fr less show ?thesis by (simp add: compareParsedTimestamps_def ab inst)
  next
    case equal
    then show ?thesis
      using compareFractions_sgn assms by (simp add: compareParsedTimestamps_def ab inst wf_timestamp_def)
  next
    case greater
    then have "(of_int b :: rat) + 1 \<le> of_int a" by linarith
    with fr greater show ?thesis by (simp add: compareParsedTimestamps_def ab inst)
  qed
qed

lemma compareFractions_pos:
  "all_digits l \<Longrightarrow> all_digits r \<Longrightarrow> 0 < compareFractions l r \<longleftrightarrow> frac_val r < frac_val l"
  using compareFractions_sgn [of l r] by (simp add: sgn_if split: if_splits)

lemma after_limit_iff:
  assumes "wf_timestamp ts"
  shows "isParsedTimestampAfterEpochMilliseconds ts limit \<longleftrightarrow> of_int limit < instant ts * 1000"
proof -
  define a b m where "a = wholeSecondMs ts div 1000" and "b = limit div 1000" and "m = limit mod 1000"
  have a: "wholeSecondMs ts = a * 1000"
    using assms whole_second_split by (simp add: a_def)
  have b: "limit = b * 1000 + m" and m: "0 \<le> m" "m < 1000" by (simp_all add: b_def m_def)
  have fr: "0 \<le> frac_val (fraction ts)" "frac_val (fraction ts) < 1" and dig: "all_digits (fraction ts)"
    using assms frac_val_bounds by (auto simp: wf_timestamp_def)
  have pad: "pad_start 3 (cu CHR ''0'') (show_nat (nat m)) = fix_digits 3 (nat m)"
    using m by (simp add: cu_zero pad_start_show_nat)
  have "frac_val (fix_digits 3 (nat m)) = of_int m / 1000"
    using m by (simp add: frac_val_def read_dec_fix_digits)
  moreover note compareFractions_pos [OF dig all_digits_fix_digits]
  ultimately have cmp: "0 < compareFractions (fraction ts) (fix_digits 3 (nat m)) \<longleftrightarrow> of_int m / 1000 < frac_val (fraction ts)"
    by (simp only:)
  have inst: "instant ts * 1000 = of_int a * 1000 + frac_val (fraction ts) * 1000"
    by (simp add: instant_def a algebra_simps)
  have lim: "(of_int limit :: rat) = of_int b * 1000 + of_int m" using b by simp
  have mr: "0 \<le> (of_int m :: rat)" "(of_int m :: rat) < 1000" using m by simp_all
  have after: "isParsedTimestampAfterEpochMilliseconds ts limit \<longleftrightarrow>
      (if a \<noteq> b then b < a else of_int m / 1000 < frac_val (fraction ts))"
  proof -
    have "limit - b * 1000 = m" using b by simp
    moreover have "a * 1000 \<noteq> b * 1000 \<longleftrightarrow> a \<noteq> b" "b * 1000 < a * 1000 \<longleftrightarrow> b < a" by simp_all
    ultimately show ?thesis
      using cmp pad
      by (simp only: isParsedTimestampAfterEpochMilliseconds_def a b_def [symmetric] Let_def)
  qed
  show ?thesis
  proof (cases a b rule: linorder_cases)
    case less
    then have "(of_int a :: rat) + 1 \<le> of_int b" by linarith
    with less fr mr show ?thesis unfolding after inst lim by simp
  next
    case equal
    then show ?thesis unfolding after inst lim by simp
  next
    case greater
    then have "(of_int b :: rat) + 1 \<le> of_int a" by linarith
    with greater fr mr show ?thesis unfolding after inst lim by simp
  qed
qed

subsection \<open>Canonical texts\<close>

lemma reparse_canonical:
  assumes wf: "wf_timestamp ts" and yr: "four_digit_year (wholeSecondMs ts)"
  shows "parseCanonicalTimestamp (canonical ts) =
    Inr (ts\<lparr>fraction := formatCanonicalFraction (fraction ts)\<rparr>)"
proof -
  let ?w = "wholeSecondMs ts" and ?F = "formatCanonicalFraction (fraction ts)"
  have w: "?w mod 1000 = 0" and dig: "all_digits (fraction ts)"
    and can: "canonical ts = drop_zero_millis (toISOString ?w) @ js ''.'' @ ?F @ js ''Z''"
    using wf by (auto simp: wf_timestamp_def)
  have base: "drop_zero_millis (toISOString ?w) = dt_text (dt_of ?w)"
    using toISOString_whole_second [OF yr w] .
  have "?F \<noteq> []" using length_format [of "fraction ts"] by auto
  then have "timestamp_pattern (canonical ts) = Some (dt_of ?w, Some ?F, ZoneZ)"
    using dig by (simp add: can base timestamp_pattern_fraction_Z all_digits_format)
  moreover have "parse_general (dt_of ?w) (Some ?F) ZoneZ = Inr (ts\<lparr>fraction := ?F\<rparr>)"
    using dt_of_values [OF yr] w dig can
    by (cases ts) (simp add: parse_general_def format_idem Let_def)
  ultimately show ?thesis by (simp add: parse_general_path)
qed

lemma match_date_time_sign: "x = cu CHR ''-'' \<or> x = cu CHR ''+'' \<Longrightarrow> match_date_time (x # s) = None"
  by (auto simp: match_date_time_def take_digits_def)

lemma show_year_sign:
  "\<not> (0 \<le> y \<and> y \<le> 9999) \<Longrightarrow> \<exists>x r. show_year y = x # r \<and> (x = cu CHR ''-'' \<or> x = cu CHR ''+'')"
  by (auto simp: show_year_def)

lemma drop_zero_millis_cases: "\<exists>r. s = drop_zero_millis s @ r \<and> length r \<le> 5"
proof (cases "drop (length s - 5) s = js ''.000Z''")
  case True
  have "s = drop_zero_millis s @ drop (length s - 5) s"
    unfolding drop_zero_millis_def if_P [OF True] by (rule append_take_drop_id [symmetric])
  then show ?thesis by (intro exI [of _ "drop (length s - 5) s"]) auto
qed (simp add: drop_zero_millis_def)

lemma reparse_extended_year:
  assumes wf: "wf_timestamp ts" and yr: "\<not> four_digit_year (wholeSecondMs ts)"
  shows "parseCanonicalTimestamp (canonical ts) = Inl Grammar"
proof -
  obtain x r where x: "toISOString (wholeSecondMs ts) = x # r" "x = cu CHR ''-'' \<or> x = cu CHR ''+''"
    and len: "6 \<le> length (x # r)"
  proof -
    obtain y m d where civ: "civil_of_day (wholeSecondMs ts div ms_per_day) = (y, m, d)"
      by (metis prod_cases3)
    with yr obtain x r where "show_year y = x # r" "x = cu CHR ''-'' \<or> x = cu CHR ''+''"
      using show_year_sign [of y] by (auto simp: four_digit_year_def year_of_def)
    then show thesis
      by (intro that [of x]) (auto simp: toISOString_def iso_date_def iso_clock_def civ)
  qed
  obtain q where "x # r = drop_zero_millis (x # r) @ q" "length q \<le> 5"
    using drop_zero_millis_cases by blast
  with len obtain r' where "drop_zero_millis (x # r) = x # r'"
    by (cases "drop_zero_millis (x # r)") auto
  then have "match_date_time (canonical ts) = None"
    using wf x by (simp add: wf_timestamp_def match_date_time_sign)
  then show ?thesis
    by (simp add: parseCanonicalTimestamp_def timestamp_pattern_def canonical_millisecond_pattern_def)
qed

lemma instant_eq_iff:
  assumes "wf_timestamp l" "wf_timestamp r"
  shows "instant l = instant r \<longleftrightarrow>
    wholeSecondMs l = wholeSecondMs r \<and> frac_val (fraction l) = frac_val (fraction r)"
proof
  assume eq: "instant l = instant r"
  define a b where "a = wholeSecondMs l div 1000" and "b = wholeSecondMs r div 1000"
  have ab: "wholeSecondMs l = a * 1000" "wholeSecondMs r = b * 1000"
    using assms whole_second_split by (simp_all add: a_def b_def)
  have fr: "0 \<le> frac_val (fraction l)" "frac_val (fraction l) < 1"
    "0 \<le> frac_val (fraction r)" "frac_val (fraction r) < 1"
    using assms frac_val_bounds by (auto simp: wf_timestamp_def)
  have "(of_int a :: rat) + frac_val (fraction l) = of_int b + frac_val (fraction r)"
    using eq by (simp add: instant_def ab)
  with fr have "(of_int a :: rat) < of_int b + 1" "(of_int b :: rat) < of_int a + 1" by linarith+
  then have "a = b" by linarith
  with eq ab show "wholeSecondMs l = wholeSecondMs r \<and> frac_val (fraction l) = frac_val (fraction r)"
    by (simp add: instant_def)
qed (simp add: instant_def)

lemma canonical_eq_iff:
  assumes l: "wf_timestamp l" and r: "wf_timestamp r" and yr: "four_digit_year (wholeSecondMs l)"
  shows "canonical l = canonical r \<longleftrightarrow> instant l = instant r"
proof
  assume eq: "canonical l = canonical r"
  have pl: "parseCanonicalTimestamp (canonical l) = Inr (l\<lparr>fraction := formatCanonicalFraction (fraction l)\<rparr>)"
    by (rule reparse_canonical [OF l yr])
  then have "four_digit_year (wholeSecondMs r)"
    using reparse_extended_year [OF r] eq by auto
  from reparse_canonical [OF r this] pl eq
  have same: "l\<lparr>fraction := formatCanonicalFraction (fraction l)\<rparr> = r\<lparr>fraction := formatCanonicalFraction (fraction r)\<rparr>"
    by simp
  then have "wholeSecondMs l = wholeSecondMs r"
    "formatCanonicalFraction (fraction l) = formatCanonicalFraction (fraction r)"
    by (cases l; cases r; simp)+
  then show "instant l = instant r"
    using l r by (simp add: instant_eq_iff format_eq_iff wf_timestamp_def)
next
  assume "instant l = instant r"
  then show "canonical l = canonical r"
    using l r by (auto simp: instant_eq_iff wf_timestamp_def simp flip: format_eq_iff)
qed

text \<open>The canonical texts of one hour, which the examples use.\<close>

definition example_time :: "string \<Rightarrow> string \<Rightarrow> string" where
  "example_time mm ss = ''2026-08-13T12:'' @ mm @ '':'' @ ss @ ''.000Z''"

lemma example_time_parses:
  assumes "length mm = 2" "length ss = 2" "all_digits (js mm)" "all_digits (js ss)"
    "num (js mm) < 60" "num (js ss) < 60"
  shows "parseCanonicalTimestamp (js (example_time mm ss)) =
    Inr \<lparr>canonical = js (example_time mm ss),
         wholeSecondMs = 1786622400000 + num (js mm) * 60000 + num (js ss) * 1000, fraction = js ''000''\<rparr>"
proof -
  let ?dt = "\<lparr>t_year = js ''2026'', t_month = js ''08'', t_day = js ''13'', t_hour = js ''12'',
      t_minute = js mm, t_second = js ss\<rparr>"
  have v: "js (example_time mm ss) = dt_text ?dt @ js ''.'' @ js ''000'' @ js ''Z''"
    by (simp add: example_time_def dt_text_def js_def)
  have n: "num (js ''2026'') = 2026" "num (js ''08'') = 8" "num (js ''13'') = 13" "num (js ''12'') = 12"
    by (simp_all add: num_def read_dec_def js_def cu_def digit_val_def)
  have wf: "wf_dt ?dt" "length (js ''000'') = 3" "all_digits (js ''000'')"
    using assms by (simp_all add: wf_dt_def js_def cu_def is_digit_def)
  have ok: "components_ok ?dt"
    using assms num_nonneg [of "js mm"] num_nonneg [of "js ss"]
    by (simp add: components_ok_def n daysInMonth_def)
  have "time_value ?dt = 1786622400000 + num (js mm) * 60000 + num (js ss) * 1000"
  proof -
    have "make_day 2026 8 13 = 20678" by code_simp
    then show ?thesis by (simp add: time_value_def n make_time_def)
  qed
  moreover have "canonical_millisecond_pattern (js (example_time mm ss)) = Some (?dt, js ''000'')"
    using wf v by (simp add: canonical_millisecond_pattern_iff)
  ultimately show ?thesis
    using fast_path_ok [OF wf ok] by (simp add: parseCanonicalTimestamp_def v)
qed

subsection \<open>Properties\<close>

text \<open>
  C3. The fast path for texts already in the canonical millisecond shape is an optimisation
  only: on every text \<open>parseCanonicalTimestamp\<close> returns what its general path returns, the
  same failure kind or the same canonical text, second and fraction.
\<close>

theorem timestamp_fast_path_equivalent:
  "parseCanonicalTimestamp v =
     (case timestamp_pattern v of
        None \<Rightarrow> Inl Grammar
      | Some (dt, fo, z) \<Rightarrow> parse_general dt fo z)"
  by (rule parse_general_path)

text \<open>
  C38. \<open>compareParsedTimestamps\<close> orders accepted timestamps by the exact instants they denote,
  for any offsets and any number of fraction digits: it returns the sign of the difference.
\<close>

theorem compare_orders_instants:
  assumes "parseCanonicalTimestamp v = Inr l" "parseCanonicalTimestamp w = Inr r"
  shows "of_int (compareParsedTimestamps l r) = sgn (instant l - instant r)"
  using assms by (intro compare_sgn parse_wf)

theorem compare_orders_instants_witness:
  "compareParsedTimestamps
     \<lparr>canonical = js ''2026-08-13T12:00:00.125Z'', wholeSecondMs = 1786622400000, fraction = js ''125''\<rparr>
     \<lparr>canonical = js ''2026-08-13T12:00:00.12Z'', wholeSecondMs = 1786622400000, fraction = js ''12''\<rparr> = 1"
proof -
  let ?l = "\<lparr>canonical = js ''2026-08-13T12:00:00.125Z'', wholeSecondMs = 1786622400000, fraction = js ''125''\<rparr>"
  let ?r = "\<lparr>canonical = js ''2026-08-13T12:00:00.120Z'', wholeSecondMs = 1786622400000, fraction = js ''12''\<rparr>"
  have l: "parseCanonicalTimestamp (js ''2026-08-13T12:00:00.125Z'') = Inr ?l" by code_simp
  have r: "parseCanonicalTimestamp (js ''2026-08-13T14:00:00.12+02:00'') = Inr ?r" by code_simp
  have "read_dec (js ''125'') = 125" "read_dec (js ''12'') = 12" by code_simp+
  then have "instant ?l - instant ?r > 0" by (simp add: instant_def frac_val_def)
  with compare_orders_instants [OF l r] have "(of_int (compareParsedTimestamps ?l ?r) :: rat) = 1"
    by simp
  then show ?thesis by (simp add: compareParsedTimestamps_def)
qed

text \<open>
  \<open>isParsedTimestampAfterEpochMilliseconds\<close> holds exactly when the timestamp's instant is
  strictly later than the limit, down to the last fraction digit.
\<close>

theorem after_limit_exact:
  assumes "parseCanonicalTimestamp v = Inr ts"
  shows "isParsedTimestampAfterEpochMilliseconds ts limit \<longleftrightarrow> of_int limit < instant ts * 1000"
  using assms by (intro after_limit_iff parse_wf)

theorem after_limit_exact_witness:
  "isParsedTimestampAfterEpochMilliseconds
     \<lparr>canonical = js ''2026-08-13T12:00:00.1250001Z'', wholeSecondMs = 1786622400000, fraction = js ''1250001''\<rparr>
     1786622400125"
proof -
  have "parseCanonicalTimestamp (js ''2026-08-13T12:00:00.1250001Z'') =
      Inr \<lparr>canonical = js ''2026-08-13T12:00:00.1250001Z'', wholeSecondMs = 1786622400000, fraction = js ''1250001''\<rparr>"
    by code_simp
  moreover have "read_dec (js ''1250001'') = 1250001"
    by (simp add: read_dec_def js_def digit_val_def cu_def)
  ultimately show ?thesis
    using after_limit_exact [of "js ''2026-08-13T12:00:00.1250001Z''" _ 1786622400125]
    by (simp add: instant_def frac_val_def)
qed

text \<open>
  The canonical text of an accepted timestamp whose UTC year has four digits is a fixed
  point: parsing it again succeeds and gives the same canonical text, second and instant.
\<close>

theorem canonical_reparses:
  assumes "parseCanonicalTimestamp v = Inr ts" "four_digit_year (wholeSecondMs ts)"
  shows "\<exists>ts'. parseCanonicalTimestamp (canonical ts) = Inr ts' \<and> canonical ts' = canonical ts \<and>
    wholeSecondMs ts' = wholeSecondMs ts \<and> instant ts' = instant ts"
  using reparse_canonical [OF parse_wf [OF assms(1)] assms(2)] by (simp add: instant_def)

theorem canonical_reparses_witness:
  "\<exists>ts'. parseCanonicalTimestamp (js ''2026-08-13T09:30:00.12345Z'') = Inr ts' \<and>
     wholeSecondMs ts' = 1786613400000"
proof -
  have "parseCanonicalTimestamp (js ''2026-08-13T12:00:00.1234500+02:30'') =
      Inr \<lparr>canonical = js ''2026-08-13T09:30:00.12345Z'', wholeSecondMs = 1786613400000, fraction = js ''1234500''\<rparr>"
    by code_simp
  moreover have "four_digit_year 1786613400000" by code_simp
  ultimately show ?thesis using canonical_reparses by fastforce
qed

text \<open>
  Canonical texts identify instants: two accepted timestamps, one of them in the years 0
  to 9999, have the same canonical text exactly when they denote the same instant, so offset
  and trailing zeros of the input leave no trace.
\<close>

theorem canonical_text_identifies_instant:
  assumes "parseCanonicalTimestamp v = Inr l" "parseCanonicalTimestamp w = Inr r"
    and "four_digit_year (wholeSecondMs l)"
  shows "canonical l = canonical r \<longleftrightarrow> instant l = instant r"
  using assms by (intro canonical_eq_iff parse_wf)

theorem canonical_text_identifies_instant_witness:
  "\<exists>l r. parseCanonicalTimestamp (js ''2026-08-13T12:00:00Z'') = Inr l \<and>
     parseCanonicalTimestamp (js ''2026-08-13T13:00:00.0000+01:00'') = Inr r \<and> instant l = instant r"
proof -
  let ?l = "\<lparr>canonical = js ''2026-08-13T12:00:00.000Z'', wholeSecondMs = 1786622400000, fraction = []\<rparr>"
  let ?r = "\<lparr>canonical = js ''2026-08-13T12:00:00.000Z'', wholeSecondMs = 1786622400000, fraction = js ''0000''\<rparr>"
  have l: "parseCanonicalTimestamp (js ''2026-08-13T12:00:00Z'') = Inr ?l" by code_simp
  have r: "parseCanonicalTimestamp (js ''2026-08-13T13:00:00.0000+01:00'') = Inr ?r" by code_simp
  have "four_digit_year (wholeSecondMs ?l)" by code_simp
  from canonical_text_identifies_instant [OF l r this] l r show ?thesis by auto
qed

end
