(* ===== verification/JsNumber.thy ===== *)
theory JsNumber
  imports JsValues
begin

section \<open>Numbers as text\<close>

text \<open>
  \<open>Number::toString\<close> and the reading of a decimal literal as a double, as ECMAScript defines
  them: a literal denotes the double nearest to its exact value, ties to even, and a double
  prints as the shortest digit string that reads back as itself.
\<close>

subsection \<open>Rounding to a double\<close>

function int_bits :: "int \<Rightarrow> int" where
  "int_bits n = (if n \<le> 0 then 0 else 1 + int_bits (n div 2))"
  by pat_completeness auto
termination
  by (relation "measure nat") auto

declare int_bits.simps [simp del]

definition pow2 :: "int \<Rightarrow> rat" where
  "pow2 e = (if 0 \<le> e then 2 ^ nat e else 1 / 2 ^ nat (- e))"

definition pow10 :: "int \<Rightarrow> rat" where
  "pow10 e = (if 0 \<le> e then 10 ^ nat e else 1 / 10 ^ nat (- e))"

text \<open>The exponent \<open>e\<close> with \<open>2 ^ e \<le> r < 2 ^ (e + 1)\<close>, for positive \<open>r\<close>.\<close>

definition floor_log2 :: "rat \<Rightarrow> int" where
  "floor_log2 r =
     (let (n, d) = quotient_of r; e = int_bits n - int_bits d in if r < pow2 e then e - 1 else e)"

definition round_half_even :: "rat \<Rightarrow> int" where
  "round_half_even r =
     (let f = \<lfloor>r\<rfloor>; d = r - of_int f
      in if d < 1 / 2 then f else if 1 / 2 < d then f + 1 else if even f then f else f + 1)"

definition round_double :: "rat \<Rightarrow> rat" where
  "round_double r =
     (if r = 0 then 0
      else let u = pow2 (max (floor_log2 r) (- 1022) - 52) in of_int (round_half_even (r / u)) * u)"

text \<open>The number a literal with a sign and an exact magnitude denotes.\<close>

definition number_of_decimal :: "bool \<Rightarrow> rat \<Rightarrow> jsnum" where
  "number_of_decimal neg r =
     (let d = round_double r
      in if pow2 1024 \<le> d then (if neg then JNegInf else JPosInf)
         else if d = 0 then (if neg then JNegZero else JFin 0)
         else JFin (if neg then - d else d))"

subsection \<open>\<open>Number::toString\<close>\<close>

text \<open>The \<open>n\<close> with \<open>10 ^ (n - 1) \<le> r < 10 ^ n\<close>; doubles lie within \<open>10 ^ 400\<close> of 1 both ways.\<close>

fun decimal_exponent :: "nat \<Rightarrow> rat \<Rightarrow> int" where
  "decimal_exponent 0 r = 1"
| "decimal_exponent (Suc fuel) r =
     (if 10 \<le> r then decimal_exponent fuel (r / 10) + 1
      else if r < 1 then decimal_exponent fuel (r * 10) - 1 else 1)"

text \<open>The shortest digits \<open>s\<close> and exponent \<open>n\<close>: 17 digits always suffice for a double.\<close>

fun shortest_digits :: "nat \<Rightarrow> int \<Rightarrow> int \<Rightarrow> rat \<Rightarrow> int \<times> int" where
  "shortest_digits 0 k n r = (round_half_even (r * pow10 (17 - n)), n)"
| "shortest_digits (Suc fuel) k n r =
     (let s = round_half_even (r * pow10 (k - n))
      in if round_double (of_int s * pow10 (n - k)) = r
         then (if of_int s = pow10 k then (1, n + 1) else (s, n))
         else shortest_digits fuel (k + 1) n r)"

definition show_positive :: "rat \<Rightarrow> jsstr" where
  "show_positive r =
     (let (s, n) = shortest_digits 16 1 (decimal_exponent 400 r) r;
          ds = show_pos s; k = int (length ds); zero = cu CHR ''0''
      in if k \<le> n \<and> n \<le> 21 then ds @ replicate (nat (n - k)) zero
         else if 0 < n \<and> n \<le> 21 then take (nat n) ds @ js ''.'' @ drop (nat n) ds
         else if - 6 < n \<and> n \<le> 0 then js ''0.'' @ replicate (nat (- n)) zero @ ds
         else take 1 ds @ (if k = 1 then [] else js ''.'' @ drop 1 ds) @
           (if 0 < n then js ''e+'' else js ''e-'') @ show_nat (nat \<bar>n - 1\<bar>))"

text \<open>\<open>String(n)\<close>, and \<open>JSON.stringify(n)\<close>, which prints \<open>null\<close> for what is not finite.\<close>

fun number_to_string :: "jsnum \<Rightarrow> jsstr" where
  "number_to_string JNaN = js ''NaN''"
| "number_to_string JPosInf = js ''Infinity''"
| "number_to_string JNegInf = js ''-Infinity''"
| "number_to_string JNegZero = js ''0''"
| "number_to_string (JFin r) =
     (if r = 0 then js ''0'' else if r < 0 then js ''-'' @ show_positive (- r) else show_positive r)"

definition json_number :: "jsnum \<Rightarrow> jsstr" where
  "json_number n = (if is_finite_num n then number_to_string n else js ''null'')"

end
