(* ===== verification/Json.thy ===== *)
theory Json
  imports JsNumber
begin

section \<open>\<open>JSON.stringify\<close> and \<open>JSON.parse\<close>\<close>

text \<open>
  The two functions as ECMAScript defines them, over UTF-16 code units: quoting with the short
  escapes, \<open>\u00xx\<close> for the other control characters and lone surrogates escaped; the parser
  is the JSON grammar, later duplicates of a key winning, with one unit of fuel per code unit.
  \<open>toJSON\<close> methods and replacers, which the program does not use, are left out.
\<close>

subsection \<open>Quoting\<close>

definition hex_digit :: "nat \<Rightarrow> code_unit" where
  "hex_digit d = (if d < 10 then of_nat (48 + d) else of_nat (87 + d))"

definition unicode_escape :: "code_unit \<Rightarrow> jsstr" where
  "unicode_escape c =
     (let n = unat c
      in js [CHR 0x5C, CHR ''u''] @
        [hex_digit (n div 4096), hex_digit (n div 256 mod 16), hex_digit (n div 16 mod 16),
         hex_digit (n mod 16)])"

definition is_high_surrogate :: "code_unit \<Rightarrow> bool" where
  "is_high_surrogate c \<longleftrightarrow> 0xD800 \<le> c \<and> c \<le> 0xDBFF"

definition is_low_surrogate :: "code_unit \<Rightarrow> bool" where
  "is_low_surrogate c \<longleftrightarrow> 0xDC00 \<le> c \<and> c \<le> 0xDFFF"

definition escape_unit :: "code_unit \<Rightarrow> jsstr" where
  "escape_unit c =
     (if c = 8 then js [CHR 0x5C, CHR ''b''] else if c = 9 then js [CHR 0x5C, CHR ''t'']
      else if c = 10 then js [CHR 0x5C, CHR ''n''] else if c = 12 then js [CHR 0x5C, CHR ''f'']
      else if c = 13 then js [CHR 0x5C, CHR ''r''] else if c = 34 then js [CHR 0x5C, CHR 0x22]
      else if c = 92 then js [CHR 0x5C, CHR 0x5C]
      else if c < 32 then unicode_escape c else [c])"

fun quote_body :: "jsstr \<Rightarrow> jsstr" where
  "quote_body [] = []"
| "quote_body (c # s) =
     (if is_high_surrogate c then
        (case s of
           d # s' \<Rightarrow>
             if is_low_surrogate d then c # d # quote_body s'
             else unicode_escape c @ quote_body s
         | [] \<Rightarrow> unicode_escape c)
      else if is_low_surrogate c then unicode_escape c @ quote_body s
      else escape_unit c @ quote_body s)"

definition json_quote :: "jsstr \<Rightarrow> jsstr" where
  "json_quote s = js [CHR 0x22] @ quote_body s @ js [CHR 0x22]"

fun intersperse_join :: "jsstr \<Rightarrow> jsstr list \<Rightarrow> jsstr" where
  "intersperse_join sep [] = []"
| "intersperse_join sep [s] = s"
| "intersperse_join sep (s # t # ss) = s @ sep @ intersperse_join sep (t # ss)"

text \<open>
  \<open>JSON.stringify(value)\<close>: \<open>None\<close> where it returns \<open>undefined\<close>. Inside an array such a value
  prints \<open>null\<close>, inside an object its property is left out; only enumerable own properties print.
\<close>

fun stringify :: "jsval \<Rightarrow> jsstr option"
and stringify_prop :: "jsprop \<Rightarrow> jsstr option" where
  "stringify JUndef = None"
| "stringify JNull = Some (js ''null'')"
| "stringify (JBool b) = Some (if b then js ''true'' else js ''false'')"
| "stringify (JNum n) = Some (json_number n)"
| "stringify (JStr s) = Some (json_quote s)"
| "stringify (JArr vs) =
     Some (js ''['' @ intersperse_join (js '','')
       (map (\<lambda>v. case stringify v of None \<Rightarrow> js ''null'' | Some t \<Rightarrow> t) vs) @ js '']'')"
| "stringify (JObj c ps) =
     Some (js ''{'' @ intersperse_join (js '','')
       (concat (map (\<lambda>(k, p). case stringify_prop p of None \<Rightarrow> []
          | Some t \<Rightarrow> [json_quote k @ js '':'' @ t]) ps)) @ js ''}'')"
| "stringify (JFun i) = None"
| "stringify (JOpaque i) = None"
| "stringify_prop (DataProp v e) = (if e then stringify v else None)"
| "stringify_prop (AccProp v e) = (if e then stringify v else None)"

subsection \<open>Parsing\<close>

definition is_json_space :: "code_unit \<Rightarrow> bool" where
  "is_json_space c \<longleftrightarrow> c = 32 \<or> c = 9 \<or> c = 10 \<or> c = 13"

definition skip_space :: "jsstr \<Rightarrow> jsstr" where
  "skip_space s = dropWhile is_json_space s"

definition hex_value :: "code_unit \<Rightarrow> nat option" where
  "hex_value c =
     (let n = unat c
      in if 48 \<le> n \<and> n \<le> 57 then Some (n - 48)
         else if 97 \<le> n \<and> n \<le> 102 then Some (n - 87)
         else if 65 \<le> n \<and> n \<le> 70 then Some (n - 55) else None)"

definition read_hex4 :: "jsstr \<Rightarrow> (code_unit \<times> jsstr) option" where
  "read_hex4 s =
     (case s of
        a # b # c # d # r \<Rightarrow>
          (case (hex_value a, hex_value b, hex_value c, hex_value d) of
             (Some a, Some b, Some c, Some d) \<Rightarrow>
               Some (of_nat (a * 4096 + b * 256 + c * 16 + d), r)
           | _ \<Rightarrow> None)
      | _ \<Rightarrow> None)"

text \<open>The body of a string literal, after its opening quote.\<close>

fun parse_string_body :: "nat \<Rightarrow> jsstr \<Rightarrow> (jsstr \<times> jsstr) option" where
  "parse_string_body 0 s = None"
| "parse_string_body (Suc fuel) s =
     (case s of
        [] \<Rightarrow> None
      | c # r \<Rightarrow>
          if c = 34 then Some ([], r)
          else if c < 32 then None
          else if c = 92 then
            (case r of
               [] \<Rightarrow> None
             | e # r' \<Rightarrow>
                 if e = cu CHR ''u'' then
                   (case read_hex4 r' of None \<Rightarrow> None
                    | Some (u, r'') \<Rightarrow>
                        map_option (\<lambda>(t, q). (u # t, q)) (parse_string_body fuel r''))
                 else
                   (case (if e = 34 then Some 34 else if e = 92 then Some 92
                          else if e = cu CHR ''/'' then Some (cu CHR ''/'')
                          else if e = cu CHR ''b'' then Some 8 else if e = cu CHR ''f'' then Some 12
                          else if e = cu CHR ''n'' then Some 10 else if e = cu CHR ''r'' then Some 13
                          else if e = cu CHR ''t'' then Some 9 else None) of
                      None \<Rightarrow> None
                    | Some u \<Rightarrow> map_option (\<lambda>(t, q). (u # t, q)) (parse_string_body fuel r')))
          else map_option (\<lambda>(t, q). (c # t, q)) (parse_string_body fuel r))"

text \<open>\<open>-?(0|[1-9][0-9]*)(\.[0-9]+)?([eE][+-]?[0-9]+)?\<close>, and the double it denotes.\<close>

definition parse_exponent :: "jsstr \<Rightarrow> (int \<times> jsstr) option" where
  "parse_exponent s =
     (case s of
        e # r \<Rightarrow>
          if e = cu CHR ''e'' \<or> e = cu CHR ''E'' then
            (let neg = (r \<noteq> [] \<and> hd r = cu CHR ''-'');
                 r = (if r \<noteq> [] \<and> (hd r = cu CHR ''-'' \<or> hd r = cu CHR ''+'') then tl r else r);
                 ds = takeWhile is_digit r
             in if ds = [] then None
                else Some ((if neg then - 1 else 1) * int (read_dec ds), dropWhile is_digit r))
          else Some (0, s)
      | [] \<Rightarrow> Some (0, s))"

definition parse_number :: "jsstr \<Rightarrow> (jsnum \<times> jsstr) option" where
  "parse_number s =
     (let neg = (s \<noteq> [] \<and> hd s = cu CHR ''-''); s = (if neg then tl s else s);
          ip = takeWhile is_digit s; r = dropWhile is_digit s
      in if ip = [] \<or> (1 < length ip \<and> hd ip = cu CHR ''0'') then None
         else
           (let dot = (r \<noteq> [] \<and> hd r = cu CHR ''.'');
                fp = (if dot then takeWhile is_digit (tl r) else []);
                r = (if dot then dropWhile is_digit (tl r) else r)
            in if dot \<and> fp = [] then None
               else (case parse_exponent r of None \<Rightarrow> None
                 | Some (e, r) \<Rightarrow>
                     Some (number_of_decimal neg
                       ((of_nat (read_dec ip) + of_nat (read_dec fp) / 10 ^ length fp) * pow10 e), r))))"

fun parse_value :: "nat \<Rightarrow> jsstr \<Rightarrow> (jsval \<times> jsstr) option"
and parse_elements :: "nat \<Rightarrow> jsstr \<Rightarrow> (jsval list \<times> jsstr) option"
and parse_members :: "nat \<Rightarrow> (jsstr \<times> jsval) list \<Rightarrow> jsstr \<Rightarrow> ((jsstr \<times> jsval) list \<times> jsstr) option" where
  "parse_value 0 s = None"
| "parse_value (Suc fuel) s =
     (case skip_space s of
        [] \<Rightarrow> None
      | c # r \<Rightarrow>
          if c = 34 then map_option (\<lambda>(t, q). (JStr t, q)) (parse_string_body (Suc fuel) r)
          else if c = cu CHR ''['' then
            (case skip_space r of
               d # q \<Rightarrow>
                 if d = cu CHR '']'' then Some (JArr [], q)
                 else map_option (\<lambda>(vs, q). (JArr vs, q)) (parse_elements fuel r)
             | [] \<Rightarrow> None)
          else if c = cu CHR ''{'' then
            (case skip_space r of
               d # q \<Rightarrow>
                 if d = cu CHR ''}'' then Some (plain [], q)
                 else map_option (\<lambda>(kvs, q). (plain kvs, q)) (parse_members fuel [] r)
             | [] \<Rightarrow> None)
          else if starts_with (js ''null'') (c # r) then Some (JNull, drop 4 (c # r))
          else if starts_with (js ''true'') (c # r) then Some (JBool True, drop 4 (c # r))
          else if starts_with (js ''false'') (c # r) then Some (JBool False, drop 5 (c # r))
          else map_option (\<lambda>(n, q). (JNum n, q)) (parse_number (c # r)))"
| "parse_elements 0 s = None"
| "parse_elements (Suc fuel) s =
     (case parse_value fuel s of
        None \<Rightarrow> None
      | Some (v, r) \<Rightarrow>
          (case skip_space r of
             d # q \<Rightarrow>
               if d = cu CHR '','' then map_option (\<lambda>(vs, q). (v # vs, q)) (parse_elements fuel q)
               else if d = cu CHR '']'' then Some ([v], q) else None
           | [] \<Rightarrow> None))"
| "parse_members 0 kvs s = None"
| "parse_members (Suc fuel) kvs s =
     (case skip_space s of
        [] \<Rightarrow> None
      | c # r \<Rightarrow>
          if c \<noteq> 34 then None
          else (case parse_string_body (Suc fuel) r of
             None \<Rightarrow> None
           | Some (k, r) \<Rightarrow>
               (case skip_space r of
                  [] \<Rightarrow> None
                | d # r \<Rightarrow>
                    if d \<noteq> cu CHR '':'' then None
                    else (case parse_value fuel r of
                       None \<Rightarrow> None
                     | Some (v, r) \<Rightarrow>
                         (case skip_space r of
                            [] \<Rightarrow> None
                          | d # q \<Rightarrow>
                              if d = cu CHR '','' then parse_members fuel (assign_key kvs k v) q
                              else if d = cu CHR ''}'' then Some (assign_key kvs k v, q)
                              else None)))))"

definition json_parse :: "jsstr \<Rightarrow> jsval option" where
  "json_parse s =
     (case parse_value (2 * length s + 2) s of
        Some (v, r) \<Rightarrow> if skip_space r = [] then Some v else None
      | None \<Rightarrow> None)"

end
