(* ===== verification/Errors.thy ===== *)
theory Errors
  imports JsValues
begin

section \<open>Errors\<close>

text \<open>
  The error classes of the program as one type, the classification of database driver errors
  (\<open>src/database/database-errors.ts\<close>), the migration error messages
  (\<open>src/database/migrations/migration-errors.ts\<close>), and the mapping of any thrown value to an
  HTTP response (\<open>src/shared/app-error.ts\<close>, \<open>src/shared/error-handler.ts\<close>).
\<close>

subsection \<open>The classes\<close>

datatype migration_error =
    InvalidMigrationFilenameError
  | DuplicateMigrationVersionError int
  | InvalidMigrationContentsError int
  | MigrationFileReadError
  | MigrationConnectionError
  | MigrationOwnerStartupTimeoutError
  | MigrationLockError
  | MigrationLockTimeoutError
  | MigrationInfrastructureError
  | MigrationHistoryReadError
  | MissingLocalMigrationError int
  | MigrationFilenameMismatchError int
  | MigrationChecksumMismatchError int
  | MigrationExecutionError int

fun migration_error_message :: "migration_error \<Rightarrow> jsstr" where
  "migration_error_message InvalidMigrationFilenameError =
     js ''Migration directory contains an invalid filename.''"
| "migration_error_message (DuplicateMigrationVersionError version) =
     js ''Migration version '' @ show_int version @ js '' is duplicated.''"
| "migration_error_message (InvalidMigrationContentsError version) =
     js ''Migration version '' @ show_int version @ js '' contains disallowed transaction control.''"
| "migration_error_message MigrationFileReadError =
     js ''Migration files could not be read safely.''"
| "migration_error_message MigrationConnectionError =
     js ''The migration database connection failed.''"
| "migration_error_message MigrationOwnerStartupTimeoutError =
     js ''The migration database did not become ready before the startup deadline.''"
| "migration_error_message MigrationLockError = js ''The migration lock operation failed.''"
| "migration_error_message MigrationLockTimeoutError =
     js ''The migration lock was unavailable before the startup deadline.''"
| "migration_error_message MigrationInfrastructureError =
     js ''Migration history infrastructure could not be initialized.''"
| "migration_error_message MigrationHistoryReadError =
     js ''Migration history could not be validated.''"
| "migration_error_message (MissingLocalMigrationError version) =
     js ''Applied migration version '' @ show_int version @ js '' is missing locally.''"
| "migration_error_message (MigrationFilenameMismatchError version) =
     js ''Applied migration version '' @ show_int version @ js '' has a filename mismatch.''"
| "migration_error_message (MigrationChecksumMismatchError version) =
     js ''Applied migration version '' @ show_int version @ js '' has a checksum mismatch.''"
| "migration_error_message (MigrationExecutionError version) =
     js ''Migration version '' @ show_int version @ js '' could not be applied.''"

text \<open>
  Everything the program throws or passes on: its own classes, a plain \<open>Error\<close> or a built-in
  subclass with a message, and \<open>Foreign v\<close>, a value thrown by code outside the program.
\<close>

datatype throw =
    BadRequestError jsstr
  | TransientServiceError
  | InternalDatabaseError
  | InvalidPartitionPlanError
  | PartitionPreparationError
  | PartitionLockTimeoutError
  | MigrationError migration_error
  | DatabaseStartupTimeoutError
  | RuntimeDatabaseVerificationError
  | RetentionServiceConfigurationError
  | ShutdownTimeoutError int
  | ErrorMessage jsstr
  | Foreign jsval

text \<open>\<open>instanceof AppError\<close>, \<open>instanceof PartitionPreparationError\<close>, \<open>instanceof Error\<close>.\<close>

fun is_app_error :: "throw \<Rightarrow> bool" where
  "is_app_error (BadRequestError m) = True"
| "is_app_error TransientServiceError = True"
| "is_app_error _ = False"

fun is_partition_preparation_error :: "throw \<Rightarrow> bool" where
  "is_partition_preparation_error PartitionPreparationError = True"
| "is_partition_preparation_error PartitionLockTimeoutError = True"
| "is_partition_preparation_error _ = False"

fun is_migration_error :: "throw \<Rightarrow> bool" where
  "is_migration_error (MigrationError e) = True"
| "is_migration_error _ = False"

fun isErrorInstance :: "jsval \<Rightarrow> bool" where
  "isErrorInstance (JObj ErrorObject ps) = True"
| "isErrorInstance (JObj AggregateErrorObject ps) = True"
| "isErrorInstance _ = False"

fun is_error :: "throw \<Rightarrow> bool" where
  "is_error (Foreign v) = isErrorInstance v"
| "is_error _ = True"

definition publicMessage :: "throw \<Rightarrow> jsstr" where
  "publicMessage e =
     (case e of BadRequestError m \<Rightarrow> m
      | TransientServiceError \<Rightarrow> js ''Service temporarily unavailable.''
      | _ \<Rightarrow> [])"

definition appStatusCode :: "throw \<Rightarrow> int" where
  "appStatusCode e = (case e of TransientServiceError \<Rightarrow> 503 | _ \<Rightarrow> 400)"

definition appRetryAfterSeconds :: "throw \<Rightarrow> int option" where
  "appRetryAfterSeconds e = (case e of TransientServiceError \<Rightarrow> Some 30 | _ \<Rightarrow> None)"

fun error_message :: "throw \<Rightarrow> jsstr" where
  "error_message (BadRequestError m) = m"
| "error_message TransientServiceError = js ''Service temporarily unavailable.''"
| "error_message InternalDatabaseError = js ''Database operation failed.''"
| "error_message InvalidPartitionPlanError = js ''The UTC partition plan is invalid.''"
| "error_message PartitionPreparationError = js ''Required database partitions could not be prepared.''"
| "error_message PartitionLockTimeoutError = js ''Required database partitions could not be prepared.''"
| "error_message (MigrationError e) = migration_error_message e"
| "error_message DatabaseStartupTimeoutError =
     js ''Database did not become ready before the startup deadline.''"
| "error_message RuntimeDatabaseVerificationError =
     js ''The runtime database role or permissions are invalid.''"
| "error_message RetentionServiceConfigurationError = js ''Retention service configuration is invalid.''"
| "error_message (ShutdownTimeoutError ms) =
     js ''Application shutdown exceeded its '' @ show_int ms @ js ''ms deadline.''"
| "error_message (ErrorMessage m) = m"
| "error_message (Foreign v) = []"

text \<open>A thrown error as the value \<open>catch\<close> sees: an \<open>Error\<close> with its own \<open>message\<close>.\<close>

fun error_value :: "throw \<Rightarrow> jsval" where
  "error_value (Foreign v) = v"
| "error_value e = JObj ErrorObject [(js ''message'', DataProp (JStr (error_message e)) False)]"

subsection \<open>Database errors\<close>

definition TRANSIENT_DATABASE_CODES :: "jsstr list" where
  "TRANSIENT_DATABASE_CODES = map js
     [''08000'', ''08001'', ''08003'', ''08006'', ''08007'', ''57P01'', ''57P02'', ''57P03'',
      ''EAI_AGAIN'', ''ECONNABORTED'', ''ECONNREFUSED'', ''ECONNRESET'', ''EHOSTDOWN'',
      ''EHOSTUNREACH'', ''ENETDOWN'', ''ENETRESET'', ''ENETUNREACH'', ''ENOTFOUND'', ''EPIPE'',
      ''ETIMEDOUT'']"

definition TRANSIENT_CODELESS_DATABASE_MESSAGES :: "jsstr list" where
  "TRANSIENT_CODELESS_DATABASE_MESSAGES = map js
     [''Client has encountered a connection error and is not queryable'',
      ''Client was closed and is not queryable'',
      ''Connection terminated'',
      ''Connection terminated unexpectedly'',
      ''Connection terminated due to connection timeout'',
      ''Query read timeout'',
      ''timeout exceeded when trying to connect'',
      ''timeout expired'']"

datatype OwnStringProperty = Absent | Unsafe | Value jsstr

text \<open>A \<open>TrapProxy\<close> stands for an object whose reflection traps throw: the \<open>catch\<close> answers it.\<close>

fun reflection_throws :: "jsval \<Rightarrow> bool" where
  "reflection_throws (JObj TrapProxy ps) = True"
| "reflection_throws _ = False"

definition readOwnStringProperty :: "jsval \<Rightarrow> jsstr \<Rightarrow> OwnStringProperty" where
  "readOwnStringProperty error property =
     (if \<not> is_object_or_array error then Absent
      else if reflection_throws error then Unsafe
      else case own_descriptor error property of
          None \<Rightarrow> Absent
        | Some (DataProp (JStr s) e) \<Rightarrow> Value s
        | Some _ \<Rightarrow> Unsafe)"

definition translateDatabaseError :: "jsval \<Rightarrow> throw" where
  "translateDatabaseError error =
     (case readOwnStringProperty error (js ''code'') of
        Value code \<Rightarrow>
          if code \<in> set TRANSIENT_DATABASE_CODES then TransientServiceError else InternalDatabaseError
      | Unsafe \<Rightarrow> InternalDatabaseError
      | Absent \<Rightarrow>
          if \<not> isErrorInstance error then InternalDatabaseError
          else case readOwnStringProperty error (js ''message'') of
              Value message \<Rightarrow>
                if message \<in> set TRANSIENT_CODELESS_DATABASE_MESSAGES
                then TransientServiceError else InternalDatabaseError
            | _ \<Rightarrow> InternalDatabaseError)"

subsection \<open>HTTP error mapping\<close>

datatype classification = Application | FastifyClient | Unexpected

record MappedHttpError =
  statusCode :: int
  body_error :: jsstr
  expected :: bool
  error_class :: classification
  frameworkErrorCode :: "jsstr option"
  retryAfterSeconds :: "int option"

definition is_upper_or_digit_or_underscore :: "code_unit \<Rightarrow> bool" where
  "is_upper_or_digit_or_underscore c \<longleftrightarrow>
     (cu CHR ''A'' \<le> c \<and> c \<le> cu CHR ''Z'') \<or> is_digit c \<or> c = cu CHR ''_''"

text \<open>\<open>/^FST_[A-Z0-9_]{1,100}$/\<close>.\<close>

definition fastify_error_code_pattern :: "jsstr \<Rightarrow> bool" where
  "fastify_error_code_pattern s \<longleftrightarrow>
     starts_with (js ''FST_'') s \<and> 1 \<le> length (drop 4 s) \<and> length (drop 4 s) \<le> 100 \<and>
     list_all is_upper_or_digit_or_underscore (drop 4 s)"

text \<open>The client error Fastify itself raised, as its code and status.\<close>

definition getFastifyClientError :: "jsval \<Rightarrow> (jsstr \<times> int) option" where
  "getFastifyClientError error =
     (if \<not> is_object_or_array error then None
      else case get_prop error (js ''code'') of
          JStr code \<Rightarrow>
            if \<not> fastify_error_code_pattern code then None
            else (case get_prop error (js ''statusCode'') of
                JNum n \<Rightarrow>
                  (case num_int n of
                     Some status \<Rightarrow>
                       if status < 400 \<or> 499 < status then None else Some (code, status)
                   | None \<Rightarrow> None)
              | _ \<Rightarrow> None)
        | _ \<Rightarrow> None)"

definition mapErrorToHttp :: "throw \<Rightarrow> MappedHttpError" where
  "mapErrorToHttp error =
     (if is_app_error error then
        \<lparr>statusCode = appStatusCode error, body_error = publicMessage error, expected = True,
         error_class = Application, frameworkErrorCode = None,
         retryAfterSeconds = appRetryAfterSeconds error\<rparr>
      else case getFastifyClientError (error_value error) of
          Some (code, status) \<Rightarrow>
            if code = js ''FST_ERR_CTP_INVALID_JSON_BODY'' \<and> status = 400 then
              \<lparr>statusCode = 400, body_error = js ''Malformed JSON request body.'', expected = True,
               error_class = FastifyClient, frameworkErrorCode = Some code, retryAfterSeconds = None\<rparr>
            else
              \<lparr>statusCode = status, body_error = js ''Invalid request.'', expected = True,
               error_class = FastifyClient, frameworkErrorCode = Some code, retryAfterSeconds = None\<rparr>
        | None \<Rightarrow>
            \<lparr>statusCode = 500, body_error = js ''Internal server error.'', expected = False,
             error_class = Unexpected, frameworkErrorCode = None, retryAfterSeconds = None\<rparr>)"

text \<open>What the registered handler does: one log record, the headers, the status and the body.\<close>

datatype request_log =
    WarnRejected classification "jsstr option" int
  | ErrorUnhandled throw

record http_reply =
  reply_status :: int
  reply_headers :: "(jsstr \<times> jsstr) list"
  reply_body :: jsval

definition errorHandler :: "throw \<Rightarrow> request_log \<times> http_reply" where
  "errorHandler error =
     (let mapped = mapErrorToHttp error
      in (if expected mapped
            then WarnRejected (error_class mapped) (frameworkErrorCode mapped) (statusCode mapped)
            else ErrorUnhandled error,
          \<lparr>reply_status = statusCode mapped,
           reply_headers = (case retryAfterSeconds mapped of None \<Rightarrow> []
             | Some s \<Rightarrow> [(js ''retry-after'', show_int s)]),
           reply_body = plain [(js ''error'', JStr (body_error mapped))]\<rparr>))"

subsection \<open>Facts\<close>

lemma translate_cases:
  "translateDatabaseError v = TransientServiceError \<or> translateDatabaseError v = InternalDatabaseError"
  by (auto simp: translateDatabaseError_def split: OwnStringProperty.splits)

lemma readOwnStringProperty_message:
  "readOwnStringProperty (JObj ErrorObject [(js ''message'', DataProp (JStr m) False)]) (js ''message'') = Value m"
  by (simp add: readOwnStringProperty_def own_descriptor_def)

lemma readOwnStringProperty_no_code:
  "readOwnStringProperty (JObj ErrorObject [(js ''message'', DataProp (JStr m) False)]) (js ''code'') = Absent"
  by (simp add: readOwnStringProperty_def own_descriptor_def)

lemma getFastify_status: "getFastifyClientError v = Some (c, s) \<Longrightarrow> 400 \<le> s \<and> s \<le> 499"
  by (auto simp: getFastifyClientError_def split: if_splits jsval.splits option.splits)

subsection \<open>Properties\<close>

text \<open>
  A database error is reported as transient exactly when the driver gave it one of the
  listed connection codes as an own string property, or it is an \<open>Error\<close> with no \<open>code\<close> and one
  of the listed connection messages; anything else is the internal error.
\<close>

theorem translateDatabaseError_transient_iff:
  "translateDatabaseError v = TransientServiceError \<longleftrightarrow>
     (\<exists>c. readOwnStringProperty v (js ''code'') = Value c \<and> c \<in> set TRANSIENT_DATABASE_CODES) \<or>
     readOwnStringProperty v (js ''code'') = Absent \<and> isErrorInstance v \<and>
       (\<exists>m. readOwnStringProperty v (js ''message'') = Value m \<and>
          m \<in> set TRANSIENT_CODELESS_DATABASE_MESSAGES)"
  by (auto simp: translateDatabaseError_def split: OwnStringProperty.splits)

text \<open>
  C39. Whatever is thrown, the error handler answers with a status in 400 to 499, 500 or 503, a
  body that is one of the program's fixed texts or the message of a \<open>BadRequestError\<close>, and a
  \<open>retry-after\<close> header exactly for a transient error: no text of a foreign error reaches a client.
\<close>

theorem errorHandler_safe:
  "let r = snd (errorHandler e) in
     (reply_status r \<in> {400..499} \<union> {500, 503}) \<and>
     (\<exists>m. reply_body r = plain [(js ''error'', JStr m)] \<and>
        (e = BadRequestError m \<and> reply_status r = 400 \<or>
         m \<in> set (map js [''Service temporarily unavailable.'', ''Malformed JSON request body.'',
               ''Invalid request.'', ''Internal server error.'']))) \<and>
     (reply_headers r = (if e = TransientServiceError then [(js ''retry-after'', js ''30'')] else []))"
proof (cases "is_app_error e")
  case True
  have "show_int 30 = js ''30''"
    by (simp add: show_int_def show_pos.simps js_def cu_def digit_cu_def)
  with True show ?thesis
    by (cases e) (auto simp: errorHandler_def mapErrorToHttp_def Let_def appStatusCode_def
        publicMessage_def appRetryAfterSeconds_def)
next
  case False
  then have "e \<noteq> TransientServiceError" "\<And>m. e \<noteq> BadRequestError m" by auto
  with False show ?thesis
    by (auto simp: errorHandler_def mapErrorToHttp_def Let_def split: option.splits
        dest!: getFastify_status)
qed

end
