(* ===== verification/LogEntry.thy ===== *)
theory LogEntry
  imports TimestampFacts Json Errors
begin

section \<open>Log entries (\<open>src/domain\<close>)\<close>

text \<open>
  The data model of \<open>log-entry.ts\<close>, \<open>attributes.ts\<close> and \<open>ingestion.ts\<close>, the validator of
  \<open>log-entry-validator.ts\<close> with its checks in the code's order, and the search normalisation of
  \<open>attribute-normalizer.ts\<close>. The lemmas give the validator an order-free specification, and
  show that every entry it accepts satisfies the invariant the later stages rely on.
\<close>

subsection \<open>Data\<close>

definition LOG_LEVELS :: "jsstr list" where
  "LOG_LEVELS = map js [''debug'', ''info'', ''warn'', ''error'']"

definition isLogLevel :: "jsstr \<Rightarrow> bool" where
  "isLogLevel value \<longleftrightarrow> list_ex (\<lambda>level. level = value) LOG_LEVELS"

datatype attribute_value = AttrStr jsstr | AttrNum jsnum | AttrBool bool

type_synonym OriginalAttributes = "(jsstr \<times> attribute_value) list"
type_synonym NormalizedSearchAttributes = "(jsstr \<times> jsstr) list"

record ValidatedLogEntry =
  timestamp :: jsstr
  level :: jsstr
  service :: jsstr
  message :: jsstr
  attributes :: OriginalAttributes

record LogInsertionRecord = ValidatedLogEntry +
  log_id :: jsstr
  attributesSearch :: "NormalizedSearchAttributes option"

record RejectionItem =
  index :: nat
  reason :: jsstr

record IngestionResponse =
  accepted :: nat
  rejected :: "RejectionItem list"

subsection \<open>Validation\<close>

datatype reason_code =
    EntryObject | TimestampRequired | TimestampString | TimestampGrammar | TimestampComponents
  | TimestampFuture | LevelRequired | LevelString | LevelValue | ServiceRequired | ServiceString
  | ServiceEmpty | ServiceNul | MessageRequired | MessageString | MessageEmpty | MessageNul
  | AttributesObject | AttributeKeyNul | AttributeValueKind | AttributeStringNul

fun REASONS :: "reason_code \<Rightarrow> jsstr" where
  "REASONS EntryObject = js ''log entry must be a non-null object''"
| "REASONS TimestampRequired = js ''timestamp is required''"
| "REASONS TimestampString = js ''timestamp must be a string''"
| "REASONS TimestampGrammar = js ''timestamp must be a timezone-bearing ISO 8601 date-time''"
| "REASONS TimestampComponents = js ''timestamp contains an invalid calendar date or time''"
| "REASONS TimestampFuture = js ''timestamp must not be more than five minutes in the future''"
| "REASONS LevelRequired = js ''level is required''"
| "REASONS LevelString = js ''level must be a string''"
| "REASONS LevelValue = js ''level must be one of debug, info, warn, or error''"
| "REASONS ServiceRequired = js ''service is required''"
| "REASONS ServiceString = js ''service must be a string''"
| "REASONS ServiceEmpty = js ''service must be non-empty''"
| "REASONS ServiceNul = js ''service must not contain U+0000''"
| "REASONS MessageRequired = js ''message is required''"
| "REASONS MessageString = js ''message must be a string''"
| "REASONS MessageEmpty = js ''message must be non-empty''"
| "REASONS MessageNul = js ''message must not contain U+0000''"
| "REASONS AttributesObject = js ''attributes must be a non-null object''"
| "REASONS AttributeKeyNul = js ''attribute keys must not contain U+0000''"
| "REASONS AttributeValueKind = js ''attribute values must be strings, finite numbers, or booleans''"
| "REASONS AttributeStringNul = js ''string attribute values must not contain U+0000''"

definition FIVE_MINUTES_MS :: int where
  "FIVE_MINUTES_MS = 300000"

definition parseTimestamp :: "jsstr \<Rightarrow> reason_code + parsed_timestamp" where
  "parseTimestamp value =
     (case parseCanonicalTimestamp value of
        Inl Grammar \<Rightarrow> Inl TimestampGrammar
      | Inl Components \<Rightarrow> Inl TimestampComponents
      | Inr ts \<Rightarrow> Inr ts)"

text \<open>A value as an attribute value, when it is one: a string, a boolean or a finite number.\<close>

fun as_attribute_value :: "jsval \<Rightarrow> attribute_value option" where
  "as_attribute_value (JStr s) = Some (AttrStr s)"
| "as_attribute_value (JBool b) = Some (AttrBool b)"
| "as_attribute_value (JNum n) = (if is_finite_num n then Some (AttrNum n) else None)"
| "as_attribute_value _ = None"

definition isAttributeValue :: "jsval \<Rightarrow> bool" where
  "isAttributeValue v \<longleftrightarrow> as_attribute_value v \<noteq> None"

text \<open>The loop over \<open>Object.entries(value)\<close>, with the attributes collected so far.\<close>

fun validate_entries :: "(jsstr \<times> jsval) list \<Rightarrow> OriginalAttributes \<Rightarrow> reason_code + OriginalAttributes" where
  "validate_entries [] safeAttributes = Inr safeAttributes"
| "validate_entries ((key, attributeValue) # rest) safeAttributes =
     (if contains_nul key then Inl AttributeKeyNul
      else case as_attribute_value attributeValue of
          None \<Rightarrow> Inl AttributeValueKind
        | Some v \<Rightarrow>
            (case v of
               AttrStr s \<Rightarrow>
                 if contains_nul s then Inl AttributeStringNul
                 else validate_entries rest (assign_key safeAttributes key v)
             | _ \<Rightarrow> validate_entries rest (assign_key safeAttributes key v)))"

definition validateAttributes :: "jsval \<Rightarrow> reason_code + OriginalAttributes" where
  "validateAttributes value =
     (if \<not> is_record value then Inl AttributesObject
      else validate_entries (object_entries value) [])"

definition validateLogEntry :: "jsval \<Rightarrow> int \<Rightarrow> reason_code + ValidatedLogEntry" where
  "validateLogEntry input referenceTimeMs =
     (if \<not> is_record input then Inl EntryObject
      else if \<not> has_own input (js ''timestamp'') then Inl TimestampRequired
      else case get_prop input (js ''timestamp'') of
        JStr ts \<Rightarrow>
         (case parseTimestamp ts of Inl e \<Rightarrow> Inl e
          | Inr parsed \<Rightarrow>
            if isParsedTimestampAfterEpochMilliseconds parsed (referenceTimeMs + FIVE_MINUTES_MS)
            then Inl TimestampFuture
            else if \<not> has_own input (js ''level'') then Inl LevelRequired
            else case get_prop input (js ''level'') of
              JStr lev \<Rightarrow>
                if \<not> isLogLevel lev then Inl LevelValue
                else if \<not> has_own input (js ''service'') then Inl ServiceRequired
                else (case get_prop input (js ''service'') of
                  JStr srv \<Rightarrow>
                    if srv = [] then Inl ServiceEmpty
                    else if contains_nul srv then Inl ServiceNul
                    else if \<not> has_own input (js ''message'') then Inl MessageRequired
                    else (case get_prop input (js ''message'') of
                      JStr msg \<Rightarrow>
                        if msg = [] then Inl MessageEmpty
                        else if contains_nul msg then Inl MessageNul
                        else (case validateAttributes
                                (if has_own input (js ''attributes'')
                                 then get_prop input (js ''attributes'') else plain []) of
                            Inl e \<Rightarrow> Inl e
                          | Inr attrs \<Rightarrow>
                              Inr \<lparr>timestamp = canonical parsed, level = lev, service = srv,
                                   message = msg, attributes = attrs\<rparr>)
                    | _ \<Rightarrow> Inl MessageString)
                | _ \<Rightarrow> Inl ServiceString)
            | _ \<Rightarrow> Inl LevelString)
      | _ \<Rightarrow> Inl TimestampString)"

subsection \<open>Search normalisation\<close>

fun attribute_jsval :: "attribute_value \<Rightarrow> jsval" where
  "attribute_jsval (AttrStr s) = JStr s"
| "attribute_jsval (AttrNum n) = JNum n"
| "attribute_jsval (AttrBool b) = JBool b"

text \<open>\<open>normalizeValue\<close> on any run-time value; \<open>None\<close> is its \<open>TypeError\<close>.\<close>

fun normalizeValue :: "jsval \<Rightarrow> jsstr option" where
  "normalizeValue (JStr s) = Some s"
| "normalizeValue (JBool b) = Some (if b then js ''true'' else js ''false'')"
| "normalizeValue (JNum n) =
     (if \<not> is_finite_num n then None
      else if n = JNegZero then Some (js ''0'')
      else Some (json_number n))"
| "normalizeValue _ = None"

definition INVALID_ATTRIBUTE_VALUE_MESSAGE :: jsstr where
  "INVALID_ATTRIBUTE_VALUE_MESSAGE = js ''Original attributes contain an unsupported runtime value.''"

fun normalize_entries ::
    "OriginalAttributes \<Rightarrow> NormalizedSearchAttributes \<Rightarrow> throw + NormalizedSearchAttributes" where
  "normalize_entries [] normalized = Inr normalized"
| "normalize_entries ((key, v) # rest) normalized =
     (case normalizeValue (attribute_jsval v) of
        None \<Rightarrow> Inl (ErrorMessage INVALID_ATTRIBUTE_VALUE_MESSAGE)
      | Some s \<Rightarrow> normalize_entries rest (assign_key normalized key s))"

definition normalizeAttributes :: "OriginalAttributes \<Rightarrow> throw + NormalizedSearchAttributes" where
  "normalizeAttributes attrs = normalize_entries attrs []"

subsection \<open>The invariant of validated entries\<close>

fun wf_attribute_value :: "attribute_value \<Rightarrow> bool" where
  "wf_attribute_value (AttrStr s) = (\<not> contains_nul s)"
| "wf_attribute_value (AttrNum n) = is_finite_num n"
| "wf_attribute_value (AttrBool b) = True"

definition wf_attributes :: "OriginalAttributes \<Rightarrow> bool" where
  "wf_attributes attrs \<longleftrightarrow> distinct (map fst attrs) \<and>
     list_all (\<lambda>(k, v). \<not> contains_nul k \<and> wf_attribute_value v) attrs"

definition wf_entry :: "int \<Rightarrow> 'a ValidatedLogEntry_scheme \<Rightarrow> bool" where
  "wf_entry referenceTimeMs e \<longleftrightarrow>
     (\<exists>v ts. parseCanonicalTimestamp v = Inr ts \<and> timestamp e = canonical ts \<and>
        instant ts * 1000 \<le> of_int (referenceTimeMs + FIVE_MINUTES_MS)) \<and>
     isLogLevel (level e) \<and> service e \<noteq> [] \<and> \<not> contains_nul (service e) \<and>
     message e \<noteq> [] \<and> \<not> contains_nul (message e) \<and> wf_attributes (attributes e)"

text \<open>The attributes of an input, as the specification sees them: its entries, all accepted.\<close>

definition valid_attribute :: "jsstr \<times> jsval \<Rightarrow> bool" where
  "valid_attribute kv \<longleftrightarrow> \<not> contains_nul (fst kv) \<and>
     (case as_attribute_value (snd kv) of None \<Rightarrow> False | Some v \<Rightarrow> wf_attribute_value v)"

definition attributes_of :: "(jsstr \<times> jsval) list \<Rightarrow> OriginalAttributes" where
  "attributes_of kvs = map (\<lambda>(k, v). (k, the (as_attribute_value v))) kvs"

lemma as_attribute_value_roundtrip: "as_attribute_value v = Some a \<Longrightarrow> attribute_jsval a = v"
  by (cases v) (auto split: if_splits)

lemma as_attribute_value_finite: "as_attribute_value v = Some (AttrNum n) \<Longrightarrow> is_finite_num n"
  by (cases v) (auto split: if_splits)

lemma validate_entries_ok:
  assumes "list_all valid_attribute kvs" "distinct (map fst acc @ map fst kvs)"
  shows "validate_entries kvs acc = Inr (acc @ attributes_of kvs)"
  using assms
proof (induction kvs acc rule: validate_entries.induct)
  case (2 key v rest acc)
  then obtain a where a: "as_attribute_value v = Some a" "wf_attribute_value a" "\<not> contains_nul key"
    by (auto simp: valid_attribute_def split: option.splits)
  have "assign_key acc key a = acc @ [(key, a)]"
    using 2(5) by (intro assign_key_new) auto
  with 2 a show ?case by (cases a) (auto simp: attributes_of_def)
qed (simp add: attributes_of_def)

lemma validate_entries_reject:
  "\<not> list_all valid_attribute kvs \<Longrightarrow> \<exists>e. validate_entries kvs acc = Inl e"
  by (induction kvs acc rule: validate_entries.induct)
    (auto simp: valid_attribute_def split: option.splits attribute_value.splits
      dest: as_attribute_value_finite)

lemma validate_entries_iff:
  assumes "distinct (map fst kvs)"
  shows "validate_entries kvs [] = Inr attrs \<longleftrightarrow> list_all valid_attribute kvs \<and> attrs = attributes_of kvs"
  using validate_entries_ok [of kvs "[]"] validate_entries_reject [of kvs "[]"] assms
  by (cases "list_all valid_attribute kvs") auto

lemma wf_attributes_of:
  assumes "list_all valid_attribute kvs" "distinct (map fst kvs)"
  shows "wf_attributes (attributes_of kvs)"
proof -
  have "map fst (attributes_of kvs) = map fst kvs" by (induction kvs) (auto simp: attributes_of_def)
  moreover have "list_all (\<lambda>(k, v). \<not> contains_nul k \<and> wf_attribute_value v) (attributes_of kvs)"
    using assms(1) by (induction kvs) (auto simp: attributes_of_def valid_attribute_def split: option.splits)
  ultimately show ?thesis using assms(2) by (simp add: wf_attributes_def)
qed

subsection \<open>What the validator accepts\<close>

text \<open>An own string property that is not empty and has no NUL.\<close>

definition own_text :: "jsval \<Rightarrow> jsstr \<Rightarrow> jsstr \<Rightarrow> bool" where
  "own_text v k s \<longleftrightarrow> has_own v k \<and> get_prop v k = JStr s \<and> s \<noteq> [] \<and> \<not> contains_nul s"

definition input_attributes :: "jsval \<Rightarrow> jsval" where
  "input_attributes input =
     (if has_own input (js ''attributes'') then get_prop input (js ''attributes'') else plain [])"

text \<open>The conditions on an input and the entry it becomes, in no particular order.\<close>

definition accepts :: "jsval \<Rightarrow> int \<Rightarrow> ValidatedLogEntry \<Rightarrow> bool" where
  "accepts input referenceTimeMs e \<longleftrightarrow>
     is_record input \<and>
     (\<exists>text ts. has_own input (js ''timestamp'') \<and> get_prop input (js ''timestamp'') = JStr text \<and>
        parseCanonicalTimestamp text = Inr ts \<and> timestamp e = canonical ts \<and>
        instant ts * 1000 \<le> of_int (referenceTimeMs + 300000)) \<and>
     has_own input (js ''level'') \<and> get_prop input (js ''level'') = JStr (level e) \<and>
     level e \<in> {js ''debug'', js ''info'', js ''warn'', js ''error''} \<and>
     own_text input (js ''service'') (service e) \<and> own_text input (js ''message'') (message e) \<and>
     is_record (input_attributes input) \<and>
     (\<forall>kv \<in> set (object_entries (input_attributes input)). valid_attribute kv) \<and>
     attributes e = attributes_of (object_entries (input_attributes input))"

lemma isLogLevel_iff: "isLogLevel s \<longleftrightarrow> s \<in> {js ''debug'', js ''info'', js ''warn'', js ''error''}"
  by (auto simp: isLogLevel_def LOG_LEVELS_def)

lemma parseTimestamp_Inr: "parseTimestamp s = Inr ts \<longleftrightarrow> parseCanonicalTimestamp s = Inr ts"
  by (auto simp: parseTimestamp_def split: sum.splits parse_failure.splits)

lemma not_future_iff:
  "parseCanonicalTimestamp s = Inr ts \<Longrightarrow>
   \<not> isParsedTimestampAfterEpochMilliseconds ts limit \<longleftrightarrow> instant ts * 1000 \<le> of_int limit"
  by (simp add: after_limit_iff [OF parse_wf] not_less)

lemma validateAttributes_iff:
  assumes "wf_object v"
  shows "validateAttributes v = Inr attrs \<longleftrightarrow>
    is_record v \<and> (\<forall>kv \<in> set (object_entries v). valid_attribute kv) \<and> attrs = attributes_of (object_entries v)"
  using validate_entries_iff [OF distinct_object_entries [OF assms], of attrs]
  by (auto simp: validateAttributes_def list_all_iff)

text \<open>The checks in the code's order, each as one fact about an accepted input.\<close>

lemma validate_Inr_iff:
  "validateLogEntry input ref = Inr e \<longleftrightarrow>
     is_record input \<and>
     (\<exists>text ts. has_own input (js ''timestamp'') \<and> get_prop input (js ''timestamp'') = JStr text \<and>
        parseTimestamp text = Inr ts \<and> timestamp e = canonical ts \<and>
        \<not> isParsedTimestampAfterEpochMilliseconds ts (ref + FIVE_MINUTES_MS)) \<and>
     has_own input (js ''level'') \<and> get_prop input (js ''level'') = JStr (level e) \<and> isLogLevel (level e) \<and>
     own_text input (js ''service'') (service e) \<and> own_text input (js ''message'') (message e) \<and>
     validateAttributes (input_attributes input) = Inr (attributes e)"
    (is "?l \<longleftrightarrow> ?r")
proof
  assume ?l
  then show ?r
    by (auto simp: validateLogEntry_def own_text_def input_attributes_def
        split: if_splits jsval.splits sum.splits)
next
  assume ?r
  then show ?l
    by (cases e) (auto simp: validateLogEntry_def own_text_def input_attributes_def)
qed

lemma validate_accepts:
  assumes "wf_object (input_attributes input)"
  shows "validateLogEntry input ref = Inr e \<longleftrightarrow> accepts input ref e"
proof -
  have "parseTimestamp t = Inr ts \<and> timestamp e = canonical ts \<and>
      \<not> isParsedTimestampAfterEpochMilliseconds ts (ref + FIVE_MINUTES_MS) \<longleftrightarrow>
      parseCanonicalTimestamp t = Inr ts \<and> timestamp e = canonical ts \<and>
      instant ts * 1000 \<le> of_int (ref + 300000)" for t ts
    using not_future_iff [of t ts "ref + 300000"]
    by (simp only: parseTimestamp_Inr FIVE_MINUTES_MS_def) blast
  then show ?thesis
    unfolding validate_Inr_iff accepts_def validateAttributes_iff [OF assms] isLogLevel_iff by auto
qed

lemma accepts_wf: "wf_object (input_attributes input) \<Longrightarrow> accepts input ref e \<Longrightarrow> wf_entry ref e"
  by (auto simp: accepts_def wf_entry_def own_text_def isLogLevel_iff FIVE_MINUTES_MS_def
      intro!: wf_attributes_of distinct_object_entries simp: list_all_iff)

lemma validate_wf:
  "wf_object (input_attributes input) \<Longrightarrow> validateLogEntry input ref = Inr e \<Longrightarrow> wf_entry ref e"
  by (simp add: validate_accepts accepts_wf)

subsection \<open>Normalised attributes\<close>

text \<open>The search text of one value.\<close>

fun search_text :: "attribute_value \<Rightarrow> jsstr" where
  "search_text (AttrStr s) = s"
| "search_text (AttrBool b) = (if b then js ''true'' else js ''false'')"
| "search_text (AttrNum n) = number_to_string n"

lemma normalizeValue_wf: "wf_attribute_value v \<Longrightarrow> normalizeValue (attribute_jsval v) = Some (search_text v)"
  by (cases v) (auto simp: json_number_def)

lemma normalize_entries_wf:
  "list_all (\<lambda>(k, v). wf_attribute_value v) attrs \<Longrightarrow> distinct (map fst acc @ map fst attrs) \<Longrightarrow>
   normalize_entries attrs acc = Inr (acc @ map (\<lambda>(k, v). (k, search_text v)) attrs)"
proof (induction attrs acc rule: normalize_entries.induct)
  case (2 k v rest acc)
  then have "assign_key acc k (search_text v) = acc @ [(k, search_text v)]"
    by (intro assign_key_new) auto
  with 2 show ?case by (simp add: normalizeValue_wf)
qed simp

lemma normalizeAttributes_wf:
  "wf_attributes attrs \<Longrightarrow> normalizeAttributes attrs = Inr (map (\<lambda>(k, v). (k, search_text v)) attrs)"
  by (auto simp: normalizeAttributes_def wf_attributes_def list_all_iff intro!: normalize_entries_wf
      [where acc = "[]", simplified])

subsection \<open>Properties\<close>

text \<open>
  C2. Validation is exactly its order-free specification: an input is accepted as an entry if
  and only if it is an object whose timestamp parses and lies at most five minutes after the
  reference time, whose level is one of the four, whose service and message are non-empty
  strings without NUL, and whose attributes are flat, finite and without NUL; the accepted entry
  holds the canonical timestamp and exactly the input's attributes.
\<close>

theorem validateLogEntry_correct:
  assumes "wf_object (input_attributes input)"
  shows "validateLogEntry input referenceTimeMs = Inr e \<longleftrightarrow> accepts input referenceTimeMs e"
  using assms by (rule validate_accepts)

definition sample_input :: jsval where
  "sample_input = plain
     [(js ''timestamp'', JStr (js ''2026-08-13T14:00:00+02:00'')), (js ''level'', JStr (js ''info'')),
      (js ''service'', JStr (js ''checkout'')), (js ''message'', JStr (js ''paid'')),
      (js ''attributes'', plain [(js ''attempt'', JNum (JFin 1)), (js ''__proto__'', JStr (js ''x''))])]"

definition sample_entry :: ValidatedLogEntry where
  "sample_entry =
     \<lparr>timestamp = js ''2026-08-13T12:00:00.000Z'', level = js ''info'', service = js ''checkout'',
      message = js ''paid'',
      attributes = [(js ''attempt'', AttrNum (JFin 1)), (js ''__proto__'', AttrStr (js ''x''))]\<rparr>"

lemma sample_validates: "validateLogEntry sample_input 1786622400000 = Inr sample_entry"
  by code_simp

lemma sample_wf: "wf_object (input_attributes sample_input)"
  by code_simp

theorem validateLogEntry_correct_witness: "accepts sample_input 1786622400000 sample_entry"
  using validateLogEntry_correct [OF sample_wf] sample_validates by blast

text \<open>
  Every entry the validator accepts satisfies the invariant the later stages rely on: a
  canonical timestamp of an accepted instant that is not in the future, a known level, non-empty
  NUL-free service and message, and attributes with distinct NUL-free keys and finite values.
\<close>

theorem validated_entry_invariant:
  assumes "wf_object (input_attributes input)" "validateLogEntry input referenceTimeMs = Inr e"
  shows "wf_entry referenceTimeMs e"
  using assms by (rule validate_wf)

theorem validated_entry_invariant_witness: "wf_entry 1786622400000 sample_entry"
  using validated_entry_invariant [OF sample_wf sample_validates] .

text \<open>
  Normalising the attributes of a validated entry never throws, keeps every key in its
  place, and gives each value its text: a string itself, a boolean its name, a number its
  decimal text with negative zero as 0.
\<close>

theorem normalizeAttributes_of_validated:
  assumes "wf_object (input_attributes input)" "validateLogEntry input referenceTimeMs = Inr e"
  shows "normalizeAttributes (attributes e) = Inr (map (\<lambda>(k, v). (k, search_text v)) (attributes e))"
  using validate_wf [OF assms] by (intro normalizeAttributes_wf) (simp add: wf_entry_def)

theorem normalizeAttributes_of_validated_witness:
  "normalizeAttributes (attributes sample_entry) =
     Inr [(js ''attempt'', js ''1''), (js ''__proto__'', js ''x'')]"
  unfolding normalizeAttributes_of_validated [OF sample_wf sample_validates] by code_simp

text \<open>
  The validator accepts a timestamp whose UTC year is outside 0 to 9999 (a local year 0
  with a positive offset): the entry then carries a text that the program's own timestamp
  parser rejects as malformed.
\<close>

theorem validator_accepts_unparseable_year:
  "\<exists>input e. validateLogEntry input 1786622400000 = Inr e \<and>
     timestamp e = js ''-000001-12-31T22:00:00.000Z'' \<and>
     parseCanonicalTimestamp (timestamp e) = Inl Grammar"
proof -
  let ?in = "plain [(js ''timestamp'', JStr (js ''0000-01-01T00:00:00+02:00'')), (js ''level'', JStr (js ''info'')),
      (js ''service'', JStr (js ''a'')), (js ''message'', JStr (js ''b''))]"
  let ?e = "\<lparr>timestamp = js ''-000001-12-31T22:00:00.000Z'', level = js ''info'', service = js ''a'',
      message = js ''b'', attributes = []\<rparr>"
  have "validateLogEntry ?in 1786622400000 = Inr ?e" by code_simp
  moreover have "parseCanonicalTimestamp (js ''-000001-12-31T22:00:00.000Z'') = Inl Grammar" by code_simp
  ultimately show ?thesis by force
qed

end
