(* ===== verification/JsArray.thy ===== *)
theory JsArray
  imports JsValues "HOL-Library.Multiset"
begin

section \<open>Sorting as \<open>Array.prototype.sort\<close> does it\<close>

text \<open>
  A stable sort by a comparator that returns a number. The result is always a permutation; when
  the comparator is consistent, which is the contract the language asks of it and the locale
  \<open>consistent_comparator\<close> states, the result is ascending and equal elements keep their order.
  The comparator of the migration plan is an instance here; the code-unit order of strings is
  another.
\<close>

fun insert_with :: "('a \<Rightarrow> 'a \<Rightarrow> int) \<Rightarrow> 'a \<Rightarrow> 'a list \<Rightarrow> 'a list" where
  "insert_with cmp x [] = [x]"
| "insert_with cmp x (y # ys) = (if cmp x y \<le> 0 then x # y # ys else y # insert_with cmp x ys)"

definition sort_with :: "('a \<Rightarrow> 'a \<Rightarrow> int) \<Rightarrow> 'a list \<Rightarrow> 'a list" where
  "sort_with cmp xs = foldr (insert_with cmp) xs []"

lemma mset_insert_with [simp]: "mset (insert_with cmp x ys) = add_mset x (mset ys)"
  by (induction ys) auto

lemma set_insert_with [simp]: "set (insert_with cmp x ys) = insert x (set ys)"
  by (induction ys) auto

lemma sort_with_simps [simp]: "sort_with cmp [] = []"
  "sort_with cmp (x # xs) = insert_with cmp x (sort_with cmp xs)"
  by (simp_all add: sort_with_def)

lemma mset_sort_with [simp]: "mset (sort_with cmp xs) = mset xs"
  by (induction xs) auto

lemma set_sort_with [simp]: "set (sort_with cmp xs) = set xs"
  by (metis mset_sort_with set_mset_mset)

lemma length_sort_with [simp]: "length (sort_with cmp xs) = length xs"
  by (metis mset_sort_with size_mset)

lemma distinct_map_sort_with: "distinct (map f (sort_with cmp xs)) \<longleftrightarrow> distinct (map f xs)"
  using mset_sort_with [of cmp xs] by (metis mset_map mset_eq_imp_distinct_iff)

lemma sum_list_map_sort_with: "sum_list (map (f :: 'a \<Rightarrow> int) (sort_with cmp xs)) = sum_list (map f xs)"
  by (metis mset_sort_with mset_map sum_mset_sum_list)

locale consistent_comparator =
  fixes cmp :: "'a \<Rightarrow> 'a \<Rightarrow> int"
  assumes flip: "cmp x y \<le> 0 \<or> cmp y x \<le> 0"
    and trans: "cmp x y \<le> 0 \<Longrightarrow> cmp y z \<le> 0 \<Longrightarrow> cmp x z \<le> 0"
begin

lemma sorted_insert_with:
  "sorted_wrt (\<lambda>a b. cmp a b \<le> 0) ys \<Longrightarrow> sorted_wrt (\<lambda>a b. cmp a b \<le> 0) (insert_with cmp x ys)"
proof (induction ys)
  case (Cons y ys)
  then show ?case using flip [of x y] by (auto intro: trans)
qed simp

lemma sorted_sort_with: "sorted_wrt (\<lambda>a b. cmp a b \<le> 0) (sort_with cmp xs)"
  by (induction xs) (auto intro: sorted_insert_with)

lemma insert_with_first: "(\<And>y. y \<in> set ys \<Longrightarrow> cmp x y \<le> 0) \<Longrightarrow> insert_with cmp x ys = x # ys"
  by (cases ys) auto

lemma sort_with_sorted_id: "sorted_wrt (\<lambda>a b. cmp a b \<le> 0) xs \<Longrightarrow> sort_with cmp xs = xs"
  by (induction xs) (auto intro: insert_with_first)

lemma sorted_unique:
  assumes "sorted_wrt (\<lambda>a b. cmp a b \<le> 0) xs" "sorted_wrt (\<lambda>a b. cmp a b \<le> 0) ys" "mset xs = mset ys"
    and antisym: "\<And>a b. cmp a b \<le> 0 \<Longrightarrow> cmp b a \<le> 0 \<Longrightarrow> a = b"
  shows "xs = ys"
  using assms(1-3)
proof (induction xs arbitrary: ys)
  case (Cons x xs)
  then obtain y ys' where ys: "ys = y # ys'" by (cases ys) auto
  have "x \<in> set ys" "y \<in> set (x # xs)" using Cons.prems(3) ys by (metis list.set_intros(1) set_mset_mset)+
  moreover have "cmp x x \<le> 0" using flip [of x x] by blast
  ultimately have "x = y" using Cons.prems(1,2) ys by (auto intro: antisym)
  with Cons ys show ?case by simp
qed simp

end

text \<open>\<open>(left, right) => left - right\<close> on a numeric field.\<close>

definition compare_key :: "('a \<Rightarrow> int) \<Rightarrow> 'a \<Rightarrow> 'a \<Rightarrow> int" where
  "compare_key key l r = key l - key r"

interpretation by_key: consistent_comparator "compare_key key" for key
  by unfold_locales (auto simp: compare_key_def)

text \<open>The default order of strings, by code units.\<close>

definition compare_units :: "jsstr \<Rightarrow> jsstr \<Rightarrow> int" where
  "compare_units l r = (if l < r then - 1 else if r < l then 1 else 0)"

interpretation units: consistent_comparator compare_units
  by unfold_locales (auto simp: compare_units_def split: if_splits)

end
