(* ===== verification/DateParse.thy ===== *)
theory DateParse
  imports TimestampFacts
begin

section \<open>\<open>Date.parse\<close> on ISO texts\<close>

text \<open>
  \<open>Date.parse\<close> as the engine reads a UTC date-time text: a four-digit year or a sign and six
  digits, a fraction of any length of which the first three digits count, and the zone Z. Other
  texts, which no caller produces, are \<open>NaN\<close>. The main result is that a canonical timestamp
  parses to its instant rounded down to the millisecond.
\<close>

definition date_parse_tail :: "int \<Rightarrow> date_time_text \<Rightarrow> jsstr \<Rightarrow> int option" where
  "date_parse_tail year dt r = do {
     r \<leftarrow> expect CHR ''.'' r; (f, r) \<leftarrow> take_digits1 r; r \<leftarrow> expect CHR ''Z'' r;
     (if r = [] then
        date_parse_fields year (num (t_month dt)) (num (t_day dt)) (num (t_hour dt))
          (num (t_minute dt)) (num (t_second dt)) (num (take 3 (pad_end 3 (cu CHR ''0'') f)))
      else None)
   }"

definition date_parse :: "jsstr \<Rightarrow> int option" where
  "date_parse v =
     (case v of [] \<Rightarrow> None
      | x # r \<Rightarrow>
          if x = cu CHR ''-'' \<or> x = cu CHR ''+'' then do {
            (century, r) \<leftarrow> take_digits 2 r; (dt, r) \<leftarrow> match_date_time r;
            (let year = num century * 10000 + num (t_year dt)
             in if x = cu CHR ''-'' \<and> year = 0 then None
                else date_parse_tail (if x = cu CHR ''-'' then - year else year) dt r)
          } else do {
            (dt, r) \<leftarrow> match_date_time v;
            date_parse_tail (num (t_year dt)) dt r
          })"

definition milliseconds_of :: "jsstr \<Rightarrow> int" where
  "milliseconds_of f = num (take 3 (pad_end 3 (cu CHR ''0'') f))"

lemma milliseconds_bounds: "all_digits f \<Longrightarrow> 0 \<le> milliseconds_of f \<and> milliseconds_of f < 1000"
proof -
  assume "all_digits f"
  then have "all_digits (take 3 (pad_end 3 (cu CHR ''0'') f))"
    by (simp add: all_digits_take_drop cu_zero)
  from num_less [OF this] have "milliseconds_of f < 10 ^ min 3 (length (pad_end 3 (cu CHR ''0'') f))"
    by (simp add: milliseconds_of_def min.commute)
  also have "\<dots> \<le> 10 ^ 3" by (intro power_increasing) auto
  finally show ?thesis by (simp add: milliseconds_of_def num_nonneg)
qed

lemma date_parse_dt:
  assumes "wf_dt dt" "all_digits f" "f \<noteq> []"
  shows "date_parse (dt_text dt @ js ''.'' @ f @ js ''Z'') =
    date_parse_fields (num (t_year dt)) (num (t_month dt)) (num (t_day dt)) (num (t_hour dt))
      (num (t_minute dt)) (num (t_second dt)) (milliseconds_of f)"
proof -
  let ?v = "dt_text dt @ js ''.'' @ f @ js ''Z''"
  have m: "match_date_time ?v = Some (dt, js ''.'' @ f @ js ''Z'')"
    using assms by (simp add: match_date_time_iff)
  then obtain x r where x: "?v = x # r" by (cases ?v) (auto simp: match_date_time_def take_digits_def)
  have nosign: "\<not> (x = cu CHR ''-'' \<or> x = cu CHR ''+'')"
    using m [unfolded x] match_date_time_sign [of x r] by (metis option.distinct(1))
  have "take_digits1 (f @ js ''Z'') = Some (f, js ''Z'')"
    using assms by (simp add: take_digits1_iff js_def)
  then have "date_parse_tail (num (t_year dt)) dt (js ''.'' @ f @ js ''Z'') =
      date_parse_fields (num (t_year dt)) (num (t_month dt)) (num (t_day dt)) (num (t_hour dt))
      (num (t_minute dt)) (num (t_second dt)) (milliseconds_of f)"
    by (simp add: date_parse_tail_def expect_def js_def milliseconds_of_def)
  then show ?thesis using m nosign by (simp add: date_parse_def x)
qed

lemma date_parse_canonical:
  assumes wf: "wf_timestamp ts" and yr: "four_digit_year (wholeSecondMs ts)"
  shows "date_parse (canonical ts) =
    Some (wholeSecondMs ts + milliseconds_of (formatCanonicalFraction (fraction ts)))"
proof -
  let ?w = "wholeSecondMs ts" and ?F = "formatCanonicalFraction (fraction ts)"
  have w: "?w mod 1000 = 0" and dig: "all_digits ?F"
    and can: "canonical ts = drop_zero_millis (toISOString ?w) @ js ''.'' @ ?F @ js ''Z''"
    using wf by (auto simp: wf_timestamp_def all_digits_format)
  have "?F \<noteq> []" using length_format [of "fraction ts"] by auto
  note parse = date_parse_dt [OF wf_dt_of dig this, of ?w]
  note ms = milliseconds_bounds [OF dig]
  let ?ms = "milliseconds_of ?F"
  have tv: "time_value (dt_of ?w) = ?w" and ok: "components_ok (dt_of ?w)"
    using dt_of_values [OF yr] w by auto
  note v = components_ok_valid [OF ok]
  have "four_digit_year (time_value (dt_of ?w) + ?ms)"
    using dt_of_time_value [OF wf_dt_of ok] ms by blast
  then have "time_clip (?w + ?ms) = Some (?w + ?ms)"
    using four_digit_year_bounds by (simp add: time_clip_def tv)
  moreover have "make_time (num (t_year (dt_of ?w))) (num (t_month (dt_of ?w))) (num (t_day (dt_of ?w)))
      (num (t_hour (dt_of ?w))) (num (t_minute (dt_of ?w))) (num (t_second (dt_of ?w))) ?ms = ?w + ?ms"
    using tv by (simp add: time_value_def make_time_def)
  ultimately show ?thesis
    using v valid_date_ranges [OF v(1)]
    unfolding can toISOString_whole_second [OF yr w] parse by (simp add: date_parse_fields_def)
qed

subsection \<open>Whole seconds\<close>

lemma four_digit_year_iff: "four_digit_year t \<longleftrightarrow> - 719528 \<le> t div ms_per_day \<and> t div ms_per_day \<le> 2932896"
proof -
  define n where "n = t div ms_per_day"
  have y: "year_of t = year_from_day n" by (simp add: year_of_def civil_of_day_def Let_def n_def)
  have ends: "day_from_year 0 = - 719528" "day_from_year 10000 = 2932897" by (simp_all add: day_from_year_def)
  note b = year_from_day_bounds [of n]
  have "0 \<le> year_from_day n \<longleftrightarrow> - 719528 \<le> n"
    using b day_from_year_mono [of 0 "year_from_day n"] day_from_year_mono [of "year_from_day n + 1" 0] ends by linarith
  moreover have "year_from_day n \<le> 9999 \<longleftrightarrow> n \<le> 2932896"
    using b day_from_year_mono [of "year_from_day n + 1" 10000] day_from_year_mono [of 10000 "year_from_day n"] ends by linarith
  ultimately show ?thesis by (simp add: four_digit_year_def y n_def)
qed

lemma iso_timestamp:
  assumes "four_digit_year m" "m mod 1000 = 0"
  shows "wf_timestamp \<lparr>canonical = toISOString m, wholeSecondMs = m, fraction = js ''000''\<rparr>"
    "parseCanonicalTimestamp (toISOString m) = Inr \<lparr>canonical = toISOString m, wholeSecondMs = m, fraction = js ''000''\<rparr>"
    "date_parse (toISOString m) = Some m"
    "toISOString m = dt_text (dt_of m) @ js ''.000Z''"
proof -
  let ?b = "\<lparr>canonical = toISOString m, wholeSecondMs = m, fraction = js ''000''\<rparr>"
  have d: "all_digits (js ''000'')" "formatCanonicalFraction (js ''000'') = js ''000''" "fix_digits 3 0 = js ''000''"
    by (simp_all add: js_def cu_zero format_length3 fix_digits_zero numeral_3_eq_3)
  have t: "toISOString m = dt_text (dt_of m) @ js ''.'' @ js ''000'' @ js ''Z''"
    using toISOString_text [OF assms(1)] by (simp add: assms(2) d)
  then show "toISOString m = dt_text (dt_of m) @ js ''.000Z''" by (simp add: js_def)
  show wf: "wf_timestamp ?b"
    using toISOString_whole_second [OF assms] by (simp add: wf_timestamp_def assms d t)
  from reparse_canonical [OF this] assms d show "parseCanonicalTimestamp (toISOString m) = Inr ?b" by simp
  have "milliseconds_of (js ''000'') = 0"
    by (simp add: milliseconds_of_def pad_end_def num_def read_dec_def js_def cu_def digit_val_def)
  with date_parse_canonical [OF wf] assms d show "date_parse (toISOString m) = Some m" by simp
qed

subsection \<open>Every instant\<close>

lemma iso_any:
  assumes "four_digit_year t"
  shows "\<exists>ts. parseCanonicalTimestamp (toISOString t) = Inr ts \<and> canonical ts = toISOString t \<and> wholeSecondMs ts = t - t mod 1000 \<and>
    instant ts = of_int t / 1000"
proof -
  let ?w = "t - t mod 1000" and ?f = "fix_digits 3 (nat (t mod 1000))"
  have ok: "components_ok (dt_of t)" and time: "time_value (dt_of t) = ?w" using dt_of_values [OF assms] by auto
  note same = dt_of_time_value [OF wf_dt_of ok, of 0]
  have w: "dt_of ?w = dt_of t" "four_digit_year ?w" "?w mod 1000 = 0" using same by (simp_all add: time)
  have f: "all_digits ?f" "length ?f = 3" by simp_all
  define ts where "ts = \<lparr>canonical = toISOString t, wholeSecondMs = ?w, fraction = ?f\<rparr>"
  have "wf_timestamp ts"
    using toISOString_whole_second [OF w(2,3)] f
    by (simp add: wf_timestamp_def ts_def w toISOString_text [OF assms] format_length3)
  moreover have "instant ts = of_int t / 1000"
  proof -
    have "of_int (t mod 1000) = (of_nat (nat (t mod 1000)) :: rat)" by (simp flip: of_nat_nat)
    then have "frac_val ?f = of_int (t mod 1000) / 1000"
      by (simp add: frac_val_def read_dec_fix_digits)
    moreover have "(of_int ?w / 1000 + of_int (t mod 1000) / 1000 :: rat) = of_int (?w + t mod 1000) / 1000"
      by (simp only: of_int_add add_divide_distrib)
    moreover have "?w + t mod 1000 = t" by simp
    ultimately show ?thesis by (simp add: instant_def ts_def)
  qed
  ultimately show ?thesis
    using reparse_canonical [of ts] w(2) f by (simp add: ts_def format_length3)
qed

end
