(* ===== verification/Effects.thy ===== *)
theory Effects
  imports Errors
begin

section \<open>Effects: asynchronous code against an arbitrary environment\<close>

text \<open>
  An \<open>async\<close> function of the program awaits calls on objects it is given: a database client, a
  pool, a clock. The model records each call with its answer in a trace, newest last, and takes
  the answers from an environment that may depend on the whole trace in any way: the database,
  the network, the file system, the random identifiers and the other parts of the process are
  unconstrained. A computation takes a trace
  and returns its outcome and the longer trace. An outcome is a returned value, a thrown error,
  or \<open>Unfinished\<close>, when a loop used up the rounds it was given; nothing catches \<open>Unfinished\<close>.
\<close>

datatype event =
    EvQuery jsstr "jsval list" "throw + jsval"
  | EvConnect "throw + unit"
  | EvRelease bool "throw + unit"
  | EvEnd "throw + unit"
  | EvNow int
  | EvSleep int "throw + unit"
  | EvTimed int "throw + unit"
  | EvAborted bool
  | EvUuid jsstr
  | EvCreate "throw + unit"
  | EvReaddir jsstr "throw + (jsstr \<times> bool) list"
  | EvReadFile jsstr "throw + byte list"

type_synonym trace = "event list"

record env =
  env_query :: "trace \<Rightarrow> jsstr \<Rightarrow> jsval list \<Rightarrow> throw + jsval"
  env_connect :: "trace \<Rightarrow> throw + unit"
  env_release :: "trace \<Rightarrow> bool \<Rightarrow> throw + unit"
  env_end :: "trace \<Rightarrow> throw + unit"
  env_now :: "trace \<Rightarrow> int"
  env_sleep :: "trace \<Rightarrow> int \<Rightarrow> throw + unit"
  env_timed :: "trace \<Rightarrow> int \<Rightarrow> throw + unit"
  env_aborted :: "trace \<Rightarrow> bool"
  env_uuid :: "trace \<Rightarrow> jsstr"
  env_create :: "trace \<Rightarrow> throw + unit"
  env_readdir :: "trace \<Rightarrow> jsstr \<Rightarrow> throw + (jsstr \<times> bool) list"
  env_readfile :: "trace \<Rightarrow> jsstr \<Rightarrow> throw + byte list"

datatype 'a outcome = Ret 'a | Exn throw | Unfinished

type_synonym 'a io = "trace \<Rightarrow> 'a outcome \<times> trace"

text \<open>A template literal of SQL: every line preceded by a line break, and one at the end.\<close>

definition sql_text :: "string list \<Rightarrow> jsstr" where
  "sql_text ls = concat (map (\<lambda>l. 10 # js l) ls) @ [10]"

text \<open>The same for lines with interpolated texts, without the last line break.\<close>

definition sql_lines :: "jsstr list \<Rightarrow> jsstr" where
  "sql_lines ls = concat (map ((#) 10) ls)"

definition single_quoted :: "string \<Rightarrow> jsstr" where
  "single_quoted s = js [CHR 0x27] @ js s @ js [CHR 0x27]"

subsection \<open>Sequencing\<close>

definition ret :: "'a \<Rightarrow> 'a io" where
  "ret a = (\<lambda>tr. (Ret a, tr))"

definition raise :: "throw \<Rightarrow> 'a io" where
  "raise e = (\<lambda>tr. (Exn e, tr))"

definition unfinished :: "'a io" where
  "unfinished = (\<lambda>tr. (Unfinished, tr))"

definition seq :: "'a io \<Rightarrow> ('a \<Rightarrow> 'b io) \<Rightarrow> 'b io" where
  "seq m f = (\<lambda>tr. case m tr of (Ret a, tr') \<Rightarrow> f a tr' | (Exn e, tr') \<Rightarrow> (Exn e, tr')
     | (Unfinished, tr') \<Rightarrow> (Unfinished, tr'))"

text \<open>\<open>try { m } catch (e) { h(e) }\<close>.\<close>

definition handle :: "'a io \<Rightarrow> (throw \<Rightarrow> 'a io) \<Rightarrow> 'a io" where
  "handle m h = (\<lambda>tr. case m tr of (Ret a, tr') \<Rightarrow> (Ret a, tr') | (Exn e, tr') \<Rightarrow> h e tr'
     | (Unfinished, tr') \<Rightarrow> (Unfinished, tr'))"

text \<open>The outcome of \<open>m\<close> as a value, for code that stores a caught error in a variable.\<close>

definition attempt :: "'a io \<Rightarrow> (throw + 'a) io" where
  "attempt m = (\<lambda>tr. case m tr of (Ret a, tr') \<Rightarrow> (Ret (Inr a), tr') | (Exn e, tr') \<Rightarrow> (Ret (Inl e), tr')
     | (Unfinished, tr') \<Rightarrow> (Unfinished, tr'))"

text \<open>A pure computation that may throw.\<close>

definition lift_sum :: "throw + 'a \<Rightarrow> 'a io" where
  "lift_sum r = (case r of Inl e \<Rightarrow> raise e | Inr a \<Rightarrow> ret a)"

text \<open>\<open>for (const x of xs) { f(x) }\<close>.\<close>

primrec for_each :: "('a \<Rightarrow> unit io) \<Rightarrow> 'a list \<Rightarrow> unit io" where
  "for_each f [] = ret ()"
| "for_each f (x # xs) = seq (f x) (\<lambda>_. for_each f xs)"

subsection \<open>Calls\<close>

definition call :: "('r \<Rightarrow> event) \<Rightarrow> (trace \<Rightarrow> 'r) \<Rightarrow> ('r \<Rightarrow> 'a outcome) \<Rightarrow> 'a io" where
  "call ev ask result = (\<lambda>tr. let r = ask tr in (result r, tr @ [ev r]))"

fun sum_outcome :: "throw + 'a \<Rightarrow> 'a outcome" where
  "sum_outcome (Inl e) = Exn e"
| "sum_outcome (Inr a) = Ret a"

definition query :: "env \<Rightarrow> jsstr \<Rightarrow> jsval list \<Rightarrow> jsval io" where
  "query E sql params = call (EvQuery sql params) (\<lambda>tr. env_query E tr sql params) sum_outcome"

definition connect :: "env \<Rightarrow> unit io" where
  "connect E = call EvConnect (env_connect E) sum_outcome"

definition release :: "env \<Rightarrow> bool \<Rightarrow> unit io" where
  "release E destroy = call (EvRelease destroy) (\<lambda>tr. env_release E tr destroy) sum_outcome"

definition end_connection :: "env \<Rightarrow> unit io" where
  "end_connection E = call EvEnd (env_end E) sum_outcome"

definition now :: "env \<Rightarrow> int io" where
  "now E = call EvNow (env_now E) Ret"

definition sleep :: "env \<Rightarrow> int \<Rightarrow> unit io" where
  "sleep E ms = call (EvSleep ms) (\<lambda>tr. env_sleep E tr ms) sum_outcome"

definition timed :: "env \<Rightarrow> int \<Rightarrow> unit io" where
  "timed E ms = call (EvTimed ms) (\<lambda>tr. env_timed E tr ms) sum_outcome"

definition aborted :: "env \<Rightarrow> bool io" where
  "aborted E = call EvAborted (env_aborted E) Ret"

definition random_uuid :: "env \<Rightarrow> jsstr io" where
  "random_uuid E = call EvUuid (env_uuid E) Ret"

definition create_connection :: "env \<Rightarrow> unit io" where
  "create_connection E = call EvCreate (env_create E) sum_outcome"

definition read_directory :: "env \<Rightarrow> jsstr \<Rightarrow> (jsstr \<times> bool) list io" where
  "read_directory E d = call (EvReaddir d) (\<lambda>tr. env_readdir E tr d) sum_outcome"

definition read_file :: "env \<Rightarrow> jsstr \<Rightarrow> byte list io" where
  "read_file E f = call (EvReadFile f) (\<lambda>tr. env_readfile E tr f) sum_outcome"

lemmas io_defs = ret_def raise_def unfinished_def seq_def handle_def attempt_def lift_sum_def

lemmas call_defs = query_def connect_def release_def end_connection_def now_def sleep_def timed_def
  aborted_def random_uuid_def create_connection_def read_directory_def read_file_def call_def

text \<open>An environment in which every call succeeds and the clock stands still.\<close>

definition quiet_env :: "int \<Rightarrow> (jsstr \<Rightarrow> throw + jsval) \<Rightarrow> env" where
  "quiet_env t answer =
     \<lparr>env_query = (\<lambda>tr sql ps. answer sql), env_connect = (\<lambda>tr. Inr ()), env_release = (\<lambda>tr b. Inr ()),
      env_end = (\<lambda>tr. Inr ()), env_now = (\<lambda>tr. t), env_sleep = (\<lambda>tr ms. Inr ()),
      env_timed = (\<lambda>tr ms. Inr ()), env_aborted = (\<lambda>tr. False), env_uuid = (\<lambda>tr. js ''id''),
      env_create = (\<lambda>tr. Inr ()), env_readdir = (\<lambda>tr d. Inr []), env_readfile = (\<lambda>tr f. Inr [])\<rparr>"

subsection \<open>Specifications\<close>

text \<open>
  \<open>spec m Q\<close>: from every trace, \<open>m\<close> only appends events, and its outcome and the appended
  events satisfy \<open>Q\<close>, which may also look at the trace before. The rules follow the code's
  structure; they are collected in \<open>spec_rules\<close> for the calls.
\<close>

named_theorems spec_rules \<open>specifications of single calls\<close>

definition spec :: "'a io \<Rightarrow> (trace \<Rightarrow> 'a outcome \<Rightarrow> trace \<Rightarrow> bool) \<Rightarrow> bool" where
  "spec m Q \<longleftrightarrow> (\<forall>tr. \<exists>new. snd (m tr) = tr @ new \<and> Q tr (fst (m tr)) new)"

lemma specI:
  assumes "\<And>tr. \<exists>new. snd (m tr) = tr @ new \<and> Q tr (fst (m tr)) new"
  shows "spec m Q"
  using assms by (simp add: spec_def)

lemma specE:
  assumes "spec m Q"
  obtains new where "snd (m tr) = tr @ new" "Q tr (fst (m tr)) new"
  using assms by (auto simp: spec_def)

lemma spec_weaken: "spec m Q \<Longrightarrow> (\<And>tr r new. Q tr r new \<Longrightarrow> R tr r new) \<Longrightarrow> spec m R"
  unfolding spec_def by blast

lemma spec_ret: "(\<And>tr. Q tr (Ret a) []) \<Longrightarrow> spec (ret a) Q"
  by (auto simp: spec_def ret_def)

lemma spec_raise: "(\<And>tr. Q tr (Exn e) []) \<Longrightarrow> spec (raise e) Q"
  by (auto simp: spec_def raise_def)

lemma spec_unfinished: "(\<And>tr. Q tr Unfinished []) \<Longrightarrow> spec unfinished Q"
  by (auto simp: spec_def unfinished_def)

lemma spec_call: "(\<And>tr. Q tr (result (ask tr)) [ev (ask tr)]) \<Longrightarrow> spec (call ev ask result) Q"
  by (auto simp: spec_def call_def Let_def)

lemma spec_seq:
  assumes m: "spec m P"
    and f: "\<And>a. spec (f a) (\<lambda>tr r new. \<forall>tr0 n0. tr = tr0 @ n0 \<longrightarrow> P tr0 (Ret a) n0 \<longrightarrow> Q tr0 r (n0 @ new))"
    and e: "\<And>tr e new. P tr (Exn e) new \<Longrightarrow> Q tr (Exn e) new"
    and u: "\<And>tr new. P tr Unfinished new \<Longrightarrow> Q tr Unfinished new"
  shows "spec (seq m f) Q"
proof (rule specI)
  fix tr
  obtain n0 where n0: "snd (m tr) = tr @ n0" "P tr (fst (m tr)) n0"
    using m by (rule specE)
  show "\<exists>new. snd (seq m f tr) = tr @ new \<and> Q tr (fst (seq m f tr)) new"
  proof (cases "fst (m tr)")
    case (Ret a)
    obtain new where new: "snd (f a (tr @ n0)) = (tr @ n0) @ new"
      "\<forall>tr0 n1. tr @ n0 = tr0 @ n1 \<longrightarrow> P tr0 (Ret a) n1 \<longrightarrow> Q tr0 (fst (f a (tr @ n0))) (n1 @ new)"
      using f by (rule specE)
    have "m tr = (Ret a, tr @ n0)" using n0(1) Ret by (metis prod.collapse)
    then have "seq m f tr = f a (tr @ n0)" by (simp add: seq_def)
    then show ?thesis using new n0(2) Ret by (intro exI [of _ "n0 @ new"]) auto
  next
    case (Exn x)
    with n0 e show ?thesis by (auto simp: seq_def split: prod.splits)
  next
    case Unfinished
    with n0 u show ?thesis by (auto simp: seq_def split: prod.splits)
  qed
qed

lemma spec_handle:
  assumes m: "spec m P"
    and h: "\<And>e. spec (h e) (\<lambda>tr r new. \<forall>tr0 n0. tr = tr0 @ n0 \<longrightarrow> P tr0 (Exn e) n0 \<longrightarrow> Q tr0 r (n0 @ new))"
    and a: "\<And>tr a new. P tr (Ret a) new \<Longrightarrow> Q tr (Ret a) new"
    and u: "\<And>tr new. P tr Unfinished new \<Longrightarrow> Q tr Unfinished new"
  shows "spec (handle m h) Q"
proof (rule specI)
  fix tr
  obtain n0 where n0: "snd (m tr) = tr @ n0" "P tr (fst (m tr)) n0"
    using m by (rule specE)
  show "\<exists>new. snd (handle m h tr) = tr @ new \<and> Q tr (fst (handle m h tr)) new"
  proof (cases "fst (m tr)")
    case (Exn x)
    obtain new where new: "snd (h x (tr @ n0)) = (tr @ n0) @ new"
      "\<forall>tr0 n1. tr @ n0 = tr0 @ n1 \<longrightarrow> P tr0 (Exn x) n1 \<longrightarrow> Q tr0 (fst (h x (tr @ n0))) (n1 @ new)"
      using h by (rule specE)
    have "m tr = (Exn x, tr @ n0)" using n0(1) Exn by (metis prod.collapse)
    then have "handle m h tr = h x (tr @ n0)" by (simp add: handle_def)
    then show ?thesis using new n0(2) Exn by (intro exI [of _ "n0 @ new"]) auto
  next
    case (Ret x)
    with n0 a show ?thesis by (auto simp: handle_def split: prod.splits)
  next
    case Unfinished
    with n0 u show ?thesis by (auto simp: handle_def split: prod.splits)
  qed
qed

lemma spec_attempt:
  assumes m: "spec m P"
    and a: "\<And>tr a new. P tr (Ret a) new \<Longrightarrow> Q tr (Ret (Inr a)) new"
    and e: "\<And>tr e new. P tr (Exn e) new \<Longrightarrow> Q tr (Ret (Inl e)) new"
    and u: "\<And>tr new. P tr Unfinished new \<Longrightarrow> Q tr Unfinished new"
  shows "spec (attempt m) Q"
proof (rule specI)
  fix tr
  obtain n0 where n0: "snd (m tr) = tr @ n0" "P tr (fst (m tr)) n0"
    using m by (rule specE)
  then show "\<exists>new. snd (attempt m tr) = tr @ new \<and> Q tr (fst (attempt m tr)) new"
    using a e u by (cases "fst (m tr)") (auto simp: attempt_def split: prod.splits)
qed

lemma spec_lift_sum:
  "(\<And>tr e. r = Inl e \<Longrightarrow> Q tr (Exn e) []) \<Longrightarrow> (\<And>tr a. r = Inr a \<Longrightarrow> Q tr (Ret a) []) \<Longrightarrow>
   spec (lift_sum r) Q"
  by (cases r) (auto simp: lift_sum_def spec_ret spec_raise)

lemma spec_if: "(b \<Longrightarrow> spec m Q) \<Longrightarrow> (\<not> b \<Longrightarrow> spec n Q) \<Longrightarrow> spec (if b then m else n) Q"
  by simp

text \<open>Specifications that say which events a computation may emit, whatever its outcome.\<close>

definition emits :: "'a io \<Rightarrow> (event \<Rightarrow> bool) \<Rightarrow> bool" where
  "emits m P \<longleftrightarrow> spec m (\<lambda>tr r new. list_all P new)"

lemma emits_ret: "emits (ret a) P" and emits_raise: "emits (raise e) P"
  and emits_unfinished: "emits unfinished P" and emits_lift_sum: "emits (lift_sum r) P"
  by (auto simp: emits_def intro!: spec_ret spec_raise spec_unfinished spec_lift_sum)

lemma emits_call: "(\<And>r. P (ev r)) \<Longrightarrow> emits (call ev ask res) P"
  by (auto simp: emits_def intro: spec_call)

lemma emits_seq: "emits m P \<Longrightarrow> (\<And>a. emits (f a) P) \<Longrightarrow> emits (seq m f) P"
  unfolding emits_def
  by (rule spec_seq, assumption) (rule spec_weaken, assumption, auto)

lemma emits_handle: "emits m P \<Longrightarrow> (\<And>e. emits (h e) P) \<Longrightarrow> emits (handle m h) P"
  unfolding emits_def
  by (rule spec_handle, assumption) (rule spec_weaken, assumption, auto)

lemma emits_attempt: "emits m P \<Longrightarrow> emits (attempt m) P"
  unfolding emits_def by (rule spec_attempt) auto

lemma emits_for_each: "(\<And>x. x \<in> set xs \<Longrightarrow> emits (f x) P) \<Longrightarrow> emits (for_each f xs) P"
  by (induction xs) (auto intro!: emits_ret emits_seq)

lemmas emits_rules = emits_ret emits_raise emits_unfinished emits_lift_sum emits_seq emits_handle
  emits_attempt emits_for_each

lemma emitsD: "emits m P \<Longrightarrow> m tr = (r, tr') \<Longrightarrow> \<exists>new. tr' = tr @ new \<and> list_all P new"
  by (metis emits_def snd_conv spec_def)

end
