(* ===== verification/Ingestion.thy ===== *)
theory Ingestion
  imports LogEntry JsArray DateParse Effects
begin

section \<open>Ingestion (\<open>src/modules/ingestion\<close>)\<close>

text \<open>
  The service of \<open>ingestion-service.ts\<close>, which validates a request body entry by entry and hands
  the accepted records to a repository, and the repository of \<open>ingestion-repository.ts\<close>, which
  stores a batch and its minute aggregates with one statement. The comparison of strings by
  locale is a parameter. The service is proved against the locale \<open>log_store\<close>, the promise of
  any repository, and the repository is shown to keep that promise.
\<close>

subsection \<open>The minute aggregates\<close>

definition INSERT_LOGS_AND_AGGREGATES_SQL :: jsstr where
  "INSERT_LOGS_AND_AGGREGATES_SQL = sql_text
    [''WITH inserted AS ('',
     ''  INSERT INTO logstream.logs ('',
     ''    timestamp,'',
     ''    id,'',
     ''    level,'',
     ''    service,'',
     ''    message,'',
     ''    attributes,'',
     ''    attributes_search'',
     ''  )'',
     ''  SELECT'',
     ''    batch.timestamp,'',
     ''    batch.id,'',
     ''    batch.level,'',
     ''    batch.service,'',
     ''    batch.message,'',
     ''    batch.attributes,'',
     ''    batch.attributes_search'',
     ''  FROM UNNEST('',
     ''    $1::timestamptz[],'',
     ''    $2::uuid[],'',
     ''    $3::text[],'',
     ''    $4::text[],'',
     ''    $5::text[],'',
     ''    $6::jsonb[],'',
     ''    $7::jsonb[]'',
     ''  ) AS batch(timestamp, id, level, service, message, attributes, attributes_search)'',
     '')'',
     ''INSERT INTO logstream.log_minute_aggregates ('',
     ''  bucket_start,'',
     ''  service,'',
     ''  level,'',
     ''  count'',
     '')'',
     ''SELECT'',
     ''  agg.bucket_start,'',
     ''  agg.service,'',
     ''  agg.level,'',
     ''  agg.count'',
     ''FROM UNNEST('',
     ''  $8::timestamptz[],'',
     ''  $9::text[],'',
     ''  $10::text[],'',
     ''  $11::bigint[]'',
     '') AS agg(bucket_start, service, level, count)'',
     ''ON CONFLICT (bucket_start, service, level)'',
     ''DO UPDATE SET count = logstream.log_minute_aggregates.count + EXCLUDED.count;'']"

record AggregateGroup =
  bucketStart :: jsstr
  group_service :: jsstr
  group_level :: jsstr
  group_count :: int

definition MINUTE_MS :: int where
  "MINUTE_MS = 60000"

definition serializeJsonb :: "jsval \<Rightarrow> jsstr" where
  "serializeJsonb value = (case stringify value of Some text \<Rightarrow> text | None \<Rightarrow> js ''undefined'')"

text \<open>\<open>new Date(NaN).toISOString()\<close> throws a \<open>RangeError\<close>, and so does a date out of range.\<close>

definition date_to_iso :: "int option \<Rightarrow> throw + jsstr" where
  "date_to_iso t =
     (case Option.bind t time_clip of None \<Rightarrow> Inl (ErrorMessage (js ''Invalid time value''))
      | Some t \<Rightarrow> Inr (toISOString t))"

definition toMinuteBucketIso :: "jsstr \<Rightarrow> throw + jsstr" where
  "toMinuteBucketIso text =
     date_to_iso (map_option (\<lambda>parsed. (parsed div MINUTE_MS) * MINUTE_MS) (date_parse text))"

definition group_key :: "jsstr \<Rightarrow> 'a LogInsertionRecord_scheme \<Rightarrow> jsstr" where
  "group_key bucket r = bucket @ 0 # service r @ 0 # level r"

type_synonym groups = "(jsstr \<times> AggregateGroup) list"

definition add_to_groups :: "jsstr \<Rightarrow> 'a LogInsertionRecord_scheme \<Rightarrow> groups \<Rightarrow> groups" where
  "add_to_groups bucket r groups =
     (let key = group_key bucket r
      in case map_of groups key of
           Some existing \<Rightarrow>
             assign_key groups key (existing\<lparr>group_count := group_count existing + 1\<rparr>)
         | None \<Rightarrow>
             assign_key groups key
               \<lparr>bucketStart = bucket, group_service = service r, group_level = level r, group_count = 1\<rparr>)"

fun collect_groups :: "LogInsertionRecord list \<Rightarrow> groups \<Rightarrow> throw + groups" where
  "collect_groups [] groups = Inr groups"
| "collect_groups (r # rs) groups =
     (case toMinuteBucketIso (timestamp r) of Inl e \<Rightarrow> Inl e
      | Inr bucket \<Rightarrow> collect_groups rs (add_to_groups bucket r groups))"

text \<open>\<open>a || b || c\<close> on numbers: the first that is not zero.\<close>

definition compare_groups :: "(jsstr \<Rightarrow> jsstr \<Rightarrow> int) \<Rightarrow> AggregateGroup \<Rightarrow> AggregateGroup \<Rightarrow> int" where
  "compare_groups localeCompare left right =
     (let b = localeCompare (bucketStart left) (bucketStart right);
          s = localeCompare (group_service left) (group_service right)
      in if b \<noteq> 0 then b else if s \<noteq> 0 then s
         else localeCompare (group_level left) (group_level right))"

definition groupRecordsForAggregation ::
    "(jsstr \<Rightarrow> jsstr \<Rightarrow> int) \<Rightarrow> LogInsertionRecord list \<Rightarrow> throw + AggregateGroup list" where
  "groupRecordsForAggregation localeCompare records =
     (case collect_groups records [] of Inl e \<Rightarrow> Inl e
      | Inr groups \<Rightarrow> Inr (sort_with (compare_groups localeCompare) (map snd groups)))"

subsection \<open>The statement's parameters\<close>

definition attributes_object :: "OriginalAttributes \<Rightarrow> jsval" where
  "attributes_object attrs = plain (map (\<lambda>(k, v). (k, attribute_jsval v)) attrs)"

definition search_object :: "NormalizedSearchAttributes \<Rightarrow> jsval" where
  "search_object attrs = plain (map (\<lambda>(k, v). (k, JStr v)) attrs)"

definition record_search :: "LogInsertionRecord \<Rightarrow> throw + NormalizedSearchAttributes" where
  "record_search r =
     (case attributesSearch r of Some attrs \<Rightarrow> Inr attrs
      | None \<Rightarrow> normalizeAttributes (attributes r))"

definition buildInsertParameters ::
    "(jsstr \<Rightarrow> jsstr \<Rightarrow> int) \<Rightarrow> LogInsertionRecord list \<Rightarrow> throw + jsval list" where
  "buildInsertParameters localeCompare records =
     (case traverse record_search records of Inl e \<Rightarrow> Inl e
      | Inr searches \<Rightarrow>
          (case groupRecordsForAggregation localeCompare records of Inl e \<Rightarrow> Inl e
           | Inr groups \<Rightarrow>
               Inr [JArr (map (JStr \<circ> timestamp) records),
                    JArr (map (JStr \<circ> log_id) records),
                    JArr (map (JStr \<circ> level) records),
                    JArr (map (JStr \<circ> service) records),
                    JArr (map (JStr \<circ> message) records),
                    JArr (map (JStr \<circ> serializeJsonb \<circ> attributes_object \<circ> attributes) records),
                    JArr (map (JStr \<circ> serializeJsonb \<circ> search_object) searches),
                    JArr (map (JStr \<circ> bucketStart) groups),
                    JArr (map (JStr \<circ> group_service) groups),
                    JArr (map (JStr \<circ> group_level) groups),
                    JArr (map (jint \<circ> group_count) groups)]))"

definition insert_records ::
    "(jsstr \<Rightarrow> jsstr \<Rightarrow> int) \<Rightarrow> env \<Rightarrow> LogInsertionRecord list \<Rightarrow> unit io" where
  "insert_records localeCompare E records =
     (if records = [] then ret ()
      else
        seq (handle (lift_sum (buildInsertParameters localeCompare records))
              (\<lambda>e. raise (translateDatabaseError (error_value e))))
          (\<lambda>parameters.
            handle (seq (query E INSERT_LOGS_AND_AGGREGATES_SQL parameters) (\<lambda>_. ret ()))
              (\<lambda>e. raise (translateDatabaseError (error_value e)))))"

subsection \<open>The service\<close>

definition INVALID_INGESTION_REQUEST_MESSAGE :: jsstr where
  "INVALID_INGESTION_REQUEST_MESSAGE = js ''Invalid ingestion request.''"

definition readLogs :: "jsval \<Rightarrow> throw + jsval list" where
  "readLogs body =
     (if \<not> is_record body then Inl (BadRequestError INVALID_INGESTION_REQUEST_MESSAGE)
      else if \<not> has_own body (js ''logs'') then Inl (BadRequestError INVALID_INGESTION_REQUEST_MESSAGE)
      else case get_prop body (js ''logs'') of
          JArr logs \<Rightarrow> Inr logs
        | _ \<Rightarrow> Inl (BadRequestError INVALID_INGESTION_REQUEST_MESSAGE))"

definition insertion_record ::
    "ValidatedLogEntry \<Rightarrow> jsstr \<Rightarrow> NormalizedSearchAttributes \<Rightarrow> LogInsertionRecord" where
  "insertion_record e i attrs =
     ValidatedLogEntry.extend e (LogInsertionRecord.fields i (Some attrs))"

text \<open>The loop over \<open>logs.entries()\<close>: the index, the records and the rejections so far.\<close>

primrec ingest_loop ::
    "env \<Rightarrow> int \<Rightarrow> jsval list \<Rightarrow> nat \<Rightarrow> LogInsertionRecord list \<Rightarrow> RejectionItem list \<Rightarrow>
     (LogInsertionRecord list \<times> RejectionItem list) io" where
  "ingest_loop E referenceTimeMs [] i records rejections = ret (records, rejections)"
| "ingest_loop E referenceTimeMs (input # inputs) i records rejections =
     (case validateLogEntry input referenceTimeMs of
        Inl r \<Rightarrow>
          ingest_loop E referenceTimeMs inputs (i + 1) records
            (rejections @ [\<lparr>index = i, reason = REASONS r\<rparr>])
      | Inr e \<Rightarrow>
          seq (random_uuid E) (\<lambda>u.
          seq (lift_sum (normalizeAttributes (attributes e))) (\<lambda>attrs.
            ingest_loop E referenceTimeMs inputs (i + 1)
              (records @ [insertion_record e u attrs]) rejections)))"

definition ingest :: "(LogInsertionRecord list \<Rightarrow> unit io) \<Rightarrow> env \<Rightarrow> jsval \<Rightarrow> IngestionResponse io" where
  "ingest insert_into E body =
     seq (lift_sum (readLogs body)) (\<lambda>logs.
     seq (now E) (\<lambda>referenceTimeMs.
     seq (ingest_loop E referenceTimeMs logs 0 [] []) (\<lambda>(records, rejections).
     seq (if records \<noteq> [] then insert_into records else ret ()) (\<lambda>_.
       ret \<lparr>accepted = length records, rejected = rejections\<rparr>))))"

subsection \<open>Facts about the minute aggregates\<close>

lemma floor_div_split:
  assumes "0 \<le> (f :: rat)" "f < 1"
  shows "\<lfloor>(of_int a + f) / 60\<rfloor> = a div 60"
proof -
  define q where "q = a div 60"
  have "60 * q \<le> a" "a + 1 \<le> 60 * q + 60"
    using div_bounds [of 60 a] unfolding q_def by linarith+
  then have "(of_int (60 * q) :: rat) \<le> of_int a" "(of_int (a + 1) :: rat) \<le> of_int (60 * q + 60)"
    by (simp_all only: of_int_le_iff)
  with assms have "\<lfloor>(of_int a + f) / 60\<rfloor> = q"
    by (intro floor_unique) simp_all
  then show ?thesis by (simp only: q_def)
qed

lemma minute_of_ms:
  fixes a m :: int
  assumes "0 \<le> m" "m < 1000"
  shows "(a * 1000 + m) div 60000 = a div 60"
proof -
  have "60 * (a div 60) \<le> a" "a < 60 * (a div 60) + 60" using div_bounds [of 60 a] by simp_all
  then show ?thesis
    using assms by (intro int_div_pos_eq [of _ _ _ "(a - 60 * (a div 60)) * 1000 + m"]) auto
qed

lemma minute_bucket:
  assumes wf: "wf_timestamp ts" and yr: "four_digit_year (wholeSecondMs ts)"
  shows "toMinuteBucketIso (canonical ts) = Inr (toISOString (\<lfloor>instant ts / 60\<rfloor> * 60000))"
proof -
  define a where "a = wholeSecondMs ts div 1000"
  define m where "m = milliseconds_of (formatCanonicalFraction (fraction ts))"
  have w: "wholeSecondMs ts = a * 1000" using whole_second_split [OF wf] by (simp add: a_def)
  have dig: "all_digits (fraction ts)" using wf by (simp add: wf_timestamp_def)
  have m: "0 \<le> m" "m < 1000" using milliseconds_bounds all_digits_format [OF dig] by (simp_all add: m_def)
  note d = minute_of_ms [OF m, of a]
  have "instant ts = of_int a + frac_val (fraction ts)" by (simp add: instant_def w)
  with floor_div_split frac_val_bounds [OF dig] have fl: "\<lfloor>instant ts / 60\<rfloor> = a div 60" by simp
  define q where "q = a div 60"
  have "\<bar>a * 1000\<bar> \<le> 8640000000000000" using four_digit_year_bounds [OF yr] unfolding w .
  moreover have "60 * q \<le> a" "a < 60 * q + 60" using div_bounds [of 60 a] by (simp_all add: q_def)
  ultimately have "- 144000000000 \<le> q" "q \<le> 144000000000" by linarith+
  then have "time_clip (q * 60000) = Some (q * 60000)" by (simp add: time_clip_def)
  moreover have "date_parse (canonical ts) = Some (a * 1000 + m)"
    using date_parse_canonical [OF wf yr] unfolding w m_def .
  ultimately show ?thesis
    by (simp only: toMinuteBucketIso_def date_to_iso_def MINUTE_MS_def fl d q_def option.map
        Option.bind.simps option.case)
qed

text \<open>The groups after the loop has seen the records \<open>rs\<close>: each key's first record and its count.\<close>

definition record_bucket :: "LogInsertionRecord \<Rightarrow> jsstr" where
  "record_bucket r = (case toMinuteBucketIso (timestamp r) of Inr b \<Rightarrow> b | Inl e \<Rightarrow> [])"

definition record_key :: "LogInsertionRecord \<Rightarrow> jsstr" where
  "record_key r = group_key (record_bucket r) r"

definition group_of :: "LogInsertionRecord \<Rightarrow> nat \<Rightarrow> AggregateGroup" where
  "group_of r n = \<lparr>bucketStart = record_bucket r, group_service = service r, group_level = level r,
     group_count = int n\<rparr>"

definition groups_of :: "LogInsertionRecord list \<Rightarrow> jsstr \<Rightarrow> AggregateGroup option" where
  "groups_of rs k =
     (case filter (\<lambda>r. record_key r = k) rs of [] \<Rightarrow> None | r # rs' \<Rightarrow> Some (group_of r (Suc (length rs'))))"

lemma add_to_groups_step:
  assumes "map_of gs = groups_of rs" "distinct (map fst gs)" "toMinuteBucketIso (timestamp r) = Inr b"
  shows "map_of (add_to_groups b r gs) = groups_of (rs @ [r]) \<and> distinct (map fst (add_to_groups b r gs))"
proof -
  have b: "record_bucket r = b" "record_key r = group_key b r"
    using assms(3) by (simp_all add: record_bucket_def record_key_def)
  have "map_of (add_to_groups b r gs) k = groups_of (rs @ [r]) k" for k
    using assms(1)
    by (auto simp: add_to_groups_def Let_def map_of_assign_key groups_of_def b group_of_def
        split: option.splits list.splits)
  moreover have "distinct (map fst (add_to_groups b r gs))"
    using assms(2) by (auto simp: add_to_groups_def Let_def intro!: distinct_assign_key split: option.splits)
  ultimately show ?thesis by (simp add: fun_eq_iff)
qed

lemma collect_groups_correct:
  assumes "collect_groups rs gs = Inr gs'" "map_of gs = groups_of done" "distinct (map fst gs)"
  shows "map_of gs' = groups_of (done @ rs) \<and> distinct (map fst gs')"
  using assms
proof (induction rs gs arbitrary: "done" rule: collect_groups.induct)
  case (2 r rs gs)
  then obtain b where b: "toMinuteBucketIso (timestamp r) = Inr b"
      "collect_groups rs (add_to_groups b r gs) = Inr gs'"
    by (auto split: sum.splits)
  note st = add_to_groups_step [OF 2(3,4) b(1)]
  from 2(1) [OF b(1) b(2), of "done @ [r]"] st show ?case by simp
qed simp

lemma collect_groups_buckets:
  "collect_groups rs gs = Inr gs' \<Longrightarrow> r \<in> set rs \<Longrightarrow> toMinuteBucketIso (timestamp r) = Inr (record_bucket r)"
  by (induction rs gs rule: collect_groups.induct) (auto simp: record_bucket_def split: sum.splits)

lemma toISOString_no_nul: "\<not> contains_nul (toISOString t)"
proof -
  have dig: "0 \<notin> set s" if "all_digits s" for s :: jsstr
    using that by (auto simp: all_digits_def list_all_iff is_digit_def)
  have pad: "0 \<notin> set (pad_start w (cu CHR ''0'') s)" if "all_digits s" for w and s :: jsstr
    using that by (intro dig) (auto simp: pad_start_def cu_zero all_digits_def list_all_iff)
  have punct: "0 \<notin> set (js ''-'')" "0 \<notin> set (js '':'')" "0 \<notin> set (js ''.'')" "0 \<notin> set (js ''T'')"
    "0 \<notin> set (js ''Z'')" "cu CHR ''-'' \<noteq> 0" "cu CHR ''+'' \<noteq> 0"
    by (simp_all add: js_def cu_def)
  obtain y m d where "civil_of_day (t div ms_per_day) = (y, m, d)" by (metis prod_cases3)
  with punct show ?thesis
    by (auto simp: contains_nul_def toISOString_def iso_date_def iso_clock_def show_year_def show2_def
        show3_def pad)
qed

lemma record_bucket_no_nul:
  "toMinuteBucketIso (timestamp r) = Inr (record_bucket r) \<Longrightarrow> \<not> contains_nul (record_bucket r)"
  by (auto simp: toMinuteBucketIso_def date_to_iso_def split: option.splits) (metis toISOString_no_nul)

lemma nul_join_inject:
  assumes "0 \<notin> set a" "0 \<notin> set b" "a @ 0 # x = b @ 0 # (y :: jsstr)"
  shows "a = b \<and> x = y"
proof -
  have "takeWhile (\<lambda>c. c \<noteq> 0) (a @ 0 # x) = a" "takeWhile (\<lambda>c. c \<noteq> 0) (b @ 0 # y) = b"
    using assms(1,2) by (auto simp: takeWhile_append)
  with assms(3) show ?thesis by simp
qed

lemma record_key_inject:
  assumes "toMinuteBucketIso (timestamp r) = Inr (record_bucket r)"
    "toMinuteBucketIso (timestamp q) = Inr (record_bucket q)"
    "\<not> contains_nul (service r)" "\<not> contains_nul (service q)"
  shows "record_key r = record_key q \<longleftrightarrow>
    record_bucket r = record_bucket q \<and> service r = service q \<and> level r = level q"
proof
  assume k: "record_key r = record_key q"
  note b = record_bucket_no_nul [OF assms(1)] record_bucket_no_nul [OF assms(2)]
  have "record_bucket r @ 0 # (service r @ 0 # level r) = record_bucket q @ 0 # (service q @ 0 # level q)"
    using k by (simp only: record_key_def group_key_def)
  with b have "record_bucket r = record_bucket q \<and> service r @ 0 # level r = service q @ 0 # level q"
    unfolding contains_nul_def by (intro nul_join_inject)
  moreover from this have "service r = service q \<and> level r = level q"
    using assms(3,4) unfolding contains_nul_def by (intro nul_join_inject) simp_all
  ultimately show "record_bucket r = record_bucket q \<and> service r = service q \<and> level r = level q" by simp
qed (simp add: record_key_def group_key_def)

definition in_group :: "LogInsertionRecord \<Rightarrow> AggregateGroup \<Rightarrow> bool" where
  "in_group r g \<longleftrightarrow> toMinuteBucketIso (timestamp r) = Inr (bucketStart g) \<and>
     service r = group_service g \<and> level r = group_level g"

lemma groups_of_SomeD:
  "groups_of rs k = Some g \<Longrightarrow>
   \<exists>r \<in> set rs. record_key r = k \<and> g = group_of r (length (filter (\<lambda>q. record_key q = k) rs))"
proof -
  assume "groups_of rs k = Some g"
  then obtain r rs' where r: "filter (\<lambda>q. record_key q = k) rs = r # rs'" "g = group_of r (Suc (length rs'))"
    by (auto simp: groups_of_def split: list.splits)
  then have "r \<in> set (filter (\<lambda>q. record_key q = k) rs)" by simp
  then have "r \<in> set rs \<and> record_key r = k" by simp
  with r show ?thesis by auto
qed

lemma group_of_in_group:
  assumes buckets: "\<And>q. q \<in> set rs \<Longrightarrow> toMinuteBucketIso (timestamp q) = Inr (record_bucket q)"
    and nul: "\<And>q. q \<in> set rs \<Longrightarrow> \<not> contains_nul (service q)"
    and rq: "r \<in> set rs" "q \<in> set rs"
  shows "in_group q (group_of r n) \<longleftrightarrow> record_key q = record_key r"
  using record_key_inject [OF buckets buckets nul nul, OF rq(2,1) rq(2,1)] buckets [OF rq(2)]
  by (auto simp: in_group_def group_of_def)

lemma groups_correct:
  assumes gs: "groupRecordsForAggregation localeCompare records = Inr groups"
    and nul: "\<forall>r \<in> set records. \<not> contains_nul (service r)"
  shows "distinct (map (\<lambda>g. (bucketStart g, group_service g, group_level g)) groups) \<and>
    (\<forall>g \<in> set groups. group_count g = int (length (filter (\<lambda>r. in_group r g) records)) \<and> 0 < group_count g) \<and>
    (\<forall>r \<in> set records. \<exists>g \<in> set groups. in_group r g)"
proof -
  obtain kgs where kgs: "collect_groups records [] = Inr kgs"
    and groups: "groups = sort_with (compare_groups localeCompare) (map snd kgs)"
    using gs by (auto simp: groupRecordsForAggregation_def split: sum.splits)
  have m: "map_of kgs = groups_of records" and dist: "distinct (map fst kgs)"
    using collect_groups_correct [OF kgs, of "[]"] by (auto simp: groups_of_def fun_eq_iff)
  note buckets = collect_groups_buckets [OF kgs]
  have g: "\<exists>r \<in> set records. record_key r = k \<and> g = group_of r (length (filter (\<lambda>q. record_key q = k) records))"
    if "(k, g) \<in> set kgs" for k g
    using that m dist groups_of_SomeD by (metis map_of_is_SomeI)
  have count: "group_count g = int (length (filter (\<lambda>r. in_group r g) records)) \<and> 0 < group_count g"
    if kg: "(k, g) \<in> set kgs" for k g
  proof -
    obtain r where r: "r \<in> set records" "record_key r = k"
        "g = group_of r (length (filter (\<lambda>q. record_key q = k) records))"
      using g [OF kg] by blast
    have "filter (\<lambda>q. in_group q g) records = filter (\<lambda>q. record_key q = k) records"
      using group_of_in_group [OF buckets _ r(1)] nul r by (intro filter_cong) auto
    moreover have "0 < length (filter (\<lambda>q. record_key q = k) records)"
      using r(1,2) by (auto simp: filter_empty_conv)
    ultimately show ?thesis using r(3) by (simp add: group_of_def)
  qed
  have cover: "\<exists>g \<in> set (map snd kgs). in_group r g" if r: "r \<in> set records" for r
  proof -
    have "filter (\<lambda>q. record_key q = record_key r) records \<noteq> []" using r by (auto simp: filter_empty_conv)
    then obtain g where "map_of kgs (record_key r) = Some g"
      unfolding m groups_of_def by (cases "filter (\<lambda>q. record_key q = record_key r) records") auto
    then have kg: "(record_key r, g) \<in> set kgs" by (rule map_of_SomeD)
    from g [OF kg] obtain q where "q \<in> set records" "record_key q = record_key r"
        "g = group_of q (length (filter (\<lambda>q. record_key q = record_key r) records))" by blast
    then have "in_group r g" using group_of_in_group [OF buckets _ _ r] nul by auto
    with kg show ?thesis by force
  qed
  have "distinct (map (\<lambda>g. (bucketStart g, group_service g, group_level g)) (map snd kgs))"
  proof -
    have "inj_on (\<lambda>kg. (bucketStart (snd kg), group_service (snd kg), group_level (snd kg))) (set kgs)"
    proof (rule inj_onI)
      fix x y assume xy: "x \<in> set kgs" "y \<in> set kgs"
        "(bucketStart (snd x), group_service (snd x), group_level (snd x)) =
         (bucketStart (snd y), group_service (snd y), group_level (snd y))"
      obtain r q where "record_key r = fst x" "bucketStart (snd x) = record_bucket r"
          "group_service (snd x) = service r" "group_level (snd x) = level r"
          "record_key q = fst y" "bucketStart (snd y) = record_bucket q"
          "group_service (snd y) = service q" "group_level (snd y) = level q"
        using g [of "fst x" "snd x"] g [of "fst y" "snd y"] xy(1,2) by (auto simp: group_of_def)
      with xy(3) have "fst x = fst y" by (auto simp: record_key_def group_key_def)
      with dist xy(1,2) show "x = y" by (metis eq_key_imp_eq_value prod.collapse)
    qed
    then show ?thesis using dist by (simp add: distinct_map comp_def)
  qed
  then show ?thesis
    using count cover unfolding groups distinct_map_sort_with set_sort_with
    by (intro conjI ballI) (simp_all, force, force)
qed

subsection \<open>What the service accepts\<close>

definition accepted_entries :: "int \<Rightarrow> jsval list \<Rightarrow> ValidatedLogEntry list" where
  "accepted_entries ref inputs =
     concat (map (\<lambda>v. case validateLogEntry v ref of Inr e \<Rightarrow> [e] | Inl r \<Rightarrow> []) inputs)"

definition rejections_from :: "nat \<Rightarrow> int \<Rightarrow> jsval list \<Rightarrow> RejectionItem list" where
  "rejections_from i ref inputs =
     concat (map (\<lambda>(j, v). case validateLogEntry v ref of
        Inl r \<Rightarrow> [\<lparr>index = j, reason = REASONS r\<rparr>] | Inr e \<Rightarrow> []) (enumerate i inputs))"

definition search_attributes :: "OriginalAttributes \<Rightarrow> NormalizedSearchAttributes" where
  "search_attributes attrs = map (\<lambda>(k, v). (k, search_text v)) attrs"

definition records_for :: "ValidatedLogEntry list \<Rightarrow> jsstr list \<Rightarrow> LogInsertionRecord list" where
  "records_for es ids = map2 (\<lambda>e i. insertion_record e i (search_attributes (attributes e))) es ids"

lemma accepted_simps:
  "accepted_entries ref [] = []"
  "accepted_entries ref (v # vs) =
     (case validateLogEntry v ref of Inr e \<Rightarrow> e # accepted_entries ref vs | Inl r \<Rightarrow> accepted_entries ref vs)"
  "rejections_from i ref [] = []"
  "rejections_from i ref (v # vs) =
     (case validateLogEntry v ref of
        Inl r \<Rightarrow> \<lparr>index = i, reason = REASONS r\<rparr> # rejections_from (Suc i) ref vs
      | Inr e \<Rightarrow> rejections_from (Suc i) ref vs)"
  by (simp_all add: accepted_entries_def rejections_from_def split: sum.splits)

lemma accepted_rejected_length:
  "length (accepted_entries ref inputs) + length (rejections_from i ref inputs) = length inputs"
  by (induction inputs arbitrary: i) (auto simp: accepted_simps split: sum.splits)

lemma ingest_loop_run:
  assumes "\<forall>v \<in> set inputs. wf_object (input_attributes v)"
  shows "\<exists>ids. length ids = length (accepted_entries ref inputs) \<and>
    ingest_loop E ref inputs i records rejections tr =
      (Ret (records @ records_for (accepted_entries ref inputs) ids,
            rejections @ rejections_from i ref inputs), tr @ map EvUuid ids)"
  using assms
proof (induction inputs arbitrary: i records rejections tr)
  case Nil
  then show ?case by (simp add: accepted_simps ret_def records_for_def)
next
  case (Cons v vs)
  show ?case
  proof (cases "validateLogEntry v ref")
    case (Inl r)
    obtain ids where "length ids = length (accepted_entries ref vs)"
      "ingest_loop E ref vs (Suc i) records (rejections @ [\<lparr>index = i, reason = REASONS r\<rparr>]) tr =
       (Ret (records @ records_for (accepted_entries ref vs) ids,
             (rejections @ [\<lparr>index = i, reason = REASONS r\<rparr>]) @ rejections_from (Suc i) ref vs),
        tr @ map EvUuid ids)"
      using Cons by (metis list.set_intros(2))
    with Inl show ?thesis by (intro exI [of _ ids]) (simp add: accepted_simps)
  next
    case (Inr e)
    let ?u = "env_uuid E tr"
    have "normalizeAttributes (attributes e) = Inr (search_attributes (attributes e))"
      using validate_wf [OF _ Inr] Cons.prems
      by (simp add: normalizeAttributes_wf wf_entry_def search_attributes_def)
    then have step: "ingest_loop E ref (v # vs) i records rejections tr =
        ingest_loop E ref vs (i + 1)
          (records @ [insertion_record e ?u (search_attributes (attributes e))]) rejections (tr @ [EvUuid ?u])"
      by (simp add: Inr seq_def random_uuid_def call_def lift_sum_def ret_def Let_def)
    obtain ids where ids: "length ids = length (accepted_entries ref vs)"
      "ingest_loop E ref vs (i + 1)
          (records @ [insertion_record e ?u (search_attributes (attributes e))]) rejections (tr @ [EvUuid ?u]) =
       (Ret ((records @ [insertion_record e ?u (search_attributes (attributes e))]) @
              records_for (accepted_entries ref vs) ids,
             rejections @ rejections_from (i + 1) ref vs), (tr @ [EvUuid ?u]) @ map EvUuid ids)"
      using Cons by (metis list.set_intros(2))
    then show ?thesis
      unfolding step by (intro exI [of _ "?u # ids"]) (simp add: accepted_simps Inr records_for_def)
  qed
qed

text \<open>The service as its validation followed by one insertion.\<close>

lemma ingest_run:
  fixes E :: env and tr :: trace
  assumes logs: "readLogs body = Inr logs" and wf: "\<forall>v \<in> set logs. wf_object (input_attributes v)"
  defines "ref \<equiv> env_now E tr"
  shows "\<exists>ids. length ids = length (accepted_entries ref logs) \<and>
    ingest insert_into E body tr =
      (let records = records_for (accepted_entries ref logs) ids
       in seq (if records \<noteq> [] then insert_into records else ret ())
            (\<lambda>_. ret \<lparr>accepted = length records, rejected = rejections_from 0 ref logs\<rparr>)
            (tr @ EvNow ref # map EvUuid ids))"
proof -
  obtain ids where ids: "length ids = length (accepted_entries ref logs)"
    "ingest_loop E ref logs 0 [] [] (tr @ [EvNow ref]) =
      (Ret (records_for (accepted_entries ref logs) ids, rejections_from 0 ref logs),
       tr @ EvNow ref # map EvUuid ids)"
    using ingest_loop_run [OF wf, of ref E 0 "[]" "[]" "tr @ [EvNow ref]"] by auto
  then show ?thesis
    by (intro exI [of _ ids])
      (simp add: ingest_def logs lift_sum_def seq_def ret_def now_def call_def ref_def Let_def split: outcome.splits prod.splits)
qed

subsection \<open>The repository as the service sees it\<close>

text \<open>
  What the service relies on: an insertion that returns has stored the records, one that throws
  has stored nothing and throws one of the two database errors, and it always ends.
\<close>

locale log_store =
  fixes insert_into :: "LogInsertionRecord list \<Rightarrow> unit io"
    and stores :: "LogInsertionRecord list \<Rightarrow> event \<Rightarrow> bool"
  assumes insert_spec: "rs \<noteq> [] \<Longrightarrow> spec (insert_into rs) (\<lambda>tr r new.
      (case r of Ret u \<Rightarrow> \<exists>ev \<in> set new. stores rs ev
       | Exn e \<Rightarrow> e \<in> {TransientServiceError, InternalDatabaseError} \<and> (\<forall>ev \<in> set new. \<not> stores rs ev)
       | Unfinished \<Rightarrow> False))"
begin

lemma ingest_outcome:
  assumes logs: "readLogs body = Inr logs" and wf: "\<forall>v \<in> set logs. wf_object (input_attributes v)"
  shows "\<exists>ids new. let ref = env_now E tr; records = records_for (accepted_entries ref logs) ids in
     length ids = length (accepted_entries ref logs) \<and>
     snd (ingest insert_into E body tr) = tr @ EvNow ref # map EvUuid ids @ new \<and>
     (case fst (ingest insert_into E body tr) of
        Ret resp \<Rightarrow> resp = \<lparr>accepted = length records, rejected = rejections_from 0 ref logs\<rparr> \<and>
          (records = [] \<and> new = [] \<or> records \<noteq> [] \<and> (\<exists>ev \<in> set new. stores records ev))
      | Exn e \<Rightarrow> records \<noteq> [] \<and> e \<in> {TransientServiceError, InternalDatabaseError} \<and>
          (\<forall>ev \<in> set new. \<not> stores records ev)
      | Unfinished \<Rightarrow> False)"
proof -
  let ?ref = "env_now E tr"
  obtain ids where ids: "length ids = length (accepted_entries ?ref logs)"
    and run: "ingest insert_into E body tr =
      (let records = records_for (accepted_entries ?ref logs) ids
       in seq (if records \<noteq> [] then insert_into records else ret ())
            (\<lambda>_. ret \<lparr>accepted = length records, rejected = rejections_from 0 ?ref logs\<rparr>)
            (tr @ EvNow ?ref # map EvUuid ids))"
    using ingest_run [OF assms] by blast
  define records where "records = records_for (accepted_entries ?ref logs) ids"
  show ?thesis
  proof (cases "records = []")
    case True
    then show ?thesis
      using ids run by (intro exI [of _ ids] exI [of _ "[]"]) (simp add: seq_def ret_def Let_def records_def)
  next
    case False
    let ?tr = "tr @ EvNow ?ref # map EvUuid ids"
    obtain new where new: "snd (insert_into records ?tr) = ?tr @ new"
      "case fst (insert_into records ?tr) of Ret u \<Rightarrow> \<exists>ev \<in> set new. stores records ev
       | Exn e \<Rightarrow> e \<in> {TransientServiceError, InternalDatabaseError} \<and> (\<forall>ev \<in> set new. \<not> stores records ev)
       | Unfinished \<Rightarrow> False"
      using insert_spec [OF False] by (rule specE)
    have run': "ingest insert_into E body tr = seq (insert_into records)
        (\<lambda>_. ret \<lparr>accepted = length records, rejected = rejections_from 0 ?ref logs\<rparr>) ?tr"
      using run False by (simp add: records_def Let_def)
    obtain r tr' where r: "insert_into records ?tr = (r, tr')" by force
    show ?thesis
      using ids new False unfolding run' Let_def
      by (intro exI [of _ ids] exI [of _ new], fold records_def) (cases r; simp add: seq_def ret_def r)
  qed
qed

end

text \<open>The statement that stores a batch, answered without an error.\<close>

definition stored_by :: "(jsstr \<Rightarrow> jsstr \<Rightarrow> int) \<Rightarrow> LogInsertionRecord list \<Rightarrow> event \<Rightarrow> bool" where
  "stored_by localeCompare rs ev \<longleftrightarrow> (\<exists>parameters answer.
     buildInsertParameters localeCompare rs = Inr parameters \<and>
     ev = EvQuery INSERT_LOGS_AND_AGGREGATES_SQL parameters (Inr answer))"

lemma translated: "translateDatabaseError v \<in> {TransientServiceError, InternalDatabaseError}"
  using translate_cases by auto

interpretation pg_store: log_store "insert_records localeCompare E" "stored_by localeCompare"
  for localeCompare E
proof unfold_locales
  fix rs :: "LogInsertionRecord list"
  assume rs: "rs \<noteq> []"
  show "spec (insert_records localeCompare E rs) (\<lambda>tr r new.
      (case r of Ret u \<Rightarrow> \<exists>ev \<in> set new. stored_by localeCompare rs ev
       | Exn e \<Rightarrow> e \<in> {TransientServiceError, InternalDatabaseError} \<and>
           (\<forall>ev \<in> set new. \<not> stored_by localeCompare rs ev)
       | Unfinished \<Rightarrow> False))"
  proof (rule specI)
    fix tr
    show "\<exists>new. snd (insert_records localeCompare E rs tr) = tr @ new \<and>
      (case fst (insert_records localeCompare E rs tr) of Ret u \<Rightarrow> \<exists>ev \<in> set new. stored_by localeCompare rs ev
       | Exn e \<Rightarrow> e \<in> {TransientServiceError, InternalDatabaseError} \<and>
           (\<forall>ev \<in> set new. \<not> stored_by localeCompare rs ev)
       | Unfinished \<Rightarrow> False)"
    proof (cases "buildInsertParameters localeCompare rs")
      case (Inl e)
      then show ?thesis
        using rs translated by (simp add: insert_records_def seq_def handle_def lift_sum_def raise_def)
    next
      case (Inr ps)
      then show ?thesis
        using rs translated
        by (cases "env_query E tr INSERT_LOGS_AND_AGGREGATES_SQL ps")
          (simp_all add: insert_records_def seq_def handle_def lift_sum_def raise_def ret_def query_def
            call_def stored_by_def)
    qed
  qed
qed

subsection \<open>Properties\<close>

text \<open>
  The minute a record is counted in: the bucket of a validated timestamp is the start of
  the minute that contains its instant, however many fraction digits the timestamp has.
\<close>

theorem minute_bucket_contains_instant:
  assumes "parseCanonicalTimestamp v = Inr ts" "four_digit_year (wholeSecondMs ts)"
  shows "toMinuteBucketIso (canonical ts) = Inr (toISOString (\<lfloor>instant ts / 60\<rfloor> * 60000))"
  using parse_wf [OF assms(1)] assms(2) by (rule minute_bucket)

theorem minute_bucket_contains_instant_witness:
  "toMinuteBucketIso (js ''2026-08-13T12:34:56.7891Z'') = Inr (toISOString (29777074 * 60000))"
proof -
  have p: "parseCanonicalTimestamp (js ''2026-08-13T14:34:56.789100+02:00'') =
      Inr \<lparr>canonical = js ''2026-08-13T12:34:56.7891Z'', wholeSecondMs = 1786624496000, fraction = js ''789100''\<rparr>"
    by code_simp
  have y: "four_digit_year 1786624496000" by code_simp
  have i: "\<lfloor>instant \<lparr>canonical = js ''2026-08-13T12:34:56.7891Z'', wholeSecondMs = 1786624496000,
      fraction = js ''789100''\<rparr> / 60\<rfloor> = 29777074"
    by (simp add: instant_def frac_val_def read_dec_def js_def digit_val_def cu_def floor_eq_iff)
  show ?thesis using minute_bucket_contains_instant [OF p] y unfolding i by simp
qed

text \<open>
  The minute aggregates of a batch count its records exactly: no two groups share minute,
  service and level (so the upsert touches each row once), each group's count is the number of
  records in it, and every record is counted.
\<close>

theorem aggregates_count_records:
  assumes "groupRecordsForAggregation localeCompare records = Inr groups"
    "\<forall>r \<in> set records. \<not> contains_nul (service r)"
  shows "distinct (map (\<lambda>g. (bucketStart g, group_service g, group_level g)) groups) \<and>
    (\<forall>g \<in> set groups. group_count g = int (length (filter (\<lambda>r. in_group r g) records)) \<and> 0 < group_count g) \<and>
    (\<forall>r \<in> set records. \<exists>g \<in> set groups. in_group r g)"
  using assms by (rule groups_correct)

definition sample_record :: "jsstr \<Rightarrow> jsstr \<Rightarrow> LogInsertionRecord" where
  "sample_record t s = \<lparr>timestamp = t, level = js ''info'', service = s, message = js ''m'',
     attributes = [(js ''attempt'', AttrNum (JFin 1))], log_id = js ''id'', attributesSearch = None\<rparr>"

definition sample_batch :: "LogInsertionRecord list" where
  "sample_batch = [sample_record (js ''2026-08-13T12:00:00.000Z'') (js ''b''),
     sample_record (js ''2026-08-13T12:01:00.000Z'') (js ''a''),
     sample_record (js ''2026-08-13T12:00:59.999999Z'') (js ''b'')]"

lemma sample_groups:
  "groupRecordsForAggregation compare_units sample_batch =
     Inr [\<lparr>bucketStart = js ''2026-08-13T12:00:00.000Z'', group_service = js ''b'',
           group_level = js ''info'', group_count = 2\<rparr>,
          \<lparr>bucketStart = js ''2026-08-13T12:01:00.000Z'', group_service = js ''a'',
           group_level = js ''info'', group_count = 1\<rparr>]"
  by code_simp

theorem aggregates_count_records_witness:
  "\<exists>groups. groupRecordsForAggregation compare_units sample_batch = Inr groups \<and> length groups = 2 \<and>
     (\<forall>r \<in> set sample_batch. \<exists>g \<in> set groups. in_group r g)"
proof -
  have nul: "\<forall>r \<in> set sample_batch. \<not> contains_nul (service r)" by code_simp
  note a = aggregates_count_records [OF sample_groups nul]
  then show ?thesis unfolding sample_groups by simp
qed

text \<open>
  C1. A request that is answered has been stored, and the answer describes it: for a body with
  a \<open>logs\<close> array, the clock is read once, the response counts the valid entries and lists every
  invalid one with its index and first reason, and when there is a valid entry the insertion
  statement was answered with exactly those entries, in order, under fresh identifiers. When the
  insertion fails nothing is acknowledged and the error is one of the two database errors.
\<close>

theorem ingest_stores_what_it_acknowledges:
  assumes "readLogs body = Inr logs" "\<forall>v \<in> set logs. wf_object (input_attributes v)"
  shows "\<exists>ids new. let ref = env_now E tr; records = records_for (accepted_entries ref logs) ids in
     length ids = length (accepted_entries ref logs) \<and>
     snd (ingest (insert_records localeCompare E) E body tr) = tr @ EvNow ref # map EvUuid ids @ new \<and>
     (case fst (ingest (insert_records localeCompare E) E body tr) of
        Ret resp \<Rightarrow> resp = \<lparr>accepted = length records, rejected = rejections_from 0 ref logs\<rparr> \<and>
          (records = [] \<and> new = [] \<or> records \<noteq> [] \<and> (\<exists>ev \<in> set new. stored_by localeCompare records ev))
      | Exn e \<Rightarrow> records \<noteq> [] \<and> e \<in> {TransientServiceError, InternalDatabaseError} \<and>
          (\<forall>ev \<in> set new. \<not> stored_by localeCompare records ev)
      | Unfinished \<Rightarrow> False)"
  using assms by (rule pg_store.ingest_outcome)

definition sample_body :: jsval where
  "sample_body = plain [(js ''logs'', JArr [JNull, sample_input])]"

theorem ingest_stores_what_it_acknowledges_witness:
  "\<exists>ids new. length ids = 1 \<and>
     snd (ingest (insert_records compare_units (quiet_env 1786622400000 (\<lambda>sql. Inr JUndef)))
       (quiet_env 1786622400000 (\<lambda>sql. Inr JUndef)) sample_body []) = EvNow 1786622400000 # map EvUuid ids @ new"
proof -
  let ?E = "quiet_env 1786622400000 (\<lambda>sql. Inr JUndef)"
  have logs: "readLogs sample_body = Inr [JNull, sample_input]" by code_simp
  have wf: "\<forall>v \<in> set [JNull, sample_input]. wf_object (input_attributes v)" by code_simp
  have ref: "env_now ?E [] = 1786622400000" by (simp add: quiet_env_def)
  have "validateLogEntry JNull 1786622400000 = Inl EntryObject" by (simp add: validateLogEntry_def)
  then have acc: "accepted_entries 1786622400000 [JNull, sample_input] = [sample_entry]"
    by (simp add: accepted_simps sample_validates)
  show ?thesis
    using ingest_stores_what_it_acknowledges [OF logs wf, of ?E "[]" compare_units]
    by (auto simp: ref acc Let_def)
qed

end
