(* ===== verification/BatchQueue.thy ===== *)
theory BatchQueue
  imports Machines Ingestion
begin

section \<open>The write queue (\<open>src/modules/ingestion/batched-ingestion-repository.ts\<close>)\<close>

text \<open>
  Inserts wait in a queue, are combined into batches and written by a bounded number of
  concurrent writes; a timer flushes what waits. The state is the closure's variables, with the
  armed timers of the timer service, the writes that are under way and the history of what was
  accepted, started and settled; the operations are the program's functions. A write goes through two
  phases, because its promises settle one microtask before its \<open>finally\<close> runs. The step relation
  interleaves calls, timers and writes in every order.
\<close>

subsection \<open>Configuration\<close>

record batch_config =
  flushDelayMs :: int
  maxBatchRows :: int
  maxQueuedRows :: int
  maxConcurrentWrites :: int

definition DEFAULT_FLUSH_DELAY_MS :: int where "DEFAULT_FLUSH_DELAY_MS = 2"
definition DEFAULT_MAX_BATCH_ROWS :: int where "DEFAULT_MAX_BATCH_ROWS = 4000"
definition DEFAULT_MAX_QUEUED_ROWS :: int where "DEFAULT_MAX_QUEUED_ROWS = 200000"
definition DEFAULT_MAX_CONCURRENT_WRITES :: int where "DEFAULT_MAX_CONCURRENT_WRITES = 5"

text \<open>\<open>value ?? fallback\<close>.\<close>

definition or_default :: "jsval \<Rightarrow> int \<Rightarrow> jsval" where
  "or_default value fallback = (if value = JUndef \<or> value = JNull then jint fallback else value)"

lemma or_default_simps [simp]: "or_default (jint i) d = jint i" "or_default JUndef d = jint d"
  by (simp_all add: or_default_def jint_def)

definition readPositiveInteger :: "jsval \<Rightarrow> int \<Rightarrow> throw + int" where
  "readPositiveInteger value fallback =
     (case safe_integer_value (or_default value fallback) of
        Some candidate \<Rightarrow>
          if candidate < 1
          then Inl (ErrorMessage (js ''Ingestion batching limits must be positive safe integers.''))
          else Inr candidate
      | None \<Rightarrow> Inl (ErrorMessage (js ''Ingestion batching limits must be positive safe integers.'')))"

definition readDelay :: "jsval \<Rightarrow> throw + int" where
  "readDelay value =
     (case safe_integer_value (or_default value DEFAULT_FLUSH_DELAY_MS) of
        Some candidate \<Rightarrow>
          if candidate < 0
          then Inl (ErrorMessage (js ''Ingestion batch delay must be a non-negative safe integer.''))
          else Inr candidate
      | None \<Rightarrow> Inl (ErrorMessage (js ''Ingestion batch delay must be a non-negative safe integer.'')))"

definition read_batch_config :: "jsval \<Rightarrow> jsval \<Rightarrow> jsval \<Rightarrow> jsval \<Rightarrow> throw + batch_config" where
  "read_batch_config delay batchRows queuedRows concurrent =
     (case readDelay delay of Inl e \<Rightarrow> Inl e | Inr d \<Rightarrow>
      (case readPositiveInteger batchRows DEFAULT_MAX_BATCH_ROWS of Inl e \<Rightarrow> Inl e | Inr b \<Rightarrow>
      (case readPositiveInteger queuedRows DEFAULT_MAX_QUEUED_ROWS of Inl e \<Rightarrow> Inl e | Inr q \<Rightarrow>
      (case readPositiveInteger concurrent DEFAULT_MAX_CONCURRENT_WRITES of Inl e \<Rightarrow> Inl e | Inr c \<Rightarrow>
         Inr \<lparr>flushDelayMs = d, maxBatchRows = b, maxQueuedRows = q, maxConcurrentWrites = c\<rparr>))))"

subsection \<open>State\<close>

text \<open>A pending write: its records, and the promise that \<open>resolve\<close> and \<open>reject\<close> settle.\<close>

record 'r pending_write =
  write_records :: "'r list"
  write_promise :: nat

datatype write_phase = Writing | Settled

record 'r batch_write =
  batch_writes :: "'r pending_write list"
  batch_records :: "'r list"
  batch_phase :: write_phase

datatype 'r batch_output =
    OutAccepted "'r pending_write"
  | OutStarted "'r pending_write list" "'r list"
  | OutSettled nat "throw + unit"
  | OutClosed nat

record 'r batch_state =
  pending :: "'r pending_write list"
  closeWaiters :: "nat list"
  queuedRows :: int
  activeWrites :: int
  scheduledFlush :: "nat option"
  queue_closed :: bool
  armedTimers :: "(nat \<times> int) list"
  underWay :: "'r batch_write list"
  nextHandle :: nat
  nextPromise :: nat
  outputs :: "'r batch_output list"

definition initial_queue :: "'r batch_state" where
  "initial_queue =
     \<lparr>pending = [], closeWaiters = [], queuedRows = 0, activeWrites = 0, scheduledFlush = None,
      queue_closed = False, armedTimers = [], underWay = [], nextHandle = 0, nextPromise = 0,
      outputs = []\<rparr>"

definition emit :: "'r batch_output list \<Rightarrow> 'r batch_state \<Rightarrow> 'r batch_state" where
  "emit evs s = s\<lparr>outputs := outputs s @ evs\<rparr>"

definition row_count :: "'r pending_write list \<Rightarrow> int" where
  "row_count ws = sum_list (map (\<lambda>w. int (length (write_records w))) ws)"

subsection \<open>Operations\<close>

text \<open>The array is filled from the front, one record after the other.\<close>

fun combineRecords :: "'r pending_write list \<Rightarrow> 'r list" where
  "combineRecords [] = []"
| "combineRecords (w # ws) = write_records w @ combineRecords ws"

definition settleClose :: "'r batch_state \<Rightarrow> 'r batch_state" where
  "settleClose s =
     (if \<not> queue_closed s \<or> pending s \<noteq> [] \<or> 0 < activeWrites s then s
      else emit (map OutClosed (closeWaiters s)) (s\<lparr>closeWaiters := []\<rparr>))"

text \<open>The loop of \<open>takeBatch\<close>: the writes taken, their rows, and what stays in the queue.\<close>

fun take_writes ::
    "int \<Rightarrow> 'r pending_write list \<Rightarrow> 'r pending_write list \<Rightarrow> int \<Rightarrow>
     'r pending_write list \<times> int \<times> 'r pending_write list" where
  "take_writes maxRows [] writes rowCount = (writes, rowCount, [])"
| "take_writes maxRows (next # rest) writes rowCount =
     (if writes \<noteq> [] \<and> maxRows < rowCount + int (length (write_records next))
      then (writes, rowCount, next # rest)
      else
        let writes' = writes @ [next]; rowCount' = rowCount + int (length (write_records next))
        in if maxRows \<le> rowCount' then (writes', rowCount', rest)
           else take_writes maxRows rest writes' rowCount')"

definition takeBatch :: "batch_config \<Rightarrow> 'r batch_state \<Rightarrow> 'r pending_write list \<times> 'r batch_state" where
  "takeBatch cfg s =
     (case take_writes (maxBatchRows cfg) (pending s) [] 0 of (writes, rowCount, rest) \<Rightarrow>
        (writes, s\<lparr>pending := rest, queuedRows := queuedRows s - rowCount\<rparr>))"

definition cancel_timer :: "nat \<Rightarrow> 'r batch_state \<Rightarrow> 'r batch_state" where
  "cancel_timer h s = s\<lparr>armedTimers := filter (\<lambda>t. fst t \<noteq> h) (armedTimers s)\<rparr>"

definition arm_timer :: "int \<Rightarrow> 'r batch_state \<Rightarrow> 'r batch_state" where
  "arm_timer delayMs s =
     s\<lparr>scheduledFlush := Some (nextHandle s), armedTimers := armedTimers s @ [(nextHandle s, delayMs)],
       nextHandle := nextHandle s + 1\<rparr>"

definition scheduleFlush :: "batch_config \<Rightarrow> int \<Rightarrow> 'r batch_state \<Rightarrow> 'r batch_state" where
  "scheduleFlush cfg delayMs s =
     (if pending s = [] \<or> maxConcurrentWrites cfg \<le> activeWrites s then s
      else case scheduledFlush s of
          Some h \<Rightarrow> if delayMs \<noteq> 0 then s else arm_timer delayMs (cancel_timer h s)
        | None \<Rightarrow> arm_timer delayMs s)"

definition startWrite :: "'r pending_write list \<Rightarrow> 'r batch_state \<Rightarrow> 'r batch_state" where
  "startWrite writes s =
     emit [OutStarted writes (combineRecords writes)]
       (s\<lparr>activeWrites := activeWrites s + 1,
          underWay := underWay s @ [\<lparr>batch_writes = writes, batch_records = combineRecords writes,
            batch_phase = Writing\<rparr>]\<rparr>)"

definition flush_delay :: "batch_config \<Rightarrow> 'r batch_state \<Rightarrow> int" where
  "flush_delay cfg s = (if queue_closed s \<or> maxBatchRows cfg \<le> queuedRows s then 0 else flushDelayMs cfg)"

lemma take_writes_shorter:
  "take_writes m (p # ps) [] 0 = (ws, n, rest) \<Longrightarrow> length rest \<le> length ps"
proof -
  have "take_writes m ps acc n = (ws, n', rest) \<Longrightarrow> length rest \<le> length ps" for acc n ws n' rest
    by (induction m ps acc n rule: take_writes.induct) (auto simp: Let_def split: if_splits intro: le_SucI)
  then show "take_writes m (p # ps) [] 0 = (ws, n, rest) \<Longrightarrow> length rest \<le> length ps"
    by (fastforce simp: Let_def split: if_splits)
qed

lemma takeBatch_shorter: "pending s \<noteq> [] \<Longrightarrow> length (pending (snd (takeBatch cfg s))) < length (pending s)"
  using take_writes_shorter
  by (cases "pending s") (auto simp: takeBatch_def less_Suc_eq_le split: prod.splits)

text \<open>The \<open>while\<close> loop of \<open>startAvailableWrites\<close>; each round takes at least one write.\<close>

function start_writes :: "batch_config \<Rightarrow> 'r batch_state \<Rightarrow> 'r batch_state" where
  "start_writes cfg s =
     (if activeWrites s < maxConcurrentWrites cfg \<and> pending s \<noteq> [] then
        (let batch = takeBatch cfg s; s' = startWrite (fst batch) (snd batch)
         in if \<not> queue_closed s' \<and> queuedRows s' < maxBatchRows cfg then s'
            else start_writes cfg s')
      else s)"
  by pat_completeness auto
termination
  by (relation "measure (\<lambda>(cfg, s). length (pending s))")
    (auto simp: startWrite_def emit_def takeBatch_shorter)

declare start_writes.simps [simp del]

definition startAvailableWrites :: "batch_config \<Rightarrow> 'r batch_state \<Rightarrow> 'r batch_state" where
  "startAvailableWrites cfg s =
     (let s = start_writes cfg s
      in if pending s \<noteq> [] \<and> activeWrites s < maxConcurrentWrites cfg
         then scheduleFlush cfg (flush_delay cfg s) s else s)"

text \<open>A new promise: settled with a result, resolved by \<open>close\<close>, or still open.\<close>

definition settled_promise :: "throw + unit \<Rightarrow> 'r batch_state \<Rightarrow> 'r batch_state" where
  "settled_promise result s =
     emit [OutSettled (nextPromise s) result] (s\<lparr>nextPromise := nextPromise s + 1\<rparr>)"

definition closed_promise :: "'r batch_state \<Rightarrow> 'r batch_state" where
  "closed_promise s = emit [OutClosed (nextPromise s)] (s\<lparr>nextPromise := nextPromise s + 1\<rparr>)"

definition push_write :: "'r list \<Rightarrow> 'r batch_state \<Rightarrow> 'r batch_state" where
  "push_write rs s =
     (let w = \<lparr>write_records = rs, write_promise = nextPromise s\<rparr>
      in emit [OutAccepted w]
           (s\<lparr>nextPromise := nextPromise s + 1, pending := pending s @ [w],
              queuedRows := queuedRows s + int (length rs)\<rparr>))"

text \<open>\<open>insert(records)\<close>; the promise it returns is the one numbered \<open>nextPromise\<close> before.\<close>

definition queue_insert :: "batch_config \<Rightarrow> 'r list \<Rightarrow> 'r batch_state \<Rightarrow> 'r batch_state" where
  "queue_insert cfg rs s =
     (if rs = [] then settled_promise (Inr ()) s
      else if queue_closed s \<or> (0 < queuedRows s \<and> maxQueuedRows cfg < queuedRows s + int (length rs))
      then settled_promise (Inl TransientServiceError) s
      else
        let s = push_write rs s
        in if activeWrites s < maxConcurrentWrites cfg \<and> length (pending s) = 1
           then startAvailableWrites cfg s
           else scheduleFlush cfg (if maxBatchRows cfg \<le> queuedRows s then 0 else flushDelayMs cfg) s)"

definition cancel_flush :: "'r batch_state \<Rightarrow> 'r batch_state" where
  "cancel_flush s =
     (case scheduledFlush s of None \<Rightarrow> s | Some h \<Rightarrow> (cancel_timer h s)\<lparr>scheduledFlush := None\<rparr>)"

definition queue_close :: "batch_config \<Rightarrow> 'r batch_state \<Rightarrow> 'r batch_state" where
  "queue_close cfg s =
     (if queue_closed s \<and> pending s = [] \<and> activeWrites s = 0 then closed_promise s
      else
        let s = startAvailableWrites cfg (cancel_flush (s\<lparr>queue_closed := True\<rparr>))
        in if pending s = [] \<and> activeWrites s = 0 then closed_promise s
           else s\<lparr>closeWaiters := closeWaiters s @ [nextPromise s], nextPromise := nextPromise s + 1\<rparr>)"

text \<open>The timer's callback, when the timer \<open>h\<close> fires.\<close>

definition timer_fires :: "batch_config \<Rightarrow> nat \<Rightarrow> 'r batch_state \<Rightarrow> 'r batch_state" where
  "timer_fires cfg h s =
     startAvailableWrites cfg ((cancel_timer h s)\<lparr>scheduledFlush := None\<rparr>)"

text \<open>The repository's promise for the write \<open>i\<close> settles, and later its \<open>finally\<close> runs.\<close>

definition write_settles :: "nat \<Rightarrow> throw + unit \<Rightarrow> 'r batch_state \<Rightarrow> 'r batch_state" where
  "write_settles i result s =
     (let b = underWay s ! i
      in emit (map (\<lambda>w. OutSettled (write_promise w) result) (batch_writes b))
           (s\<lparr>underWay := (underWay s)[i := b\<lparr>batch_phase := Settled\<rparr>]\<rparr>))"

definition write_finishes :: "batch_config \<Rightarrow> nat \<Rightarrow> 'r batch_state \<Rightarrow> 'r batch_state" where
  "write_finishes cfg i s =
     (let s = s\<lparr>underWay := take i (underWay s) @ drop (i + 1) (underWay s),
                activeWrites := activeWrites s - 1\<rparr>;
          s = (if pending s \<noteq> [] then scheduleFlush cfg (flush_delay cfg s) s else s)
      in settleClose s)"

subsection \<open>Interleavings\<close>

inductive queue_step :: "batch_config \<Rightarrow> 'r batch_state \<Rightarrow> 'r batch_state \<Rightarrow> bool" for cfg where
  Insert: "queue_step cfg s (queue_insert cfg rs s)"
| Close: "queue_step cfg s (queue_close cfg s)"
| Timer: "h \<in> fst ` set (armedTimers s) \<Longrightarrow> queue_step cfg s (timer_fires cfg h s)"
| Settles: "i < length (underWay s) \<Longrightarrow> batch_phase (underWay s ! i) = Writing \<Longrightarrow>
    queue_step cfg s (write_settles i result s)"
| Finishes: "i < length (underWay s) \<Longrightarrow> batch_phase (underWay s ! i) = Settled \<Longrightarrow>
    queue_step cfg s (write_finishes cfg i s)"

inductive_cases queue_stepE: "queue_step cfg s t"

text \<open>The steps of the environment alone: no new calls.\<close>

inductive queue_move :: "batch_config \<Rightarrow> 'r batch_state \<Rightarrow> 'r batch_state \<Rightarrow> bool" for cfg where
  "h \<in> fst ` set (armedTimers s) \<Longrightarrow> queue_move cfg s (timer_fires cfg h s)"
| "i < length (underWay s) \<Longrightarrow> batch_phase (underWay s ! i) = Writing \<Longrightarrow>
    queue_move cfg s (write_settles i result s)"
| "i < length (underWay s) \<Longrightarrow> batch_phase (underWay s ! i) = Settled \<Longrightarrow>
    queue_move cfg s (write_finishes cfg i s)"

inductive_cases queue_moveE: "queue_move cfg s t"

subsection \<open>Batches\<close>

lemma row_count_simps [simp]:
  "row_count [] = 0" "row_count (w # ws) = int (length (write_records w)) + row_count ws"
  "row_count (ws @ vs) = row_count ws + row_count vs"
  by (simp_all add: row_count_def)

lemma row_count_nonneg [simp]: "0 \<le> row_count ws"
  by (induction ws) auto

lemma length_combineRecords: "int (length (combineRecords ws)) = row_count ws"
  by (induction ws) auto

lemma take_writes_split:
  "take_writes m ps ws n = (ws', n', rst) \<Longrightarrow>
   \<exists>taken. ws' = ws @ taken \<and> ps = taken @ rst \<and> n' = n + row_count taken \<and>
     (ws = [] \<longrightarrow> ps \<noteq> [] \<longrightarrow> taken \<noteq> []) \<and>
     (n = row_count ws \<longrightarrow> ws = [] \<or> n \<le> m \<longrightarrow> ws' = [] \<or> row_count ws' \<le> m \<or> length ws' = 1)"
proof (induction m ps ws n rule: take_writes.induct)
  case (2 m nxt ps ws n)
  show ?case
  proof (cases "ws \<noteq> [] \<and> m < n + int (length (write_records nxt))")
    case True
    with 2(2) show ?thesis by auto
  next
    case stop: False
    let ?ws = "ws @ [nxt]" and ?n = "n + int (length (write_records nxt))"
    have single: "ws = [] \<or> ?n \<le> m" using stop by auto
    show ?thesis
    proof (cases "m \<le> ?n")
      case True
      with 2(2) stop have "ws' = ?ws" "n' = ?n" "rst = ps" by (auto simp: Let_def split: if_splits)
      with single show ?thesis by (intro exI [of _ "[nxt]"]) auto
    next
      case False
      with 2(2) stop have t: "take_writes m ps ?ws ?n = (ws', n', rst)" by (auto simp: Let_def split: if_splits)
      from 2(1) [OF stop refl refl False t] obtain taken where
        "ws' = ?ws @ taken" "ps = taken @ rst" "n' = ?n + row_count taken"
        "?n = row_count ?ws \<longrightarrow> ?ws = [] \<or> ?n \<le> m \<longrightarrow> ws' = [] \<or> row_count ws' \<le> m \<or> length ws' = 1"
        by blast
      with False show ?thesis by (intro exI [of _ "nxt # taken"]) auto
    qed
  qed
qed simp

text \<open>A batch: not empty, at most \<open>maxBatchRows\<close> rows unless it is a single write, all its records.\<close>

definition good_batch :: "batch_config \<Rightarrow> 'r pending_write list \<Rightarrow> 'r list \<Rightarrow> bool" where
  "good_batch cfg ws rs \<longleftrightarrow> ws \<noteq> [] \<and> (row_count ws \<le> maxBatchRows cfg \<or> length ws = 1) \<and>
     rs = concat (map write_records ws)"

lemma combineRecords_concat: "combineRecords ws = concat (map write_records ws)"
  by (induction ws) auto

lemma takeBatch_cases:
  assumes "pending s \<noteq> []"
  obtains ws rst where "pending s = ws @ rst"
    "takeBatch cfg s = (ws, s\<lparr>pending := rst, queuedRows := queuedRows s - row_count ws\<rparr>)"
    "good_batch cfg ws (combineRecords ws)"
proof -
  obtain ws n rst where t: "take_writes (maxBatchRows cfg) (pending s) [] 0 = (ws, n, rst)" by (metis prod_cases3)
  have b: "takeBatch cfg s = (ws, s\<lparr>pending := rst, queuedRows := queuedRows s - n\<rparr>)"
    by (simp add: takeBatch_def t)
  from take_writes_split [OF t] assms b show thesis
    by (intro that [of ws rst]) (auto simp: good_batch_def combineRecords_concat)
qed

subsection \<open>The invariant\<close>

fun accepted_of :: "'r batch_output \<Rightarrow> 'r pending_write list" where
  "accepted_of (OutAccepted w) = [w]"
| "accepted_of _ = []"

fun started_of :: "'r batch_output \<Rightarrow> 'r pending_write list" where
  "started_of (OutStarted ws rs) = ws"
| "started_of _ = []"

fun promise_of :: "'r batch_output \<Rightarrow> nat list" where
  "promise_of (OutSettled p r) = [p]"
| "promise_of (OutClosed p) = [p]"
| "promise_of _ = []"

fun good_output :: "batch_config \<Rightarrow> 'r batch_output \<Rightarrow> bool" where
  "good_output cfg (OutStarted ws rs) = good_batch cfg ws rs"
| "good_output cfg _ = True"

definition accepted_writes :: "'r batch_state \<Rightarrow> 'r pending_write list" where
  "accepted_writes s = concat (map accepted_of (outputs s))"

definition started_writes :: "'r batch_state \<Rightarrow> 'r pending_write list" where
  "started_writes s = concat (map started_of (outputs s))"

definition settled_promises :: "'r batch_state \<Rightarrow> nat list" where
  "settled_promises s = concat (map promise_of (outputs s))"

definition writing_promises :: "'r batch_write list \<Rightarrow> nat list" where
  "writing_promises bs =
     concat (map (\<lambda>b. if batch_phase b = Writing then map write_promise (batch_writes b) else []) bs)"

text \<open>Promises that are not settled: of waiting closers, queued writes and writes under way.\<close>

definition open_promises :: "'r batch_state \<Rightarrow> nat list" where
  "open_promises s = closeWaiters s @ map write_promise (pending s) @ writing_promises (underWay s)"

definition counters_ok :: "batch_config \<Rightarrow> 'r batch_state \<Rightarrow> bool" where
  "counters_ok cfg s \<longleftrightarrow> queuedRows s = row_count (pending s) \<and>
     activeWrites s = int (length (underWay s)) \<and> activeWrites s \<le> maxConcurrentWrites cfg \<and>
     (queuedRows s \<le> maxQueuedRows cfg \<or> length (pending s) \<le> 1) \<and>
     (\<forall>w \<in> set (pending s). write_records w \<noteq> []) \<and>
     map fst (armedTimers s) = (case scheduledFlush s of None \<Rightarrow> [] | Some h \<Rightarrow> [h]) \<and>
     (queue_closed s \<or> closeWaiters s = [])"

definition history_ok :: "batch_config \<Rightarrow> 'r batch_state \<Rightarrow> bool" where
  "history_ok cfg s \<longleftrightarrow> accepted_writes s = started_writes s @ pending s \<and>
     list_all (good_output cfg) (outputs s) \<and>
     mset (settled_promises s) + mset (open_promises s) = mset [0..<nextPromise s]"

definition awake :: "'r batch_state \<Rightarrow> bool" where
  "awake s \<longleftrightarrow> (pending s \<noteq> [] \<longrightarrow> scheduledFlush s \<noteq> None \<or> underWay s \<noteq> [])"

definition closers_ok :: "'r batch_state \<Rightarrow> bool" where
  "closers_ok s \<longleftrightarrow> (pending s = [] \<and> activeWrites s = 0 \<longrightarrow> closeWaiters s = [])"

definition queue_inv :: "batch_config \<Rightarrow> 'r batch_state \<Rightarrow> bool" where
  "queue_inv cfg s \<longleftrightarrow> counters_ok cfg s \<and> history_ok cfg s \<and> awake s \<and> closers_ok s"

definition valid_config :: "batch_config \<Rightarrow> bool" where
  "valid_config cfg \<longleftrightarrow> 0 \<le> flushDelayMs cfg \<and> 1 \<le> maxBatchRows cfg \<and> 1 \<le> maxQueuedRows cfg \<and>
     1 \<le> maxConcurrentWrites cfg"

lemmas history_defs = history_ok_def accepted_writes_def started_writes_def settled_promises_def
  open_promises_def

lemma scheduleFlush_same [simp]:
  "pending (scheduleFlush cfg d s) = pending s" "queuedRows (scheduleFlush cfg d s) = queuedRows s"
  "activeWrites (scheduleFlush cfg d s) = activeWrites s" "underWay (scheduleFlush cfg d s) = underWay s"
  "queue_closed (scheduleFlush cfg d s) = queue_closed s" "closeWaiters (scheduleFlush cfg d s) = closeWaiters s"
  "outputs (scheduleFlush cfg d s) = outputs s" "nextPromise (scheduleFlush cfg d s) = nextPromise s"
  by (auto simp: scheduleFlush_def arm_timer_def cancel_timer_def split: option.splits)

lemma scheduleFlush_history: "history_ok cfg (scheduleFlush cfg d s) \<longleftrightarrow> history_ok cfg s"
  by (simp add: history_defs)

lemma scheduleFlush_counters: "counters_ok cfg s \<Longrightarrow> counters_ok cfg (scheduleFlush cfg d s)"
proof -
  assume c: "counters_ok cfg s"
  then have m: "map fst (armedTimers s) = (case scheduledFlush s of None \<Rightarrow> [] | Some h \<Rightarrow> [h])"
    by (simp add: counters_ok_def)
  have "filter (\<lambda>t. fst t \<noteq> h) (armedTimers s) = []" if "scheduledFlush s = Some h" for h
    using m that by (auto simp: map_eq_Cons_conv)
  then have "map fst (armedTimers (scheduleFlush cfg d s)) =
      (case scheduledFlush (scheduleFlush cfg d s) of None \<Rightarrow> [] | Some h \<Rightarrow> [h])"
    using m by (auto simp: scheduleFlush_def arm_timer_def cancel_timer_def split: option.splits)
  with c show ?thesis by (auto simp: counters_ok_def)
qed

lemma scheduleFlush_wakes:
  "pending s \<noteq> [] \<Longrightarrow> activeWrites s < maxConcurrentWrites cfg \<Longrightarrow>
   scheduledFlush (scheduleFlush cfg d s) \<noteq> None"
  by (auto simp: scheduleFlush_def arm_timer_def split: option.splits)

text \<open>One round of the loop: a batch leaves the queue and its write starts.\<close>

definition start_one :: "batch_config \<Rightarrow> 'r batch_state \<Rightarrow> 'r batch_state" where
  "start_one cfg s = (let batch = takeBatch cfg s in startWrite (fst batch) (snd batch))"

lemma start_writes_unfold:
  "start_writes cfg s =
     (if activeWrites s < maxConcurrentWrites cfg \<and> pending s \<noteq> [] then
        if \<not> queue_closed (start_one cfg s) \<and> queuedRows (start_one cfg s) < maxBatchRows cfg
        then start_one cfg s else start_writes cfg (start_one cfg s)
      else s)"
  by (subst start_writes.simps) (simp add: start_one_def Let_def)

lemma start_writes_induct [case_names step]:
  assumes "\<And>s. (activeWrites s < maxConcurrentWrites cfg \<Longrightarrow> pending s \<noteq> [] \<Longrightarrow> P (start_one cfg s)) \<Longrightarrow> P s"
  shows "P s"
proof (induction "length (pending s)" arbitrary: s rule: less_induct)
  case less
  have "length (pending (start_one cfg s)) < length (pending s)" if "pending s \<noteq> []"
    using takeBatch_shorter [OF that, of cfg] by (simp add: start_one_def startWrite_def emit_def Let_def)
  note shorter = this
  show ?case
  proof (rule assms)
    assume "pending s \<noteq> []"
    from less [OF shorter [OF this]] show "P (start_one cfg s)" .
  qed
qed

lemma start_one_cases:
  assumes "pending s \<noteq> []"
  obtains ws rst where "pending s = ws @ rst" "good_batch cfg ws (combineRecords ws)"
    "start_one cfg s = s\<lparr>pending := rst, queuedRows := queuedRows s - row_count ws,
       activeWrites := activeWrites s + 1,
       underWay := underWay s @ [\<lparr>batch_writes = ws, batch_records = combineRecords ws, batch_phase = Writing\<rparr>],
       outputs := outputs s @ [OutStarted ws (combineRecords ws)]\<rparr>"
proof -
  obtain ws rst where "pending s = ws @ rst"
    "takeBatch cfg s = (ws, s\<lparr>pending := rst, queuedRows := queuedRows s - row_count ws\<rparr>)"
    "good_batch cfg ws (combineRecords ws)"
    by (rule takeBatch_cases [OF assms])
  then show thesis by (intro that [of ws rst]) (simp_all add: start_one_def startWrite_def emit_def)
qed

lemma start_one_counters:
  assumes c: "counters_ok cfg s" and a: "activeWrites s < maxConcurrentWrites cfg" "pending s \<noteq> []"
  shows "counters_ok cfg (start_one cfg s)"
proof -
  obtain ws rst where w: "pending s = ws @ rst" "good_batch cfg ws (combineRecords ws)"
    "start_one cfg s = s\<lparr>pending := rst, queuedRows := queuedRows s - row_count ws,
       activeWrites := activeWrites s + 1,
       underWay := underWay s @ [\<lparr>batch_writes = ws, batch_records = combineRecords ws, batch_phase = Writing\<rparr>],
       outputs := outputs s @ [OutStarted ws (combineRecords ws)]\<rparr>"
    by (rule start_one_cases [OF a(2)])
  have "row_count ws + row_count rst \<le> maxQueuedRows cfg \<or> length ws + length rst \<le> 1"
    using c by (auto simp: counters_ok_def w(1))
  with row_count_nonneg [of ws] have "row_count rst \<le> maxQueuedRows cfg \<or> length rst \<le> 1" by linarith
  then show ?thesis using c a(1) unfolding counters_ok_def w(3) by (auto simp: w(1))
qed

lemma writing_promises_append [simp]: "writing_promises (as @ bs) = writing_promises as @ writing_promises bs"
  by (simp add: writing_promises_def)

lemma start_one_history:
  assumes h: "history_ok cfg s" and a: "pending s \<noteq> []"
  shows "history_ok cfg (start_one cfg s)"
proof -
  obtain ws rst where w: "pending s = ws @ rst" "good_batch cfg ws (combineRecords ws)"
    "start_one cfg s = s\<lparr>pending := rst, queuedRows := queuedRows s - row_count ws,
       activeWrites := activeWrites s + 1,
       underWay := underWay s @ [\<lparr>batch_writes = ws, batch_records = combineRecords ws, batch_phase = Writing\<rparr>],
       outputs := outputs s @ [OutStarted ws (combineRecords ws)]\<rparr>"
    by (rule start_one_cases [OF a])
  have "mset (open_promises (start_one cfg s)) = mset (open_promises s)"
    by (simp add: open_promises_def w writing_promises_def ac_simps)
  moreover have "settled_promises (start_one cfg s) = settled_promises s"
    by (simp add: settled_promises_def w)
  ultimately show ?thesis
    using h w by (simp add: history_ok_def accepted_writes_def started_writes_def)
qed

lemma start_one_same:
  assumes "pending s \<noteq> []"
  shows "queue_closed (start_one cfg s) = queue_closed s" "closeWaiters (start_one cfg s) = closeWaiters s"
    "activeWrites (start_one cfg s) = activeWrites s + 1" "scheduledFlush (start_one cfg s) = scheduledFlush s"
    "nextPromise (start_one cfg s) = nextPromise s" "armedTimers (start_one cfg s) = armedTimers s"
proof -
  obtain ws rst where "start_one cfg s = s\<lparr>pending := rst, queuedRows := queuedRows s - row_count ws,
       activeWrites := activeWrites s + 1,
       underWay := underWay s @ [\<lparr>batch_writes = ws, batch_records = combineRecords ws, batch_phase = Writing\<rparr>],
       outputs := outputs s @ [OutStarted ws (combineRecords ws)]\<rparr>"
    by (rule start_one_cases [OF assms])
  then show "queue_closed (start_one cfg s) = queue_closed s" "closeWaiters (start_one cfg s) = closeWaiters s"
    "activeWrites (start_one cfg s) = activeWrites s + 1" "scheduledFlush (start_one cfg s) = scheduledFlush s"
    "nextPromise (start_one cfg s) = nextPromise s" "armedTimers (start_one cfg s) = armedTimers s"
    by simp_all
qed

lemma start_writes_keeps:
  "counters_ok cfg s \<Longrightarrow> history_ok cfg s \<Longrightarrow>
   counters_ok cfg (start_writes cfg s) \<and> history_ok cfg (start_writes cfg s) \<and>
   queue_closed (start_writes cfg s) = queue_closed s \<and> closeWaiters (start_writes cfg s) = closeWaiters s \<and>
   nextPromise (start_writes cfg s) = nextPromise s"
proof (induction s rule: start_writes_induct [of cfg])
  case (step s)
  then show ?case
    by (subst (1 2 3 4 5) start_writes_unfold) (auto simp: start_one_counters start_one_history start_one_same)
qed

lemma start_writes_closed:
  "queue_closed s \<Longrightarrow> pending (start_writes cfg s) = [] \<or> maxConcurrentWrites cfg \<le> activeWrites (start_writes cfg s)"
proof (induction s rule: start_writes_induct [of cfg])
  case (step s)
  then show ?case
    by (subst (1 2) start_writes_unfold) (auto simp: start_one_same not_less)
qed

lemma startAvailable_keeps:
  assumes "counters_ok cfg s" "history_ok cfg s"
  shows "counters_ok cfg (startAvailableWrites cfg s) \<and> history_ok cfg (startAvailableWrites cfg s) \<and>
    queue_closed (startAvailableWrites cfg s) = queue_closed s \<and>
    closeWaiters (startAvailableWrites cfg s) = closeWaiters s \<and>
    nextPromise (startAvailableWrites cfg s) = nextPromise s"
  using start_writes_keeps [OF assms]
  by (auto simp: startAvailableWrites_def Let_def scheduleFlush_counters scheduleFlush_history)

lemma startAvailable_awake:
  assumes "counters_ok cfg s" "history_ok cfg s" "valid_config cfg"
  shows "awake (startAvailableWrites cfg s)"
proof -
  let ?s = "start_writes cfg s"
  have "counters_ok cfg ?s" using start_writes_keeps assms by blast
  then have "underWay ?s \<noteq> []" if "\<not> activeWrites ?s < maxConcurrentWrites cfg"
    using that assms(3) by (auto simp: counters_ok_def valid_config_def)
  then show ?thesis
    using scheduleFlush_wakes by (auto simp: startAvailableWrites_def awake_def Let_def)
qed

subsection \<open>Every operation keeps the invariant\<close>

lemma mset_upt_Suc: "mset [0..<Suc n] = add_mset n (mset [0..<n])"
  by simp

lemma silent_outputs [simp]:
  "concat (map (accepted_of \<circ> OutClosed) ps) = []" "concat (map (started_of \<circ> OutClosed) ps) = []"
  "concat (map (promise_of \<circ> OutClosed) ps) = ps" "list_all (good_output cfg \<circ> OutClosed) ps"
  "concat (map (accepted_of \<circ> (\<lambda>w. OutSettled (write_promise w) r)) ws) = []"
  "concat (map (started_of \<circ> (\<lambda>w. OutSettled (write_promise w) r)) ws) = []"
  "concat (map (promise_of \<circ> (\<lambda>w. OutSettled (write_promise w) r)) ws) = map write_promise ws"
  "list_all (good_output cfg \<circ> (\<lambda>w. OutSettled (write_promise w) r)) ws"
  by (induction ps) (simp_all, (induction ws, simp_all)+)

lemma settleClose_inv:
  assumes "counters_ok cfg s" "history_ok cfg s"
  shows "counters_ok cfg (settleClose s)" "history_ok cfg (settleClose s)" "closers_ok (settleClose s)"
    "awake (settleClose s) = awake s"
proof -
  show "history_ok cfg (settleClose s)"
    using assms(2) by (auto simp: settleClose_def history_defs emit_def list.pred_map ac_simps)
  show "counters_ok cfg (settleClose s)" "awake (settleClose s) = awake s"
    using assms(1) by (auto simp: settleClose_def counters_ok_def emit_def awake_def)
  show "closers_ok (settleClose s)"
    using assms(1) by (auto simp: settleClose_def closers_ok_def counters_ok_def emit_def)
qed

lemma start_writes_idle:
  "activeWrites s \<le> activeWrites (start_writes cfg s) \<and>
   (activeWrites (start_writes cfg s) = activeWrites s \<longrightarrow> start_writes cfg s = s)"
proof (induction s rule: start_writes_induct [of cfg])
  case (step s)
  then show ?case
    by (subst (1 2 3) start_writes_unfold) (auto simp: start_one_same)
qed

lemma startAvailable_closers:
  assumes "counters_ok cfg s" "history_ok cfg s" "closers_ok s" "0 \<le> activeWrites s"
  shows "closers_ok (startAvailableWrites cfg s)"
proof -
  let ?s = "start_writes cfg s"
  have "start_writes cfg s = s" if "activeWrites ?s = 0"
    using start_writes_idle [of s cfg] that assms(4) by simp
  then show ?thesis
    using assms(3) start_writes_keeps [OF assms(1,2)]
    by (auto simp: startAvailableWrites_def closers_ok_def Let_def)
qed

lemma active_nonneg: "counters_ok cfg s \<Longrightarrow> 0 \<le> activeWrites s"
  by (simp add: counters_ok_def)

lemma startAvailable_inv:
  assumes "counters_ok cfg s" "history_ok cfg s" "closers_ok s" "valid_config cfg"
  shows "queue_inv cfg (startAvailableWrites cfg s)"
  using startAvailable_keeps [OF assms(1,2)] startAvailable_awake [OF assms(1,2,4)]
    startAvailable_closers [OF assms(1-3) active_nonneg [OF assms(1)]]
  by (simp add: queue_inv_def)

lemma new_promise_inv:
  assumes "queue_inv cfg s"
  shows "queue_inv cfg (settled_promise r s)" "queue_inv cfg (closed_promise s)"
proof -
  have "mset (settled_promises s) + mset (open_promises s) = mset [0..<nextPromise s]"
    using assms by (simp add: queue_inv_def history_ok_def)
  then have "mset (settled_promises (settled_promise r s)) + mset (open_promises (settled_promise r s)) =
      mset [0..<Suc (nextPromise s)]"
    "mset (settled_promises (closed_promise s)) + mset (open_promises (closed_promise s)) =
      mset [0..<Suc (nextPromise s)]"
    by (simp_all add: settled_promise_def closed_promise_def emit_def settled_promises_def open_promises_def)
  with assms show "queue_inv cfg (settled_promise r s)" "queue_inv cfg (closed_promise s)"
    by (auto simp: settled_promise_def closed_promise_def queue_inv_def counters_ok_def history_ok_def emit_def
        awake_def closers_ok_def accepted_writes_def started_writes_def)
qed

lemma push_write_inv:
  assumes "counters_ok cfg s" "history_ok cfg s"
    "rs \<noteq> []" "queuedRows s \<le> 0 \<or> queuedRows s + int (length rs) \<le> maxQueuedRows cfg"
  shows "counters_ok cfg (push_write rs s)" "history_ok cfg (push_write rs s)"
proof -
  define w where "w = \<lparr>write_records = rs, write_promise = nextPromise s\<rparr>"
  have push: "push_write rs s = s\<lparr>nextPromise := nextPromise s + 1, pending := pending s @ [w],
      queuedRows := queuedRows s + int (length rs), outputs := outputs s @ [OutAccepted w]\<rparr>"
    and w: "write_records w = rs" "write_promise w = nextPromise s"
    by (simp_all add: push_write_def w_def emit_def Let_def)
  have q: "queuedRows s = row_count (pending s)" using assms(1) by (simp add: counters_ok_def)
  have "pending s = []" if "queuedRows s \<le> 0"
  proof (cases "pending s")
    case (Cons p ps)
    then have "write_records p \<noteq> []" using assms(1) by (simp add: counters_ok_def)
    then have "0 < length (write_records p)" by simp
    with that Cons row_count_nonneg [of ps] q show ?thesis by simp
  qed
  then show "counters_ok cfg (push_write rs s)"
    using assms(1,3,4) w by (auto simp: counters_ok_def push)
  have "mset (settled_promises s) + mset (open_promises s) = mset [0..<nextPromise s]"
    using assms(2) by (simp add: history_ok_def)
  then have "mset (settled_promises (push_write rs s)) + mset (open_promises (push_write rs s)) =
      mset [0..<Suc (nextPromise s)]"
    by (simp add: push settled_promises_def open_promises_def w)
  then show "history_ok cfg (push_write rs s)"
    using assms(2) by (simp add: history_ok_def push accepted_writes_def started_writes_def)
qed

lemma queue_insert_inv:
  assumes cfg: "valid_config cfg" and inv: "queue_inv cfg s"
  shows "queue_inv cfg (queue_insert cfg rs s)"
proof -
  have c: "counters_ok cfg s" and h: "history_ok cfg s"
    using inv by (auto simp: queue_inv_def)
  consider "rs = []" | "rs \<noteq> []" "queue_closed s \<or> (0 < queuedRows s \<and> maxQueuedRows cfg < queuedRows s + int (length rs))"
    | "rs \<noteq> []" "\<not> queue_closed s" "queuedRows s \<le> 0 \<or> queuedRows s + int (length rs) \<le> maxQueuedRows cfg"
    by linarith
  then show ?thesis
  proof cases
    case 3
    define t where "t = push_write rs s"
    have ct: "counters_ok cfg t" and ht: "history_ok cfg t"
      using push_write_inv [OF c h] 3 by (simp_all add: t_def)
    have res: "queue_insert cfg rs s =
        (if activeWrites t < maxConcurrentWrites cfg \<and> length (pending t) = 1 then startAvailableWrites cfg t
         else scheduleFlush cfg (if maxBatchRows cfg \<le> queuedRows t then 0 else flushDelayMs cfg) t)"
      using 3 by (auto simp: queue_insert_def Let_def t_def)
    have ne: "pending t \<noteq> []" by (simp add: t_def push_write_def emit_def Let_def)
    have cw: "closeWaiters t = []" using c 3 by (simp add: counters_ok_def t_def push_write_def emit_def Let_def)
    then have clt: "closers_ok t" by (simp add: closers_ok_def)
    show ?thesis
    proof (cases "activeWrites t < maxConcurrentWrites cfg \<and> length (pending t) = 1")
      case True
      with startAvailable_inv [OF ct ht clt cfg] show ?thesis by (simp add: res)
    next
      case False
      have "underWay t \<noteq> []" if "maxConcurrentWrites cfg \<le> activeWrites t"
        using that ct cfg by (auto simp: counters_ok_def valid_config_def)
      then have "awake (scheduleFlush cfg d t)" for d
        using scheduleFlush_wakes [OF ne] by (fastforce simp: awake_def not_less)
      with ct ht clt show ?thesis
        unfolding res if_not_P [OF False]
        by (simp add: queue_inv_def closers_ok_def scheduleFlush_counters scheduleFlush_history)
    qed
  qed (use inv in \<open>simp_all add: queue_insert_def new_promise_inv\<close>)
qed

lemma cancel_scheduled:
  assumes "counters_ok cfg s"
  shows "scheduledFlush s = Some h \<Longrightarrow> counters_ok cfg ((cancel_timer h s)\<lparr>scheduledFlush := None\<rparr>)"
    "h \<in> fst ` set (armedTimers s) \<Longrightarrow> scheduledFlush s = Some h"
proof -
  have m: "map fst (armedTimers s) = (case scheduledFlush s of None \<Rightarrow> [] | Some h \<Rightarrow> [h])"
    using assms by (simp add: counters_ok_def)
  then show "h \<in> fst ` set (armedTimers s) \<Longrightarrow> scheduledFlush s = Some h"
    by (auto split: option.splits simp flip: set_map)
  assume "scheduledFlush s = Some h"
  with m have "filter (\<lambda>t. fst t \<noteq> h) (armedTimers s) = []" by (auto simp: map_eq_Cons_conv)
  with assms show "counters_ok cfg ((cancel_timer h s)\<lparr>scheduledFlush := None\<rparr>)"
    by (auto simp: counters_ok_def cancel_timer_def)
qed

lemma timer_fires_inv:
  assumes cfg: "valid_config cfg" and inv: "queue_inv cfg s" and h: "h \<in> fst ` set (armedTimers s)"
  shows "queue_inv cfg (timer_fires cfg h s)"
proof -
  let ?t = "(cancel_timer h s)\<lparr>scheduledFlush := None\<rparr>"
  have c: "counters_ok cfg s" and hi: "history_ok cfg s" and cl: "closers_ok s"
    using inv by (auto simp: queue_inv_def)
  have ct: "counters_ok cfg ?t" using cancel_scheduled [OF c] h by blast
  have ht: "history_ok cfg ?t" using hi by (simp add: history_defs cancel_timer_def)
  have "closers_ok ?t" using cl by (simp add: closers_ok_def cancel_timer_def)
  from startAvailable_inv [OF ct ht this cfg] show ?thesis by (simp add: timer_fires_def)
qed

lemma cancel_flush_inv:
  assumes "queue_inv cfg s"
  defines "t \<equiv> cancel_flush (s\<lparr>queue_closed := True\<rparr>)"
  shows "counters_ok cfg t" "history_ok cfg t" "closers_ok t" "queue_closed t"
proof -
  have "counters_ok cfg (s\<lparr>queue_closed := True\<rparr>)"
    using assms(1) by (auto simp: queue_inv_def counters_ok_def)
  then show "counters_ok cfg t"
    using cancel_scheduled(1) [of cfg "s\<lparr>queue_closed := True\<rparr>"]
    by (cases "scheduledFlush s") (simp_all add: t_def cancel_flush_def)
  show "history_ok cfg t" "closers_ok t" "queue_closed t"
    using assms(1)
    by (auto simp: t_def queue_inv_def cancel_flush_def cancel_timer_def history_defs closers_ok_def split: option.splits)
qed

lemma queue_close_inv:
  assumes cfg: "valid_config cfg" and inv: "queue_inv cfg s"
  shows "queue_inv cfg (queue_close cfg s)"
proof (cases "queue_closed s \<and> pending s = [] \<and> activeWrites s = 0")
  case True
  then show ?thesis using inv by (simp add: queue_close_def new_promise_inv)
next
  case False
  define t where "t = cancel_flush (s\<lparr>queue_closed := True\<rparr>)"
  note t = cancel_flush_inv [OF inv, folded t_def]
  define u where "u = startAvailableWrites cfg t"
  have u: "queue_inv cfg u" using startAvailable_inv [OF t(1-3) cfg] by (simp add: u_def)
  have qc: "queue_closed u" using startAvailable_keeps [OF t(1,2)] t(4) by (simp add: u_def)
  have close: "queue_close cfg s = (if pending u = [] \<and> activeWrites u = 0 then closed_promise u
      else u\<lparr>closeWaiters := closeWaiters u @ [nextPromise u], nextPromise := nextPromise u + 1\<rparr>)"
    using False by (auto simp: queue_close_def Let_def u_def t_def)
  show ?thesis
  proof (cases "pending u = [] \<and> activeWrites u = 0")
    case True
    then show ?thesis using u by (simp add: close new_promise_inv)
  next
    case False
    have "mset (settled_promises u) + mset (open_promises u) = mset [0..<nextPromise u]"
      using u by (simp add: queue_inv_def history_ok_def)
    moreover have "mset [0..<Suc (nextPromise u)] = add_mset (nextPromise u) (mset [0..<nextPromise u])"
      by simp
    ultimately have "history_ok cfg (queue_close cfg s)"
      using u unfolding close if_not_P [OF False] by (simp add: queue_inv_def history_defs del: mset_upt)
    with False u qc show ?thesis
      unfolding close if_not_P [OF False]
      by (auto simp: queue_inv_def counters_ok_def awake_def closers_ok_def)
  qed
qed

lemma writing_settles:
  assumes "i < length bs" "batch_phase (bs ! i) = Writing"
  shows "mset (writing_promises bs) = mset (map write_promise (batch_writes (bs ! i))) +
    mset (writing_promises (bs[i := (bs ! i)\<lparr>batch_phase := Settled\<rparr>]))"
  using assms by (subst id_take_nth_drop [OF assms(1)]) (simp add: upd_conv_take_nth_drop writing_promises_def)

lemma write_settles_inv:
  assumes inv: "queue_inv cfg s" and i: "i < length (underWay s)" "batch_phase (underWay s ! i) = Writing"
  shows "queue_inv cfg (write_settles i result s)"
proof -
  have "mset (settled_promises (write_settles i result s)) + mset (open_promises (write_settles i result s)) =
      mset (settled_promises s) + mset (open_promises s)"
    using writing_settles [OF i]
    by (simp add: write_settles_def Let_def emit_def settled_promises_def open_promises_def)
  with inv show ?thesis
    by (auto simp: write_settles_def Let_def emit_def queue_inv_def counters_ok_def history_ok_def awake_def
        closers_ok_def accepted_writes_def started_writes_def list.pred_map simp flip: length_greater_0_conv)
qed

lemma write_finishes_inv:
  assumes cfg: "valid_config cfg" and inv: "queue_inv cfg s"
    and i: "i < length (underWay s)" "batch_phase (underWay s ! i) = Settled"
  shows "queue_inv cfg (write_finishes cfg i s)"
proof -
  define t where "t = s\<lparr>underWay := take i (underWay s) @ drop (i + 1) (underWay s),
      activeWrites := activeWrites s - 1\<rparr>"
  define u where "u = (if pending t \<noteq> [] then scheduleFlush cfg (flush_delay cfg t) t else t)"
  have fin: "write_finishes cfg i s = settleClose u"
    by (simp add: write_finishes_def t_def u_def Let_def)
  have ct: "counters_ok cfg t"
    using inv i by (auto simp: t_def queue_inv_def counters_ok_def)
  have "writing_promises (underWay t) = writing_promises (underWay s)"
    unfolding t_def by (subst (3) id_take_nth_drop [OF i(1)]) (simp add: writing_promises_def i(2))
  then have ht: "history_ok cfg t"
    using inv by (simp add: t_def queue_inv_def history_defs)
  have "activeWrites t < maxConcurrentWrites cfg"
    using inv by (auto simp: t_def queue_inv_def counters_ok_def)
  then have "awake u"
    using scheduleFlush_wakes [of t cfg] by (auto simp: u_def awake_def)
  moreover have "counters_ok cfg u" and "history_ok cfg u"
    using ct ht by (simp_all add: u_def scheduleFlush_counters scheduleFlush_history)
  note settleClose_inv [OF this]
  ultimately show ?thesis by (simp add: fin queue_inv_def)
qed

lemma initial_queue_inv: "valid_config cfg \<Longrightarrow> queue_inv cfg initial_queue"
  by (simp add: initial_queue_def queue_inv_def counters_ok_def history_defs awake_def closers_ok_def
      valid_config_def writing_promises_def)

lemma queue_step_inv: "valid_config cfg \<Longrightarrow> queue_inv cfg s \<Longrightarrow> queue_step cfg s t \<Longrightarrow> queue_inv cfg t"
  by (erule queue_stepE)
    (auto intro: queue_insert_inv queue_close_inv timer_fires_inv write_settles_inv write_finishes_inv)

interpretation write_queue: invariant_machine "\<lambda>s. valid_config cfg \<and> s = initial_queue" "queue_step cfg"
    "\<lambda>s. valid_config cfg \<and> queue_inv cfg s" for cfg
  by unfold_locales (auto intro: initial_queue_inv queue_step_inv)

subsection \<open>Draining\<close>

text \<open>
  The work left: a queued write has to be started, settled and finished, and finishing may arm
  the timer once more.
\<close>

definition remaining_work :: "'r batch_state \<Rightarrow> nat" where
  "remaining_work s = 4 * length (pending s) + length (armedTimers s) +
     sum_list (map (\<lambda>b. if batch_phase b = Writing then 3 else 2) (underWay s))"

definition at_rest :: "'r batch_state \<Rightarrow> bool" where
  "at_rest s \<longleftrightarrow> pending s = [] \<and> underWay s = [] \<and> armedTimers s = []"

lemma queue_move_step: "queue_move cfg s t \<Longrightarrow> queue_step cfg s t"
  by (erule queue_moveE) (auto intro: queue_step.intros)

lemma queue_progress: "queue_inv cfg s \<Longrightarrow> \<not> at_rest s \<Longrightarrow> \<exists>t. queue_move cfg s t"
proof -
  assume inv: "queue_inv cfg s" and nr: "\<not> at_rest s"
  have arm: "map fst (armedTimers s) = (case scheduledFlush s of None \<Rightarrow> [] | Some h \<Rightarrow> [h])"
    using inv by (simp add: queue_inv_def counters_ok_def)
  have "armedTimers s \<noteq> [] \<or> underWay s \<noteq> []"
    using inv nr arm by (auto simp: at_rest_def queue_inv_def awake_def split: option.splits)
  then show ?thesis
  proof
    assume "armedTimers s \<noteq> []"
    then have "fst (hd (armedTimers s)) \<in> fst ` set (armedTimers s)" by simp
    then show ?thesis by (blast intro: queue_move.intros)
  next
    assume "underWay s \<noteq> []"
    then have "0 < length (underWay s)" by simp
    then show ?thesis by (cases "batch_phase (underWay s ! 0)") (blast intro: queue_move.intros)+
  qed
qed

lemma start_one_work: "pending s \<noteq> [] \<Longrightarrow> remaining_work (start_one cfg s) < remaining_work s"
proof -
  assume a: "pending s \<noteq> []"
  obtain ws rst where w: "pending s = ws @ rst" "good_batch cfg ws (combineRecords ws)"
    "start_one cfg s = s\<lparr>pending := rst, queuedRows := queuedRows s - row_count ws,
       activeWrites := activeWrites s + 1,
       underWay := underWay s @ [\<lparr>batch_writes = ws, batch_records = combineRecords ws, batch_phase = Writing\<rparr>],
       outputs := outputs s @ [OutStarted ws (combineRecords ws)]\<rparr>"
    by (rule start_one_cases [OF a])
  from w(2) obtain v vs where "ws = v # vs" by (cases ws) (auto simp: good_batch_def)
  then show ?thesis by (simp add: remaining_work_def w)
qed

lemma start_writes_work: "remaining_work (start_writes cfg s) \<le> remaining_work s"
proof (induction s rule: start_writes_induct [of cfg])
  case (step s)
  then show ?case
    using start_one_work [of s cfg] by (subst start_writes_unfold) fastforce
qed

lemma scheduleFlush_work: "scheduledFlush s = None \<Longrightarrow> remaining_work (scheduleFlush cfg d s) \<le> remaining_work s + 1"
  by (auto simp: scheduleFlush_def arm_timer_def remaining_work_def)

lemma scheduleFlush_work_armed:
  assumes "counters_ok cfg s" "scheduledFlush s \<noteq> None"
  shows "remaining_work (scheduleFlush cfg d s) \<le> remaining_work s"
proof -
  obtain h where h: "scheduledFlush s = Some h" using assms(2) by blast
  then obtain d' where "armedTimers s = [(h, d')]" using assms(1) by (auto simp: counters_ok_def map_eq_Cons_conv)
  with h show ?thesis by (simp add: scheduleFlush_def arm_timer_def cancel_timer_def remaining_work_def)
qed

lemma settleClose_work: "remaining_work (settleClose s) = remaining_work s"
  by (simp add: settleClose_def emit_def remaining_work_def)

text \<open>On a closed queue the flush starts all it can, so it does not arm the timer again.\<close>

lemma closed_flush_work:
  assumes "queue_closed s"
  shows "remaining_work (startAvailableWrites cfg s) \<le> remaining_work s"
  using start_writes_closed [OF assms, of cfg] start_writes_work [of cfg s]
  by (auto simp: startAvailableWrites_def Let_def)

lemma timer_fires_work:
  assumes inv: "queue_inv cfg s" and cl: "queue_closed s" and h: "h \<in> fst ` set (armedTimers s)"
  shows "remaining_work (timer_fires cfg h s) < remaining_work s"
proof -
  have c: "counters_ok cfg s" using inv by (simp add: queue_inv_def)
  from cancel_scheduled(2) [OF c h] obtain d where "armedTimers s = [(h, d)]"
    using c by (auto simp: counters_ok_def map_eq_Cons_conv)
  then have "remaining_work ((cancel_timer h s)\<lparr>scheduledFlush := None\<rparr>) < remaining_work s"
    by (simp add: remaining_work_def cancel_timer_def)
  moreover have "remaining_work (timer_fires cfg h s) \<le> remaining_work ((cancel_timer h s)\<lparr>scheduledFlush := None\<rparr>)"
    unfolding timer_fires_def using cl by (intro closed_flush_work) (simp add: cancel_timer_def)
  ultimately show ?thesis by simp
qed

definition phase_work :: "'r batch_write list \<Rightarrow> nat" where
  "phase_work bs = sum_list (map (\<lambda>b. if batch_phase b = Writing then 3 else 2) bs)"

lemma phase_work_split:
  "i < length bs \<Longrightarrow> phase_work bs =
    phase_work (take i bs) + (if batch_phase (bs ! i) = Writing then 3 else 2) + phase_work (drop (i + 1) bs)"
  by (subst (1) id_take_nth_drop [of i bs]) (simp_all add: phase_work_def)

lemma write_settles_work:
  assumes "i < length (underWay s)" "batch_phase (underWay s ! i) = Writing"
  shows "remaining_work (write_settles i result s) < remaining_work s"
proof -
  let ?b = "(underWay s ! i)\<lparr>batch_phase := Settled\<rparr>"
  have "phase_work ((underWay s)[i := ?b]) < phase_work (underWay s)"
    using phase_work_split [of i "underWay s"] phase_work_split [of i "(underWay s)[i := ?b]"] assms by simp
  then show ?thesis
    by (simp add: remaining_work_def write_settles_def Let_def emit_def flip: phase_work_def)
qed

lemma write_finishes_work:
  assumes inv: "queue_inv cfg s" and i: "i < length (underWay s)" "batch_phase (underWay s ! i) = Settled"
  shows "remaining_work (write_finishes cfg i s) < remaining_work s"
proof -
  define u where "u = s\<lparr>underWay := take i (underWay s) @ drop (i + 1) (underWay s),
      activeWrites := activeWrites s - 1\<rparr>"
  define v where "v = (if pending u \<noteq> [] then scheduleFlush cfg (flush_delay cfg u) u else u)"
  have "counters_ok cfg u" using inv i by (auto simp: u_def queue_inv_def counters_ok_def)
  then have "remaining_work (scheduleFlush cfg d u) \<le> remaining_work u + 1" for d
    using scheduleFlush_work [of u cfg d] scheduleFlush_work_armed [of cfg u d]
    by (cases "scheduledFlush u") auto
  then have "remaining_work v \<le> remaining_work u + 1" by (simp add: v_def)
  moreover have "remaining_work u + 2 = remaining_work s"
    using phase_work_split [OF i(1)] i(2)
    by (simp add: remaining_work_def u_def phase_work_def [symmetric])
  moreover have "write_finishes cfg i s = settleClose v"
    by (simp add: write_finishes_def Let_def u_def v_def)
  ultimately show ?thesis by (simp add: settleClose_work)
qed

lemma queue_move_work:
  "queue_inv cfg s \<Longrightarrow> queue_closed s \<Longrightarrow> queue_move cfg s t \<Longrightarrow> remaining_work t < remaining_work s"
  by (erule queue_moveE) (simp_all only: timer_fires_work write_settles_work write_finishes_work)

lemma timer_fires_closed:
  assumes "queue_inv cfg s" "queue_closed s" "h \<in> fst ` set (armedTimers s)"
  shows "queue_closed (timer_fires cfg h s)"
proof -
  let ?t = "(cancel_timer h s)\<lparr>scheduledFlush := None\<rparr>"
  have "counters_ok cfg ?t" "history_ok cfg ?t"
    using assms cancel_scheduled [of cfg s h] by (auto simp: queue_inv_def history_defs cancel_timer_def)
  from startAvailable_keeps [OF this] assms(2) show ?thesis
    unfolding timer_fires_def by (simp add: cancel_timer_def)
qed

lemma queue_move_closed: "queue_inv cfg s \<Longrightarrow> queue_closed s \<Longrightarrow> queue_move cfg s t \<Longrightarrow> queue_closed t"
  by (erule queue_moveE)
    (auto simp: timer_fires_closed write_settles_def write_finishes_def settleClose_def emit_def Let_def)

interpretation write_queue: draining_machine "\<lambda>s. valid_config cfg \<and> s = initial_queue" "queue_step cfg"
    "\<lambda>s. valid_config cfg \<and> queue_inv cfg s" "queue_move cfg" queue_closed at_rest remaining_work for cfg
  by unfold_locales (auto intro: queue_move_step queue_progress queue_move_work queue_move_closed)

subsection \<open>Accepted options\<close>

lemma readPositiveInteger_pos: "readPositiveInteger v d = Inr n \<Longrightarrow> 1 \<le> n"
  by (auto simp: readPositiveInteger_def split: option.splits if_splits)

lemma readDelay_nonneg: "readDelay v = Inr n \<Longrightarrow> 0 \<le> n"
  by (auto simp: readDelay_def split: option.splits if_splits)

lemma read_batch_config_valid: "read_batch_config d b q c = Inr cfg \<Longrightarrow> valid_config cfg"
  by (auto simp: read_batch_config_def valid_config_def split: sum.splits
      dest: readPositiveInteger_pos readDelay_nonneg)

subsection \<open>Properties\<close>

text \<open>
  C9. In every reachable state of the write queue, whatever the order of inserts, closes,
  timers and finished writes: the row counter is the number of queued rows; it stays within its
  limit unless a single oversized write waits alone; no more writes run at once than allowed; at
  most one timer is armed, the one the queue knows; and a waiting write is never forgotten, for
  there is an armed timer or a running write that will start it.
\<close>

theorem write_queue_bounded_and_awake:
  assumes "read_batch_config delay batchRows queueRows concurrent = Inr cfg" "(queue_step cfg)\<^sup>*\<^sup>* initial_queue s"
  shows "queuedRows s = row_count (pending s) \<and>
    (queuedRows s \<le> maxQueuedRows cfg \<or> length (pending s) \<le> 1) \<and>
    activeWrites s = int (length (underWay s)) \<and> activeWrites s \<le> maxConcurrentWrites cfg \<and>
    map fst (armedTimers s) = (case scheduledFlush s of None \<Rightarrow> [] | Some h \<Rightarrow> [h]) \<and>
    (pending s \<noteq> [] \<longrightarrow> scheduledFlush s \<noteq> None \<or> underWay s \<noteq> [])"
proof -
  have "queue_inv cfg s" using write_queue.reachable_inv [of cfg initial_queue s] read_batch_config_valid [OF assms(1)] assms(2) by blast
  then show ?thesis by (auto simp: queue_inv_def counters_ok_def awake_def)
qed

definition small_queue :: batch_config where
  "small_queue = \<lparr>flushDelayMs = 2, maxBatchRows = 2, maxQueuedRows = 3, maxConcurrentWrites = 1\<rparr>"

lemma small_queue_valid: "read_batch_config (jint 2) (jint 2) (jint 3) (jint 1) = Inr small_queue"
  by (simp add: small_queue_def read_batch_config_def readDelay_def readPositiveInteger_def
      safe_int_def max_safe_integer_def)

text \<open>Three inserts: the first starts a write, the others wait.\<close>

definition busy_queue :: "nat batch_state" where
  "busy_queue = queue_insert small_queue [3] (queue_insert small_queue [2] (queue_insert small_queue [1] initial_queue))"

lemma busy_queue_reachable: "(queue_step small_queue)\<^sup>*\<^sup>* initial_queue busy_queue"
  unfolding busy_queue_def
  by (rule rtranclp.rtrancl_into_rtrancl, rule rtranclp.rtrancl_into_rtrancl,
      rule rtranclp.rtrancl_into_rtrancl, rule rtranclp.rtrancl_refl) (rule Insert)+

theorem write_queue_bounded_and_awake_witness:
  "queuedRows busy_queue = 2 \<and> activeWrites busy_queue = 1 \<and> pending busy_queue \<noteq> [] \<and>
   \<not> (scheduledFlush busy_queue = None \<and> underWay busy_queue = [])"
proof -
  have "pending busy_queue = [\<lparr>write_records = [2], write_promise = 1\<rparr>, \<lparr>write_records = [3], write_promise = 2\<rparr>]"
    "activeWrites busy_queue = 1" by code_simp+
  with write_queue_bounded_and_awake [OF small_queue_valid busy_queue_reachable] show ?thesis
    by (auto simp: row_count_def)
qed

text \<open>
  C7. The queue loses, duplicates and reorders nothing: in every reachable state the accepted
  writes are, in order, those of the batches started so far followed by those still queued;
  every started batch is not empty, holds at most \<open>maxBatchRows\<close> rows unless it is one write,
  and was written as the concatenation of its writes' records.
\<close>

theorem write_queue_fifo:
  assumes "read_batch_config delay batchRows queueRows concurrent = Inr cfg" "(queue_step cfg)\<^sup>*\<^sup>* initial_queue s"
  shows "accepted_writes s = started_writes s @ pending s \<and>
    (\<forall>ws rs. OutStarted ws rs \<in> set (outputs s) \<longrightarrow>
       ws \<noteq> [] \<and> (row_count ws \<le> maxBatchRows cfg \<or> length ws = 1) \<and> rs = concat (map write_records ws))"
proof -
  have "queue_inv cfg s" using write_queue.reachable_inv [of cfg initial_queue s] read_batch_config_valid [OF assms(1)] assms(2) by blast
  then show ?thesis by (fastforce simp: queue_inv_def history_ok_def list_all_iff good_batch_def)
qed

theorem write_queue_fifo_witness:
  "accepted_writes busy_queue = started_writes busy_queue @ pending busy_queue \<and>
   length (accepted_writes busy_queue) = 3"
proof -
  have "length (accepted_writes busy_queue) = 3" by code_simp
  with write_queue_fifo [OF small_queue_valid busy_queue_reachable] show ?thesis by simp
qed

text \<open>
  C8. Every promise the queue returned is in exactly one place: settled once, waiting for
  \<open>close\<close>, queued, or part of a batch being written. So no caller is settled twice and none is
  dropped.
\<close>

theorem write_queue_settles_each_promise_once:
  assumes "read_batch_config delay batchRows queueRows concurrent = Inr cfg" "(queue_step cfg)\<^sup>*\<^sup>* initial_queue s"
  shows "mset (settled_promises s) + mset (open_promises s) = mset [0..<nextPromise s]"
proof -
  have "queue_inv cfg s" using write_queue.reachable_inv [of cfg initial_queue s] read_batch_config_valid [OF assms(1)] assms(2) by blast
  then show ?thesis by (simp add: queue_inv_def history_ok_def)
qed

theorem write_queue_settles_each_promise_once_witness:
  "mset (settled_promises busy_queue) + mset (open_promises busy_queue) = mset [0, 1, 2]"
proof -
  have "nextPromise busy_queue = 3" by code_simp
  with write_queue_settles_each_promise_once [OF small_queue_valid busy_queue_reachable] show ?thesis
    by (simp add: upt_conv_Cons)
qed

text \<open>
  C6. Shutdown drains: once \<open>close\<close> was called, from any reachable state, timers firing and
  writes finishing in any order and with any results can happen at most \<open>remaining_work\<close> times,
  and when nothing more can happen the queue is empty, no write is running, and every promise
  ever returned, those of \<open>close\<close> included, is settled exactly once.
\<close>

theorem write_queue_drains:
  assumes "read_batch_config delay batchRows queueRows concurrent = Inr cfg" "(queue_step cfg)\<^sup>*\<^sup>* initial_queue s" "queue_closed s"
    "(queue_move cfg ^^ n) s t"
  shows "n \<le> remaining_work s \<and>
    ((\<nexists>u. queue_move cfg t u) \<longrightarrow>
      pending t = [] \<and> underWay t = [] \<and> mset (settled_promises t) = mset [0..<nextPromise t])"
proof -
  have inv: "valid_config cfg \<and> queue_inv cfg s"
    using write_queue.reachable_inv [of cfg initial_queue s] read_batch_config_valid [OF assms(1)] assms(2) by blast
  note run = write_queue.run_bound [OF assms(4) inv assms(3)]
  have "pending t = [] \<and> underWay t = [] \<and> mset (settled_promises t) = mset [0..<nextPromise t]"
    if "\<nexists>u. queue_move cfg t u"
  proof -
    have "at_rest t" using write_queue.stuck_rests [OF assms(4) inv assms(3) that] .
    moreover from this have "closeWaiters t = []"
      using run by (auto simp: queue_inv_def closers_ok_def counters_ok_def at_rest_def)
    ultimately show ?thesis
      using run by (auto simp: queue_inv_def history_ok_def at_rest_def open_promises_def writing_promises_def)
  qed
  with run show ?thesis by auto
qed

definition closing_queue :: "nat batch_state" where
  "closing_queue = queue_close small_queue busy_queue"

theorem write_queue_drains_witness:
  "queue_closed closing_queue \<and> {n. \<exists>t. (queue_move small_queue ^^ n) closing_queue t} \<subseteq> {..11}"
proof -
  have c: "queue_closed closing_queue" and w: "remaining_work closing_queue = 11" by code_simp+
  have "(queue_step small_queue)\<^sup>*\<^sup>* initial_queue closing_queue"
    unfolding closing_queue_def
    by (rule rtranclp.rtrancl_into_rtrancl [OF busy_queue_reachable Close])
  from write_queue_drains [OF small_queue_valid this c] c w show ?thesis by auto
qed

end
