(* ===== verification/QueryParams.thy ===== *)
theory QueryParams
  imports LogEntry JsArray
begin

section \<open>Query parameters (\<open>src/modules/query/query-parameter-parser.ts\<close>)\<close>

text \<open>
  The parser of the filters, limit and cursor of \<open>GET /logs\<close>, check by check; the query object
  may have repeated parameters (arrays), accessors and properties that are not enumerable. The
  lemmas give the invariant of parsed filters and show that parsing a query written from such
  filters gives them back.
\<close>

subsection \<open>Data\<close>

definition ATTRIBUTE_PREFIX :: jsstr where "ATTRIBUTE_PREFIX = js ''attr.''"
definition DEFAULT_LIMIT :: int where "DEFAULT_LIMIT = 100"
definition MINIMUM_LIMIT :: int where "MINIMUM_LIMIT = 1"
definition MAXIMUM_LIMIT :: int where "MAXIMUM_LIMIT = 1000"

datatype query_error =
    QueryObject | ServiceDuplicate | QServiceString | QServiceNul | LevelDuplicate | QLevelString
  | QLevelValue | SinceDuplicate | SinceTimestamp | UntilDuplicate | UntilTimestamp | RangeError
  | QAttributeKey | AttributeDuplicate | AttributeString | QAttributeKeyNul | QAttributeValueNul
  | QDuplicate | QString | QNul | LimitDuplicate | LimitValue | CursorDuplicate | CursorValue

fun ERRORS :: "query_error \<Rightarrow> jsstr" where
  "ERRORS QueryObject = js ''Query parameters must be a non-null object.''"
| "ERRORS ServiceDuplicate = js ''Query parameter 'service' must appear at most once.''"
| "ERRORS QServiceString = js ''Query parameter 'service' must be a string.''"
| "ERRORS QServiceNul = js ''Query parameter 'service' must not contain U+0000.''"
| "ERRORS LevelDuplicate = js ''Query parameter 'level' must appear at most once.''"
| "ERRORS QLevelString = js ''Query parameter 'level' must be a string.''"
| "ERRORS QLevelValue = js ''Query parameter 'level' must be one of debug, info, warn, or error.''"
| "ERRORS SinceDuplicate = js ''Query parameter 'since' must appear at most once.''"
| "ERRORS SinceTimestamp =
     js ''Query parameter 'since' must be a valid timezone-bearing ISO 8601 date-time.''"
| "ERRORS UntilDuplicate = js ''Query parameter 'until' must appear at most once.''"
| "ERRORS UntilTimestamp =
     js ''Query parameter 'until' must be a valid timezone-bearing ISO 8601 date-time.''"
| "ERRORS RangeError = js ''Query parameter 'until' must not be earlier than 'since'.''"
| "ERRORS QAttributeKey = js ''Attribute query parameters must include a non-empty key after 'attr.'.''"
| "ERRORS AttributeDuplicate = js ''Each attribute query key must appear at most once.''"
| "ERRORS AttributeString = js ''Attribute query parameter values must be strings.''"
| "ERRORS QAttributeKeyNul = js ''Attribute query keys must not contain U+0000.''"
| "ERRORS QAttributeValueNul = js ''Attribute query values must not contain U+0000.''"
| "ERRORS QDuplicate = js ''Query parameter 'q' must appear at most once.''"
| "ERRORS QString = js ''Query parameter 'q' must be a string.''"
| "ERRORS QNul = js ''Query parameter 'q' must not contain U+0000.''"
| "ERRORS LimitDuplicate = js ''Query parameter 'limit' must appear at most once.''"
| "ERRORS LimitValue = js ''Query parameter 'limit' must be a base-10 integer from 1 to 1000.''"
| "ERRORS CursorDuplicate = js ''Query parameter 'cursor' must appear at most once.''"
| "ERRORS CursorValue = js ''Query parameter 'cursor' must be a non-empty string.''"

record AttributeFilter =
  attr_key :: jsstr
  attr_value :: jsstr

record LogFilters =
  filter_service :: "jsstr option"
  filter_level :: "jsstr option"
  filter_since :: "jsstr option"
  filter_until :: "jsstr option"
  filter_attributes :: "AttributeFilter list"
  filter_q :: "jsstr option"

record ParsedLogListQuery =
  query_filters :: LogFilters
  query_limit :: int
  query_cursor :: "jsstr option"

type_synonym 'a QueryParseResult = "jsstr + 'a"

subsection \<open>Reading\<close>

text \<open>\<open>ScalarReadResult\<close>: the failure, or the value if there is one.\<close>

type_synonym ScalarReadResult = "jsstr + jsstr option"

definition readScalar :: "jsval \<Rightarrow> jsstr \<Rightarrow> query_error \<Rightarrow> query_error \<Rightarrow> ScalarReadResult" where
  "readScalar query key duplicateMessage invalidMessage =
     (case own_descriptor query key of
        None \<Rightarrow> Inr None
      | Some p \<Rightarrow>
          if \<not> enumerable p then Inr None
          else case p of
              AccProp v e \<Rightarrow> Inl (ERRORS invalidMessage)
            | DataProp v e \<Rightarrow>
                (case v of JArr vs \<Rightarrow> Inl (ERRORS duplicateMessage)
                 | JStr s \<Rightarrow> Inr (Some s)
                 | _ \<Rightarrow> Inl (ERRORS invalidMessage)))"

definition parseOptionalTimestamp ::
    "jsval \<Rightarrow> jsstr \<Rightarrow> query_error \<Rightarrow> query_error \<Rightarrow> parsed_timestamp option QueryParseResult" where
  "parseOptionalTimestamp query key duplicateMessage invalidMessage =
     (case readScalar query key duplicateMessage invalidMessage of
        Inl e \<Rightarrow> Inl e
      | Inr None \<Rightarrow> Inr None
      | Inr (Some v) \<Rightarrow>
          (case parseCanonicalTimestamp v of
             Inl k \<Rightarrow> Inl (ERRORS invalidMessage)
           | Inr ts \<Rightarrow> Inr (Some ts)))"

text \<open>The loop over the sorted attribute parameter names, with the filters so far.\<close>

fun read_attributes :: "jsval \<Rightarrow> jsstr list \<Rightarrow> AttributeFilter list \<Rightarrow> AttributeFilter list QueryParseResult" where
  "read_attributes query [] attrs = Inr attrs"
| "read_attributes query (name # names) attrs =
     (let key = drop (length ATTRIBUTE_PREFIX) name
      in if key = [] then Inl (ERRORS QAttributeKey)
         else if contains_nul key then Inl (ERRORS QAttributeKeyNul)
         else case readScalar query name AttributeDuplicate AttributeString of
             Inl e \<Rightarrow> Inl e
           | Inr None \<Rightarrow> read_attributes query names attrs
           | Inr (Some v) \<Rightarrow>
               if contains_nul v then Inl (ERRORS QAttributeValueNul)
               else read_attributes query names (attrs @ [\<lparr>attr_key = key, attr_value = v\<rparr>]))"

definition parseAttributeFilters :: "jsval \<Rightarrow> AttributeFilter list QueryParseResult" where
  "parseAttributeFilters query =
     read_attributes query
       (sort_with compare_units (filter (starts_with ATTRIBUTE_PREFIX) (object_keys query))) []"

definition range_error :: "parsed_timestamp option \<Rightarrow> parsed_timestamp option \<Rightarrow> bool" where
  "range_error since until =
     (case (since, until) of (Some s, Some u) \<Rightarrow> compareParsedTimestamps u s < 0 | _ \<Rightarrow> False)"

definition option_any :: "('a \<Rightarrow> bool) \<Rightarrow> 'a option \<Rightarrow> bool" where
  "option_any P v = (case v of Some a \<Rightarrow> P a | None \<Rightarrow> False)"

definition parseLogFilters :: "jsval \<Rightarrow> LogFilters QueryParseResult" where
  "parseLogFilters input =
     (if \<not> is_record input then Inl (ERRORS QueryObject)
      else case readScalar input (js ''service'') ServiceDuplicate QServiceString of Inl e \<Rightarrow> Inl e
      | Inr srv \<Rightarrow>
        if option_any contains_nul srv then Inl (ERRORS QServiceNul)
        else case readScalar input (js ''level'') LevelDuplicate QLevelString of Inl e \<Rightarrow> Inl e
        | Inr lev \<Rightarrow>
          if option_any (\<lambda>l. \<not> isLogLevel l) lev then Inl (ERRORS QLevelValue)
          else case parseOptionalTimestamp input (js ''since'') SinceDuplicate SinceTimestamp of Inl e \<Rightarrow> Inl e
          | Inr since \<Rightarrow>
            (case parseOptionalTimestamp input (js ''until'') UntilDuplicate UntilTimestamp of Inl e \<Rightarrow> Inl e
             | Inr until \<Rightarrow>
               if range_error since until then Inl (ERRORS RangeError)
               else case parseAttributeFilters input of Inl e \<Rightarrow> Inl e
               | Inr attrs \<Rightarrow>
                 (case readScalar input (js ''q'') QDuplicate QString of Inl e \<Rightarrow> Inl e
                  | Inr q \<Rightarrow>
                    if option_any contains_nul q then Inl (ERRORS QNul)
                    else Inr \<lparr>filter_service = srv, filter_level = lev,
                      filter_since = map_option canonical since, filter_until = map_option canonical until,
                      filter_attributes = attrs, filter_q = (if q = Some [] then None else q)\<rparr>)))"

text \<open>\<open>/^[0-9]+$/\<close> and \<open>Number\<close>; rounding of long numbers cannot bring them into the range.\<close>

definition parseLimit :: "jsval \<Rightarrow> int QueryParseResult" where
  "parseLimit query =
     (case readScalar query (js ''limit'') LimitDuplicate LimitValue of
        Inl e \<Rightarrow> Inl e
      | Inr None \<Rightarrow> Inr DEFAULT_LIMIT
      | Inr (Some v) \<Rightarrow>
          if v = [] \<or> \<not> all_digits v then Inl (ERRORS LimitValue)
          else
            let parsed = num v
            in if \<not> safe_int parsed \<or> parsed < MINIMUM_LIMIT \<or> MAXIMUM_LIMIT < parsed
               then Inl (ERRORS LimitValue) else Inr parsed)"

definition parseLogListQuery :: "jsval \<Rightarrow> ParsedLogListQuery QueryParseResult" where
  "parseLogListQuery input =
     (case parseLogFilters input of Inl e \<Rightarrow> Inl e
      | Inr filters \<Rightarrow>
        if \<not> is_record input then Inl (ERRORS QueryObject)
        else case parseLimit input of Inl e \<Rightarrow> Inl e
        | Inr limit \<Rightarrow>
          (case readScalar input (js ''cursor'') CursorDuplicate CursorValue of Inl e \<Rightarrow> Inl e
           | Inr cursor \<Rightarrow>
             if cursor = Some [] then Inl (ERRORS CursorValue)
             else Inr \<lparr>query_filters = filters, query_limit = limit, query_cursor = cursor\<rparr>))"

subsection \<open>Parsed filters\<close>

text \<open>A bound: the canonical text of an accepted timestamp, and its instant.\<close>

definition bound_at :: "jsstr \<Rightarrow> rat \<Rightarrow> bool" where
  "bound_at t i \<longleftrightarrow> (\<exists>v ts. parseCanonicalTimestamp v = Inr ts \<and> t = canonical ts \<and> i = instant ts)"

definition wf_filters :: "LogFilters \<Rightarrow> bool" where
  "wf_filters f \<longleftrightarrow>
     (\<forall>s. filter_service f = Some s \<longrightarrow> \<not> contains_nul s) \<and>
     (\<forall>l. filter_level f = Some l \<longrightarrow> isLogLevel l) \<and>
     (\<forall>s. filter_since f = Some s \<longrightarrow> (\<exists>i. bound_at s i)) \<and>
     (\<forall>u. filter_until f = Some u \<longrightarrow> (\<exists>j. bound_at u j)) \<and>
     (\<forall>s u. filter_since f = Some s \<longrightarrow> filter_until f = Some u \<longrightarrow>
        (\<exists>i j. bound_at s i \<and> bound_at u j \<and> i \<le> j)) \<and>
     (\<forall>a \<in> set (filter_attributes f). attr_key a \<noteq> [] \<and> \<not> contains_nul (attr_key a) \<and>
        \<not> contains_nul (attr_value a)) \<and>
     sorted_wrt (<) (map attr_key (filter_attributes f)) \<and>
     (\<forall>s. filter_q f = Some s \<longrightarrow> s \<noteq> [] \<and> \<not> contains_nul s)"

lemma prefix_less: "drop n a < drop n b" if "starts_with p a" "starts_with p b" "length p = n" "a < (b::jsstr)"
proof -
  from that starts_with_drop have "a = p @ drop n a" "b = p @ drop n b" by blast+
  with that(4) have "p @ drop n a < p @ drop n b" by simp
  then show ?thesis by (induction p) auto
qed

lemma sorted_names:
  assumes "distinct ns"
  shows "sorted_wrt (<) (sort_with compare_units ns)"
proof -
  have "sorted_wrt (\<lambda>a b. compare_units a b \<le> 0) (sort_with compare_units ns)"
    by (rule units.sorted_sort_with)
  then have "sorted_wrt (\<le>) (sort_with compare_units ns)"
    by (rule sorted_wrt_mono_rel [rotated]) (auto simp: compare_units_def split: if_splits)
  moreover have "distinct (sort_with compare_units ns)"
    using distinct_map_sort_with [of "\<lambda>x. x" compare_units ns] assms by simp
  ultimately show ?thesis by (simp add: strict_sorted_iff)
qed

lemma read_attributes_wf:
  assumes "read_attributes query names acc = Inr attrs" "sorted_wrt (<) names"
    "\<forall>n \<in> set names. starts_with ATTRIBUTE_PREFIX n"
  shows "\<exists>more. attrs = acc @ more \<and>
    (\<forall>a \<in> set more. attr_key a \<noteq> [] \<and> \<not> contains_nul (attr_key a) \<and> \<not> contains_nul (attr_value a) \<and>
       ATTRIBUTE_PREFIX @ attr_key a \<in> set names) \<and> sorted_wrt (<) (map attr_key more)"
  using assms
proof (induction query names acc rule: read_attributes.induct)
  case (2 query name names acc)
  let ?key = "drop (length ATTRIBUTE_PREFIX) name"
  have name: "name = ATTRIBUTE_PREFIX @ ?key" using 2(5) starts_with_drop by auto
  consider (skip) "readScalar query name AttributeDuplicate AttributeString = Inr None"
      "read_attributes query names acc = Inr attrs" "?key \<noteq> []" "\<not> contains_nul ?key"
    | (take) v where "readScalar query name AttributeDuplicate AttributeString = Inr (Some v)"
      "\<not> contains_nul v" "?key \<noteq> []" "\<not> contains_nul ?key"
      "read_attributes query names (acc @ [\<lparr>attr_key = ?key, attr_value = v\<rparr>]) = Inr attrs"
    using 2(3) by (auto simp: Let_def split: if_splits sum.splits option.splits)
  then show ?case
  proof cases
    case skip
    from 2(1) [OF refl skip(3,4,1) refl skip(2)] 2(4,5) show ?thesis by auto
  next
    case (take v)
    from 2(2) [OF refl take(3,4,1) refl take(2,5)] 2(4,5) obtain more where more:
      "attrs = (acc @ [\<lparr>attr_key = ?key, attr_value = v\<rparr>]) @ more"
      "\<forall>a \<in> set more. attr_key a \<noteq> [] \<and> \<not> contains_nul (attr_key a) \<and> \<not> contains_nul (attr_value a) \<and>
         ATTRIBUTE_PREFIX @ attr_key a \<in> set names" "sorted_wrt (<) (map attr_key more)"
      by auto
    have "?key < attr_key a" if "a \<in> set more" for a
    proof -
      have "name < ATTRIBUTE_PREFIX @ attr_key a" using 2(4) more(2) that by auto
      then have "drop (length ATTRIBUTE_PREFIX) name <
          drop (length ATTRIBUTE_PREFIX) (ATTRIBUTE_PREFIX @ attr_key a)"
        using 2(5) by (intro prefix_less [of ATTRIBUTE_PREFIX]) auto
      then show ?thesis by simp
    qed
    with more take name show ?thesis
      by (intro exI [of _ "\<lparr>attr_key = ?key, attr_value = v\<rparr> # more"]) auto
  qed
qed auto

lemma parse_bound:
  "parseOptionalTimestamp input k d e = Inr (Some ts) \<Longrightarrow> bound_at (canonical ts) (instant ts) \<and> wf_timestamp ts"
  by (auto simp: parseOptionalTimestamp_def bound_at_def parse_wf split: sum.splits option.splits)

lemma range_ordered:
  assumes "\<not> range_error (Some s) (Some u)" "wf_timestamp s" "wf_timestamp u"
  shows "instant s \<le> instant u"
  using assms compare_sgn [OF assms(3,2)]
  by (auto simp: range_error_def not_less sgn_if split: if_splits)

lemma parseLogFilters_wf:
  assumes "parseLogFilters input = Inr f" "wf_object input"
  shows "wf_filters f"
proof -
  obtain srv lev since "until" attrs q where
    p: "option_any contains_nul srv = False" "option_any (\<lambda>l. \<not> isLogLevel l) lev = False"
      "parseOptionalTimestamp input (js ''since'') SinceDuplicate SinceTimestamp = Inr since"
      "parseOptionalTimestamp input (js ''until'') UntilDuplicate UntilTimestamp = Inr until"
      "\<not> range_error since until" "parseAttributeFilters input = Inr attrs"
      "option_any contains_nul q = False"
      and f: "f = \<lparr>filter_service = srv, filter_level = lev, filter_since = map_option canonical since,
        filter_until = map_option canonical until, filter_attributes = attrs,
        filter_q = (if q = Some [] then None else q)\<rparr>"
    using assms(1) by (auto simp: parseLogFilters_def split: if_splits sum.splits)
  let ?names = "sort_with compare_units (filter (starts_with ATTRIBUTE_PREFIX) (object_keys input))"
  have "distinct (object_keys input)"
    using distinct_object_entries [OF assms(2)] by (simp add: object_keys_def)
  then have "sorted_wrt (<) ?names" by (intro sorted_names) simp
  from read_attributes_wf [OF p(6) [unfolded parseAttributeFilters_def] this]
  have attrs: "\<forall>a \<in> set attrs. attr_key a \<noteq> [] \<and> \<not> contains_nul (attr_key a) \<and> \<not> contains_nul (attr_value a)"
    "sorted_wrt (<) (map attr_key attrs)" by auto
  have s: "\<exists>i. bound_at s i" if "map_option canonical since = Some s" for s
    using that p(3) parse_bound by blast
  have u: "\<exists>i. bound_at u i" if "map_option canonical until = Some u" for u
    using that p(4) parse_bound by blast
  have su: "\<exists>i j. bound_at s i \<and> bound_at u j \<and> i \<le> j"
    if "map_option canonical since = Some s" "map_option canonical until = Some u" for s u
  proof -
    from that obtain a b where ab: "since = Some a" "until = Some b" "s = canonical a" "u = canonical b" by auto
    note a = parse_bound [OF p(3) [unfolded ab]] and b = parse_bound [OF p(4) [unfolded ab]]
    with range_ordered [of a b] p(5) ab show ?thesis by blast
  qed
  have "\<forall>s. srv = Some s \<longrightarrow> \<not> contains_nul s" "\<forall>l. lev = Some l \<longrightarrow> isLogLevel l"
    "\<forall>s. q = Some s \<longrightarrow> \<not> contains_nul s"
    using p(1,2,7) by (auto simp: option_any_def)
  then show ?thesis
    unfolding f wf_filters_def using s u su attrs by (simp, force)
qed

lemma parseLimit_bounds: "parseLimit query = Inr n \<Longrightarrow> 1 \<le> n \<and> n \<le> 1000"
  by (auto simp: parseLimit_def DEFAULT_LIMIT_def MINIMUM_LIMIT_def MAXIMUM_LIMIT_def Let_def
      split: sum.splits option.splits if_splits)

subsection \<open>Queries written from filters\<close>

definition optional_entry :: "string \<Rightarrow> jsstr option \<Rightarrow> (jsstr \<times> jsval) list" where
  "optional_entry k v = (case v of None \<Rightarrow> [] | Some s \<Rightarrow> [(js k, JStr s)])"

definition attribute_entries :: "AttributeFilter list \<Rightarrow> (jsstr \<times> jsval) list" where
  "attribute_entries attrs = map (\<lambda>a. (ATTRIBUTE_PREFIX @ attr_key a, JStr (attr_value a))) attrs"

definition query_entries :: "ParsedLogListQuery \<Rightarrow> (jsstr \<times> jsval) list" where
  "query_entries p =
     optional_entry ''service'' (filter_service (query_filters p)) @
     optional_entry ''level'' (filter_level (query_filters p)) @
     optional_entry ''since'' (filter_since (query_filters p)) @
     optional_entry ''until'' (filter_until (query_filters p)) @
     attribute_entries (filter_attributes (query_filters p)) @
     optional_entry ''q'' (filter_q (query_filters p)) @
     [(js ''limit'', JStr (show_int (query_limit p)))] @
     optional_entry ''cursor'' (query_cursor p)"

definition plain_names :: "string list" where
  "plain_names = [''service'', ''level'', ''since'', ''until'', ''q'', ''limit'', ''cursor'']"

lemma plain_name_not_attribute: "k \<in> set plain_names \<Longrightarrow> \<not> starts_with ATTRIBUTE_PREFIX (js k)"
  by (auto simp: plain_names_def starts_with_def ATTRIBUTE_PREFIX_def js_def)

lemma map_of_attribute_none:
  "k \<in> set plain_names \<Longrightarrow> map_of (attribute_entries attrs) (js k) = None"
  using plain_name_not_attribute [of k]
  by (auto simp: map_of_eq_None_iff attribute_entries_def)

lemma map_of_optional [simp]:
  "map_of (optional_entry k v) (js k') = (if k' = k then map_option JStr v else None)"
  by (auto simp: optional_entry_def split: option.splits)

lemma query_lookup:
  "map_of (query_entries p) (js ''service'') = map_option JStr (filter_service (query_filters p))"
  "map_of (query_entries p) (js ''level'') = map_option JStr (filter_level (query_filters p))"
  "map_of (query_entries p) (js ''since'') = map_option JStr (filter_since (query_filters p))"
  "map_of (query_entries p) (js ''until'') = map_option JStr (filter_until (query_filters p))"
  "map_of (query_entries p) (js ''q'') = map_option JStr (filter_q (query_filters p))"
  "map_of (query_entries p) (js ''limit'') = Some (JStr (show_int (query_limit p)))"
  "map_of (query_entries p) (js ''cursor'') = map_option JStr (query_cursor p)"
  by (auto simp: query_entries_def map_add_def map_of_attribute_none plain_names_def split: option.splits)

lemma readScalar_plain:
  "readScalar (plain kvs) k d i =
     (case map_of kvs k of None \<Rightarrow> Inr None
      | Some (JStr s) \<Rightarrow> Inr (Some s) | Some (JArr vs) \<Rightarrow> Inl (ERRORS d) | Some v \<Rightarrow> Inl (ERRORS i))"
  by (auto simp: readScalar_def split: option.splits jsval.splits)

lemma query_scalars:
  "map_of kvs k = map_option JStr v \<Longrightarrow> readScalar (plain kvs) k d i = Inr v"
  by (auto simp: readScalar_plain split: option.splits)

lemma attribute_names:
  "filter (starts_with ATTRIBUTE_PREFIX) (map fst (query_entries p)) =
   map (\<lambda>a. ATTRIBUTE_PREFIX @ attr_key a) (filter_attributes (query_filters p))"
proof -
  have opt: "filter (starts_with ATTRIBUTE_PREFIX) (map fst (optional_entry k v)) = []"
    if "k \<in> set plain_names" for k v
    using plain_name_not_attribute [OF that] by (simp add: optional_entry_def split: option.splits)
  have "filter (starts_with ATTRIBUTE_PREFIX) (map fst (attribute_entries attrs)) =
      map (\<lambda>a. ATTRIBUTE_PREFIX @ attr_key a) attrs" for attrs
    by (induction attrs) (auto simp: attribute_entries_def)
  then show ?thesis
    using plain_name_not_attribute [of "''limit''"] by (simp add: query_entries_def opt plain_names_def)
qed

lemma query_attribute_lookup:
  assumes "distinct (map attr_key (filter_attributes (query_filters p)))" "a \<in> set (filter_attributes (query_filters p))"
  shows "map_of (query_entries p) (ATTRIBUTE_PREFIX @ attr_key a) = Some (JStr (attr_value a))"
proof -
  have opt: "map_of (optional_entry k v) (ATTRIBUTE_PREFIX @ attr_key a) = None" if "k \<in> set plain_names" for k v
  proof -
    have "js k \<noteq> ATTRIBUTE_PREFIX @ attr_key a" using plain_name_not_attribute [OF that] starts_with_append by metis
    then show ?thesis by (cases v) (simp_all add: optional_entry_def)
  qed
  have lim: "js ''limit'' \<noteq> ATTRIBUTE_PREFIX @ attr_key a"
    using plain_name_not_attribute [of "''limit''"] by (auto simp: plain_names_def)
  have "map_of (attribute_entries attrs) (ATTRIBUTE_PREFIX @ attr_key a) = Some (JStr (attr_value a))"
    if "distinct (map attr_key attrs)" "a \<in> set attrs" for attrs
    using that by (induction attrs) (auto simp: attribute_entries_def dest: sym intro: rev_image_eqI)
  with assms lim show ?thesis by (simp add: query_entries_def map_add_def opt plain_names_def)
qed

lemma read_attributes_plain:
  assumes "\<And>a. a \<in> set attrs \<Longrightarrow> map_of kvs (ATTRIBUTE_PREFIX @ attr_key a) = Some (JStr (attr_value a)) \<and>
      attr_key a \<noteq> [] \<and> \<not> contains_nul (attr_key a) \<and> \<not> contains_nul (attr_value a)"
  shows "read_attributes (plain kvs) (map (\<lambda>a. ATTRIBUTE_PREFIX @ attr_key a) attrs) acc = Inr (acc @ attrs)"
  using assms by (induction attrs arbitrary: acc) (simp_all add: readScalar_plain)

text \<open>Bounds that are canonical texts of four-digit years, in order.\<close>

definition canonical_bound :: "jsstr \<Rightarrow> rat \<Rightarrow> bool" where
  "canonical_bound t i \<longleftrightarrow> (\<exists>ts. parseCanonicalTimestamp t = Inr ts \<and> canonical ts = t \<and> instant ts = i)"

definition canonical_bounds :: "LogFilters \<Rightarrow> bool" where
  "canonical_bounds f \<longleftrightarrow>
     (\<forall>s. filter_since f = Some s \<longrightarrow> (\<exists>i. canonical_bound s i)) \<and>
     (\<forall>u. filter_until f = Some u \<longrightarrow> (\<exists>j. canonical_bound u j)) \<and>
     (\<forall>s u i j. filter_since f = Some s \<longrightarrow> filter_until f = Some u \<longrightarrow>
        canonical_bound s i \<longrightarrow> canonical_bound u j \<longrightarrow> i \<le> j)"

lemma optional_timestamp_plain:
  assumes "map_of kvs k = map_option JStr v" "\<forall>t. v = Some t \<longrightarrow> (\<exists>i. canonical_bound t i)"
  shows "\<exists>r. parseOptionalTimestamp (plain kvs) k d e = Inr r \<and> map_option canonical r = v \<and>
    (\<forall>ts. r = Some ts \<longrightarrow> parseCanonicalTimestamp (canonical ts) = Inr ts)"
  using assms query_scalars [OF assms(1), of d e]
  by (cases v) (auto simp: parseOptionalTimestamp_def canonical_bound_def)

lemma parse_query_entries:
  assumes wf: "wf_filters (query_filters p)" and cb: "canonical_bounds (query_filters p)"
    and lim: "1 \<le> query_limit p" "query_limit p \<le> 1000" and cur: "query_cursor p \<noteq> Some []"
  shows "parseLogListQuery (plain (query_entries p)) = Inr p"
proof -
  let ?f = "query_filters p" and ?q = "plain (query_entries p)"
  let ?attrs = "filter_attributes ?f"
  note look = query_lookup [of p]
  obtain since where since: "parseOptionalTimestamp ?q (js ''since'') SinceDuplicate SinceTimestamp = Inr since"
    "map_option canonical since = filter_since ?f"
    "\<forall>ts. since = Some ts \<longrightarrow> parseCanonicalTimestamp (canonical ts) = Inr ts"
    using optional_timestamp_plain [OF look(3), of SinceDuplicate SinceTimestamp] cb
    unfolding canonical_bounds_def by blast
  obtain "until" where until: "parseOptionalTimestamp ?q (js ''until'') UntilDuplicate UntilTimestamp = Inr until"
    "map_option canonical until = filter_until ?f"
    "\<forall>ts. until = Some ts \<longrightarrow> parseCanonicalTimestamp (canonical ts) = Inr ts"
    using optional_timestamp_plain [OF look(4), of UntilDuplicate UntilTimestamp] cb
    unfolding canonical_bounds_def by blast
  have range: "\<not> range_error since until"
  proof
    assume r: "range_error since until"
    then obtain s u where su: "since = Some s" "until = Some u" "compareParsedTimestamps u s < 0"
      by (auto simp: range_error_def split: option.splits)
    have p: "parseCanonicalTimestamp (canonical s) = Inr s" "parseCanonicalTimestamp (canonical u) = Inr u"
      using since(3) until(3) su by auto
    then have "canonical_bound (canonical s) (instant s)" "canonical_bound (canonical u) (instant u)"
      by (auto simp: canonical_bound_def)
    moreover have "filter_since ?f = Some (canonical s)" "filter_until ?f = Some (canonical u)"
      using since(2) until(2) su by auto
    ultimately have "instant s \<le> instant u" using cb by (auto simp: canonical_bounds_def)
    with su(3) compare_sgn [OF parse_wf parse_wf, OF p(2,1)] show False
      by (auto simp: sgn_if split: if_splits)
  qed
  have sorted: "sorted_wrt (<) (map attr_key ?attrs)" and keys: "\<And>a. a \<in> set ?attrs \<Longrightarrow>
      attr_key a \<noteq> [] \<and> \<not> contains_nul (attr_key a) \<and> \<not> contains_nul (attr_value a)"
    using wf by (auto simp: wf_filters_def)
  then have dist: "distinct (map attr_key ?attrs)" by (simp add: strict_sorted_iff)
  have "sorted_wrt (\<lambda>a b. compare_units a b \<le> 0) (map (\<lambda>a. ATTRIBUTE_PREFIX @ attr_key a) ?attrs)"
  proof -
    have "ATTRIBUTE_PREFIX @ a < ATTRIBUTE_PREFIX @ b" if "a < b" for a b :: jsstr
      using that by (simp add: ATTRIBUTE_PREFIX_def js_def)
    then have "sorted_wrt (<) (map (\<lambda>a. ATTRIBUTE_PREFIX @ attr_key a) ?attrs)"
      using sorted by (auto simp: sorted_wrt_map elim: sorted_wrt_mono_rel [rotated])
    then show ?thesis by (rule sorted_wrt_mono_rel [rotated]) (simp add: compare_units_def)
  qed
  then have "sort_with compare_units (filter (starts_with ATTRIBUTE_PREFIX) (object_keys ?q)) =
      map (\<lambda>a. ATTRIBUTE_PREFIX @ attr_key a) ?attrs"
    using units.sort_with_sorted_id by (simp add: attribute_names)
  then have attrs: "parseAttributeFilters ?q = Inr ?attrs"
    using read_attributes_plain [of ?attrs "query_entries p" "[]"] keys query_attribute_lookup [OF dist]
    by (simp add: parseAttributeFilters_def)
  have "filter_q ?f \<noteq> Some []" using wf by (auto simp: wf_filters_def)
  moreover have "\<not> option_any contains_nul (filter_service ?f)" "\<not> option_any contains_nul (filter_q ?f)"
    "\<not> option_any (\<lambda>l. \<not> isLogLevel l) (filter_level ?f)"
    using wf by (auto simp: wf_filters_def option_any_def split: option.splits)
  ultimately have filters: "parseLogFilters ?q = Inr ?f"
    using since until range attrs
      query_scalars [OF look(1), of ServiceDuplicate QServiceString]
      query_scalars [OF look(2), of LevelDuplicate QLevelString]
      query_scalars [OF look(5), of QDuplicate QString]
    by (simp add: parseLogFilters_def)
  have "show_int (query_limit p) = show_nat (nat (query_limit p))"
    using lim by (simp add: show_int_def show_pos_nat)
  then have "parseLimit ?q = Inr (query_limit p)"
    using lim query_scalars [of "query_entries p" "js ''limit''" "Some (show_int (query_limit p))" LimitDuplicate LimitValue] look(6)
    by (simp add: parseLimit_def num_def MINIMUM_LIMIT_def MAXIMUM_LIMIT_def safe_int_def max_safe_integer_def Let_def)
  then show ?thesis
    using filters cur query_scalars [OF look(7), of CursorDuplicate CursorValue]
    by (cases p) (simp add: parseLogListQuery_def)
qed

subsection \<open>Properties\<close>

text \<open>
  C33. Parsed queries are well-formed: whatever the query object, an accepted query has NUL-free
  texts, a known level, bounds that are canonical texts of accepted timestamps with \<open>since\<close> not
  after \<open>until\<close>, attribute filters with non-empty keys in strictly ascending order, a search text
  only when it is not empty, a limit from 1 to 1000, and a cursor only when it is not empty.
\<close>

theorem parsed_query_invariant:
  assumes "parseLogListQuery input = Inr p" "wf_object input"
  shows "wf_filters (query_filters p) \<and> 1 \<le> query_limit p \<and> query_limit p \<le> 1000 \<and> query_cursor p \<noteq> Some []"
  using assms parseLogFilters_wf parseLimit_bounds
  by (fastforce simp: parseLogListQuery_def split: sum.splits if_splits)

definition sample_query :: ParsedLogListQuery where
  "sample_query =
     \<lparr>query_filters = \<lparr>filter_service = Some (js ''api''), filter_level = Some (js ''error''),
        filter_since = Some (js ''2026-08-13T12:00:00.000Z''), filter_until = None,
        filter_attributes = [\<lparr>attr_key = js ''a'', attr_value = js ''1''\<rparr>, \<lparr>attr_key = js ''b'', attr_value = []\<rparr>],
        filter_q = Some (js ''50%'')\<rparr>,
      query_limit = 7, query_cursor = None\<rparr>"

lemma sample_query_parses: "parseLogListQuery (plain (query_entries sample_query)) = Inr sample_query"
  by code_simp

theorem parsed_query_invariant_witness: "wf_filters (query_filters sample_query)"
proof -
  have "wf_object (plain (query_entries sample_query))" by code_simp
  from parsed_query_invariant [OF sample_query_parses this] show ?thesis by blast
qed

text \<open>
  C37. Parsing a query written from well-formed filters gives them back exactly: every
  combination of service, level, bounds, attributes, search text, limit and cursor can be asked
  for, and nothing else is read from the query.
\<close>

theorem query_roundtrip:
  assumes "wf_filters (query_filters p)" "canonical_bounds (query_filters p)"
    "1 \<le> query_limit p" "query_limit p \<le> 1000" "query_cursor p \<noteq> Some []"
  shows "parseLogListQuery (plain (query_entries p)) = Inr p"
  using assms by (rule parse_query_entries)

theorem query_roundtrip_witness:
  "parseLogListQuery (plain (query_entries (sample_query\<lparr>query_limit := 1000\<rparr>))) = Inr (sample_query\<lparr>query_limit := 1000\<rparr>)"
proof (rule query_roundtrip)
  have "canonical_bound (js ''2026-08-13T12:00:00.000Z'') 1786622400"
  proof -
    have "parseCanonicalTimestamp (js ''2026-08-13T12:00:00.000Z'') =
        Inr \<lparr>canonical = js ''2026-08-13T12:00:00.000Z'', wholeSecondMs = 1786622400000, fraction = js ''000''\<rparr>"
      by code_simp
    moreover have "frac_val (js ''000'') = 0" by (simp add: frac_val_def read_dec_def js_def digit_val_def cu_def)
    ultimately show ?thesis by (simp add: canonical_bound_def instant_def)
  qed
  then show "canonical_bounds (query_filters (sample_query\<lparr>query_limit := 1000\<rparr>))"
    by (auto simp: canonical_bounds_def sample_query_def)
  have "parseLogFilters (plain (query_entries sample_query)) = Inr (query_filters sample_query)"
    "wf_object (plain (query_entries sample_query))" by code_simp+
  from parseLogFilters_wf [OF this] show "wf_filters (query_filters (sample_query\<lparr>query_limit := 1000\<rparr>))"
    by (simp add: sample_query_def)
qed (simp_all add: sample_query_def)

end
