(* ===== verification/JsonFacts.thy ===== *)
theory JsonFacts
  imports Json
begin

section \<open>Quoting and parsing of JSON strings\<close>

text \<open>
  A string literal that \<open>JSON.stringify\<close> writes is read back by \<open>JSON.parse\<close> as the same string,
  for every string of code units, lone surrogates included, and whatever follows it.
\<close>

lemma hex_value_digit: "d < 16 \<Longrightarrow> hex_value (hex_digit d) = Some d"
proof -
  assume d: "d < 16"
  have "unat (of_nat (48 + d) :: code_unit) = 48 + d" "unat (of_nat (87 + d) :: code_unit) = 87 + d"
    using d by (simp_all only: unat_of_nat) (simp_all add: take_bit_eq_mod)
  with d show ?thesis by (auto simp: hex_value_def hex_digit_def Let_def)
qed

lemma four_hex_digits:
  fixes n :: nat
  assumes "n < 65536"
  shows "n div 4096 * 4096 + n div 256 mod 16 * 256 + n div 16 mod 16 * 16 + n mod 16 = n"
proof -
  have a: "n div 16 * 16 + n mod 16 = n" by simp
  have b: "n div 16 div 16 * 16 + n div 16 mod 16 = n div 16" by simp
  have c: "n div 256 div 16 * 16 + n div 256 mod 16 = n div 256" by simp
  have "n div 16 div 16 = n div 256" "n div 256 div 16 = n div 4096" by (simp_all flip: div_mult2_eq)
  with a b c show ?thesis by linarith
qed

lemma read_hex4_escape:
  "read_hex4 ([hex_digit (unat c div 4096), hex_digit (unat c div 256 mod 16), hex_digit (unat c div 16 mod 16),
     hex_digit (unat c mod 16)] @ r) = Some (c, r)" for c :: code_unit
proof -
  have "unat c < 2 ^ LENGTH(16)" by (rule unsigned_less)
  then have c: "unat c < 65536" by simp
  then have "unat c div 4096 < 16" by (simp add: less_mult_imp_div_less)
  then have "hex_value (hex_digit (unat c div 4096)) = Some (unat c div 4096)"
    "hex_value (hex_digit (unat c div 256 mod 16)) = Some (unat c div 256 mod 16)"
    "hex_value (hex_digit (unat c div 16 mod 16)) = Some (unat c div 16 mod 16)"
    "hex_value (hex_digit (unat c mod 16)) = Some (unat c mod 16)"
    by (simp_all add: hex_value_digit)
  then show ?thesis
    using four_hex_digits [OF c] by (simp add: read_hex4_def)
qed

lemma parse_string_unicode:
  "parse_string_body (Suc fuel) (unicode_escape c @ r) = map_option (\<lambda>(t, q). (c # t, q)) (parse_string_body fuel r)"
proof -
  let ?h = "[hex_digit (unat c div 4096), hex_digit (unat c div 256 mod 16), hex_digit (unat c div 16 mod 16),
     hex_digit (unat c mod 16)]"
  have "unicode_escape c @ r = 92 # cu CHR ''u'' # (?h @ r)"
    by (simp add: unicode_escape_def Let_def js_def cu_def)
  moreover have "(92 :: code_unit) \<noteq> 34" "\<not> (92 :: code_unit) < 32" by simp_all
  ultimately show ?thesis
    unfolding parse_string_body.simps using read_hex4_escape [of c r] by simp
qed

lemma parse_string_plain:
  "c \<noteq> 34 \<Longrightarrow> c \<noteq> 92 \<Longrightarrow> \<not> c < 32 \<Longrightarrow>
   parse_string_body (Suc fuel) (c # r) = map_option (\<lambda>(t, q). (c # t, q)) (parse_string_body fuel r)"
  by simp

lemma parse_string_escape:
  "parse_string_body (Suc fuel) (escape_unit c @ r) = map_option (\<lambda>(t, q). (c # t, q)) (parse_string_body fuel r)"
proof (cases "c \<in> {8, 9, 10, 12, 13, 34, 92}")
  case True
  then show ?thesis by (auto simp: escape_unit_def js_def cu_def)
next
  case False
  then show ?thesis
    by (cases "c < 32") (simp_all add: escape_unit_def parse_string_unicode parse_string_plain del: parse_string_body.simps)
qed

lemma surrogate_plain:
  "is_high_surrogate c \<or> is_low_surrogate c \<Longrightarrow> c \<noteq> 34 \<and> c \<noteq> 92 \<and> \<not> c < 32"
  by (auto simp: is_high_surrogate_def is_low_surrogate_def word_le_nat_alt word_less_nat_alt)

lemma quote_body_step:
  "\<not> (is_high_surrogate c \<and> t \<noteq> [] \<and> is_low_surrogate (hd t)) \<Longrightarrow>
   quote_body (c # t) =
     (if is_high_surrogate c \<or> is_low_surrogate c then unicode_escape c else escape_unit c) @ quote_body t"
  by (cases t) auto

lemma quote_body_pair:
  "is_high_surrogate c \<Longrightarrow> is_low_surrogate d \<Longrightarrow> quote_body (c # d # t) = c # d # quote_body t"
  by simp

lemma parse_quote_body:
  "length s < fuel \<Longrightarrow> parse_string_body fuel (quote_body s @ 34 # r) = Some (s, r)"
proof (induction s arbitrary: fuel rule: length_induct)
  case (1 s)
  then obtain fuel' where f: "fuel = Suc fuel'" "length s \<le> fuel'" by (cases fuel) auto
  have rec: "length t < length s \<Longrightarrow> parse_string_body fuel'' (quote_body t @ 34 # r) = Some (t, r)"
    if "length t < fuel''" for t fuel'' using 1(1) that by blast
  show ?case
  proof (cases s)
    case Nil
    then show ?thesis by (simp add: f)
  next
    case (Cons c t)
    have t: "parse_string_body fuel' (quote_body t @ 34 # r) = Some (t, r)"
      using rec [of t fuel'] f Cons by simp
    show ?thesis
    proof (cases "is_high_surrogate c \<and> t \<noteq> [] \<and> is_low_surrogate (hd t)")
      case True
      then obtain d u where d: "t = d # u" "is_low_surrogate d" by (cases t) auto
      obtain fuel'' where f': "fuel' = Suc fuel''" "length u < fuel''"
        using f Cons d by (cases fuel') auto
      have "parse_string_body fuel'' (quote_body u @ 34 # r) = Some (u, r)"
        using rec [of u fuel''] f' Cons d by simp
      then show ?thesis
        using True d surrogate_plain [of c] surrogate_plain [of d]
        by (simp add: Cons f f' quote_body_pair parse_string_plain del: parse_string_body.simps quote_body.simps)
    next
      case False
      then show ?thesis
        unfolding Cons quote_body_step [OF False] f
        by (auto simp: t parse_string_unicode parse_string_escape simp del: parse_string_body.simps)
    qed
  qed
qed

lemma length_quote_body: "length s \<le> length (quote_body s)"
proof (induction s rule: length_induct)
  case (1 s)
  have ne: "1 \<le> length (escape_unit c)" "1 \<le> length (unicode_escape c)" for c
    by (simp_all add: escape_unit_def unicode_escape_def Let_def js_def)
  show ?case
  proof (cases s)
    case (Cons c t)
    show ?thesis
    proof (cases "is_high_surrogate c \<and> t \<noteq> [] \<and> is_low_surrogate (hd t)")
      case True
      then obtain d u where "t = d # u" by (cases t) auto
      with True 1 Cons show ?thesis by (simp add: quote_body_pair del: quote_body.simps)
    next
      case False
      have "length t \<le> length (quote_body t)" using 1 Cons by simp
      then show ?thesis using ne [of c] unfolding Cons quote_body_step [OF False] by auto
    qed
  qed simp
qed

lemma json_quote_inject: "json_quote s = json_quote t \<Longrightarrow> s = t"
proof -
  assume "json_quote s = json_quote t"
  then have "quote_body s @ [34] = quote_body t @ [34]" by (simp add: json_quote_def js_def cu_def)
  then show "s = t"
    using parse_quote_body [of s "Suc (max (length s) (length t))" "[]"]
      parse_quote_body [of t "Suc (max (length s) (length t))" "[]"] by simp
qed

subsection \<open>Objects of strings\<close>

lemma skip_space_id [simp]: "\<not> is_json_space c \<Longrightarrow> skip_space (c # r) = c # r"
  by (simp add: skip_space_def)

lemma json_space_puncts [simp]:
  "\<not> is_json_space 34" "\<not> is_json_space 58" "\<not> is_json_space 44" "\<not> is_json_space 123"
  "\<not> is_json_space 125" "skip_space [] = []"
  by (simp_all add: is_json_space_def skip_space_def)

lemma quote_units: "json_quote s = 34 # quote_body s @ [34]"
  by (simp add: json_quote_def js_def cu_def)

lemma parse_value_string:
  "length s \<le> fuel \<Longrightarrow> parse_value (Suc fuel) (json_quote s @ r) = Some (JStr s, r)"
  using parse_quote_body [of s "Suc fuel" r] by (simp add: quote_units del: parse_string_body.simps)

lemma parse_members_value:
  assumes "length k \<le> fuel" "parse_value fuel w = Some (v, d # r)" "\<not> is_json_space d"
  shows "parse_members (Suc fuel) kvs (json_quote k @ 58 # w) =
    (if d = 44 then parse_members fuel (assign_key kvs k v) r
     else if d = 125 then Some (assign_key kvs k v, r) else None)"
proof -
  have "parse_string_body (Suc fuel) (quote_body k @ 34 # 58 # w) = Some (k, 58 # w)"
    using assms(1) by (intro parse_quote_body) simp
  then show ?thesis
    using assms(2,3) by (simp add: quote_units cu_def del: parse_string_body.simps)
qed

text \<open>An object with one string property, as \<open>JSON.stringify\<close> prints it.\<close>

definition json_pair :: "jsstr \<Rightarrow> jsstr \<Rightarrow> jsstr" where
  "json_pair k v = js ''{'' @ json_quote k @ js '':'' @ json_quote v @ js ''}''"

lemma stringify_pair: "stringify (plain [(k, JStr v)]) = Some (json_pair k v)"
  by (simp add: plain_def json_pair_def)

lemma parse_value_object:
  assumes "parse_members fuel [] (c # s) = Some (kvs, r)" "\<not> is_json_space c" "c \<noteq> 125"
  shows "parse_value (Suc fuel) (123 # c # s) = Some (plain kvs, r)"
  using assms by (simp add: cu_def)

lemma parse_pair: "json_parse (json_pair k v) = Some (plain [(k, JStr v)])"
proof -
  have len: "length k + length v + 6 \<le> length (json_pair k v)"
    using length_quote_body [of k] length_quote_body [of v] by (simp add: json_pair_def quote_units js_def)
  obtain f where f: "2 * length (json_pair k v) + 2 = Suc (Suc (Suc f))" "length k \<le> f" "length v \<le> f"
    using len by (intro that [of "2 * length (json_pair k v) - 1"]) auto
  have "parse_value (Suc f) (json_quote v @ [125]) = Some (JStr v, [125])"
    using f by (intro parse_value_string) simp
  then have "parse_members (Suc (Suc f)) [] (json_quote k @ 58 # json_quote v @ [125]) = Some ([(k, JStr v)], [])"
    using f by (subst parse_members_value) auto
  then have "parse_value (Suc (Suc (Suc f))) (123 # 34 # quote_body k @ 34 # 58 # json_quote v @ [125]) =
      Some (plain [(k, JStr v)], [])"
    by (intro parse_value_object) (simp_all add: quote_units)
  moreover have "json_pair k v = 123 # 34 # quote_body k @ 34 # 58 # json_quote v @ [125]"
    by (simp add: json_pair_def quote_units js_def cu_def)
  ultimately show ?thesis unfolding json_parse_def f(1) by simp
qed

end
