(* ===== verification/LogPredicate.thy ===== *)
theory LogPredicate
  imports QueryParams JsonFacts
begin

section \<open>SQL predicates (\<open>src/modules/query/log-predicate-builder.ts\<close>)\<close>

text \<open>
  The predicate text and its bound values for a set of filters. The text is shown to depend on
  which filters are present only, never on their content, with one placeholder per value in
  order; the two values that are encoded, a JSON containment and a \<open>LIKE\<close> pattern, are shown to
  mean the attribute and the literal search text they were made from.
\<close>

subsection \<open>Definitions\<close>

record SqlPredicate =
  predicate_text :: jsstr
  predicate_values :: "jsval list"

definition serializeAttributeFilter :: "AttributeFilter \<Rightarrow> jsstr" where
  "serializeAttributeFilter a =
     (case stringify (plain [(attr_key a, JStr (attr_value a))]) of Some t \<Rightarrow> t | None \<Rightarrow> js ''undefined'')"

text \<open>\<open>value.replace(/[\\%_]/gu, "\\$&")\<close>.\<close>

fun escapeLikeLiteral :: "jsstr \<Rightarrow> jsstr" where
  "escapeLikeLiteral [] = []"
| "escapeLikeLiteral (c # s) =
     (if c = 92 \<or> c = cu CHR ''%'' \<or> c = cu CHR ''_'' then 92 # c # escapeLikeLiteral s
      else c # escapeLikeLiteral s)"

type_synonym clauses = "jsstr list \<times> jsval list"

definition placeholder :: "nat \<Rightarrow> jsstr" where
  "placeholder n = js ''$'' @ show_nat n"

definition bind_clause :: "(jsstr \<Rightarrow> jsstr) \<Rightarrow> jsval \<Rightarrow> clauses \<Rightarrow> clauses" where
  "bind_clause clause value cv =
     (let values = snd cv @ [value] in (fst cv @ [clause (placeholder (length values))], values))"

definition quoted :: "string \<Rightarrow> jsstr" where
  "quoted name = js [CHR 0x22] @ js name @ js [CHR 0x22]"

text \<open>\<open>'YYYY-MM-DD"T"HH24:MI:SS.US"Z"'\<close>, the format timestamps are read back in.\<close>

definition utc_format :: jsstr where
  "utc_format = js ''    'YYYY-MM-DD'' @ quoted ''T'' @ js ''HH24:MI:SS.US'' @ quoted ''Z'' @ js [CHR 0x27]"

definition bind_optional :: "(jsstr \<Rightarrow> jsstr) \<Rightarrow> (jsstr \<Rightarrow> jsval) \<Rightarrow> jsstr option \<Rightarrow> clauses \<Rightarrow> clauses" where
  "bind_optional clause to_value v cv =
     (case v of None \<Rightarrow> cv | Some s \<Rightarrow> bind_clause clause (to_value s) cv)"

definition service_clause :: "jsstr \<Rightarrow> jsstr" where
  "service_clause p = js ''service = '' @ p @ js ''::text''"

definition level_clause :: "jsstr \<Rightarrow> jsstr" where
  "level_clause p = js ''level = '' @ p @ js ''::text''"

definition since_clause :: "jsstr \<Rightarrow> jsstr" where
  "since_clause p = quoted ''timestamp'' @ js '' >= '' @ p @ js ''::timestamptz''"

definition until_clause :: "jsstr \<Rightarrow> jsstr" where
  "until_clause p = quoted ''timestamp'' @ js '' < '' @ p @ js ''::timestamptz''"

definition attribute_clause :: "jsstr \<Rightarrow> jsstr" where
  "attribute_clause p = js ''attributes_search @> '' @ p @ js ''::jsonb''"

definition search_clause :: "jsstr \<Rightarrow> jsstr" where
  "search_clause p = js ''message ILIKE '' @ p @ js ''::text ESCAPE E'' @
     js [CHR 0x27, CHR 0x5C, CHR 0x5C, CHR 0x27]"

definition search_pattern :: "jsstr \<Rightarrow> jsstr" where
  "search_pattern q = js ''%'' @ escapeLikeLiteral q @ js ''%''"

definition filter_clauses :: "LogFilters \<Rightarrow> clauses" where
  "filter_clauses filters =
     bind_optional search_clause (\<lambda>q. JStr (search_pattern q)) (filter_q filters)
       (fold (\<lambda>a. bind_clause attribute_clause (JStr (serializeAttributeFilter a))) (filter_attributes filters)
         (bind_optional until_clause JStr (filter_until filters)
           (bind_optional since_clause JStr (filter_since filters)
             (bind_optional level_clause JStr (filter_level filters)
               (bind_optional service_clause JStr (filter_service filters) ([], []))))))"

definition buildLogPredicate :: "LogFilters \<Rightarrow> SqlPredicate" where
  "buildLogPredicate filters =
     (case filter_clauses filters of (clauses, values) \<Rightarrow>
        \<lparr>predicate_text = (if clauses = [] then js ''TRUE'' else intersperse_join (js '' AND '') clauses),
         predicate_values = values\<rparr>)"

subsection \<open>The clauses of a filter set\<close>

text \<open>The clause shapes a filter set asks for and the values they are about, in order.\<close>

definition shapes_values :: "LogFilters \<Rightarrow> ((jsstr \<Rightarrow> jsstr) \<times> jsval) list" where
  "shapes_values f =
     (let one = (\<lambda>shape val v. case v of None \<Rightarrow> [] | Some s \<Rightarrow> [(shape, val s)])
      in one service_clause JStr (filter_service f) @ one level_clause JStr (filter_level f) @
         one since_clause JStr (filter_since f) @ one until_clause JStr (filter_until f) @
         map (\<lambda>a. (attribute_clause, JStr (serializeAttributeFilter a))) (filter_attributes f) @
         one search_clause (\<lambda>q. JStr (search_pattern q)) (filter_q f))"

definition number_clauses :: "((jsstr \<Rightarrow> jsstr) \<times> jsval) list \<Rightarrow> jsstr list" where
  "number_clauses svs = map (\<lambda>(i, s, v). s (placeholder (Suc i))) (enumerate 0 svs)"

definition bound :: "((jsstr \<Rightarrow> jsstr) \<times> jsval) list \<Rightarrow> clauses" where
  "bound svs = (number_clauses svs, map snd svs)"

lemma bind_bound: "bind_clause s v (bound svs) = bound (svs @ [(s, v)])"
  by (simp add: bind_clause_def bound_def number_clauses_def Let_def enumerate_append_eq)

lemma bind_optional_bound:
  "bind_optional s val v (bound svs) = bound (svs @ (case v of None \<Rightarrow> [] | Some t \<Rightarrow> [(s, val t)]))"
  by (simp add: bind_optional_def bind_bound split: option.splits)

lemma fold_bound:
  "fold (\<lambda>a. bind_clause s (val a)) as (bound svs) = bound (svs @ map (\<lambda>a. (s, val a)) as)"
  by (induction as arbitrary: svs) (simp_all add: bind_bound)

lemma filter_clauses_bound: "filter_clauses f = bound (shapes_values f)"
proof -
  have "([], []) = bound []" by (simp add: bound_def number_clauses_def)
  then show ?thesis
    unfolding filter_clauses_def bind_optional_bound fold_bound
    by (simp only: bind_optional_bound fold_bound) (simp add: shapes_values_def Let_def)
qed

text \<open>Which filters are present, and how many attributes.\<close>

definition same_shape :: "LogFilters \<Rightarrow> LogFilters \<Rightarrow> bool" where
  "same_shape f g \<longleftrightarrow>
     (filter_service f = None) = (filter_service g = None) \<and> (filter_level f = None) = (filter_level g = None) \<and>
     (filter_since f = None) = (filter_since g = None) \<and> (filter_until f = None) = (filter_until g = None) \<and>
     length (filter_attributes f) = length (filter_attributes g) \<and> (filter_q f = None) = (filter_q g = None)"

lemma shapes_of:
  "map fst (shapes_values f) =
     (if filter_service f = None then [] else [service_clause]) @
     (if filter_level f = None then [] else [level_clause]) @
     (if filter_since f = None then [] else [since_clause]) @
     (if filter_until f = None then [] else [until_clause]) @
     replicate (length (filter_attributes f)) attribute_clause @
     (if filter_q f = None then [] else [search_clause])"
proof -
  have one: "map fst (case v of None \<Rightarrow> [] | Some t \<Rightarrow> [(s, val t)]) = (if v = None then [] else [s])"
    for s :: "jsstr \<Rightarrow> jsstr" and val :: "jsstr \<Rightarrow> jsval" and v :: "jsstr option"
    by (cases v) auto
  have attrs: "map fst (map (\<lambda>a. (s, val a)) as) = replicate (length as) s"
    for s :: "jsstr \<Rightarrow> jsstr" and val :: "AttributeFilter \<Rightarrow> jsval" and as
    by (induction as) auto
  show ?thesis unfolding shapes_values_def Let_def map_append one attrs by (rule refl)
qed

lemma same_shape_clauses: "same_shape f g \<Longrightarrow> map fst (shapes_values f) = map fst (shapes_values g)"
  unfolding shapes_of same_shape_def by simp

lemma number_clauses_Nil: "number_clauses svs = [] \<longleftrightarrow> svs = []"
  by (cases svs) (simp_all add: number_clauses_def)

lemma number_clauses_shape:
  assumes "map fst svs = map fst tvs"
  shows "number_clauses svs = number_clauses tvs"
proof -
  have "map (\<lambda>(i, s, v). s (placeholder (Suc i))) (enumerate n svs) =
      map (\<lambda>(i, s). s (placeholder (Suc i))) (enumerate n (map fst svs))"
    for n and svs :: "((jsstr \<Rightarrow> jsstr) \<times> jsval) list"
    by (induction svs arbitrary: n) auto
  with assms show ?thesis by (simp add: number_clauses_def)
qed

subsection \<open>What the encoded values mean\<close>

text \<open>
  \<open>LIKE\<close> with the escape character backslash, as PostgreSQL documents it: an escaped character
  stands for itself, an underscore for any one character, a percent sign for any text. \<open>same\<close>
  is the comparison of characters, which ignores case for \<open>ILIKE\<close>.
\<close>

function like :: "(code_unit \<Rightarrow> code_unit \<Rightarrow> bool) \<Rightarrow> jsstr \<Rightarrow> jsstr \<Rightarrow> bool" where
  "like same [] s = (s = [])"
| "like same (c # p) s =
     (if c = 92 then (case (p, s) of (d # p', x # s') \<Rightarrow> same d x \<and> like same p' s' | _ \<Rightarrow> False)
      else if c = cu CHR ''%'' then
        like same p s \<or> (case s of [] \<Rightarrow> False | x # s' \<Rightarrow> like same (c # p) s')
      else (case s of [] \<Rightarrow> False | x # s' \<Rightarrow> (c = cu CHR ''_'' \<or> same c x) \<and> like same p s'))"
  by pat_completeness auto
termination
  by (relation "measure (\<lambda>(same, p, s). length p + length s)") auto

lemma like_escaped:
  "like same (escapeLikeLiteral q @ p) s \<longleftrightarrow>
     (\<exists>m r. s = m @ r \<and> list_all2 same q m \<and> like same p r)"
proof (induction q arbitrary: s)
  case (Cons c q)
  have "like same (escapeLikeLiteral (c # q) @ p) s \<longleftrightarrow>
      (case s of [] \<Rightarrow> False | x # s' \<Rightarrow> same c x \<and> like same (escapeLikeLiteral q @ p) s')"
    by (auto split: list.splits)
  also have "\<dots> \<longleftrightarrow> (\<exists>m r. s = m @ r \<and> list_all2 same (c # q) m \<and> like same p r)"
    by (cases s) (auto simp: Cons.IH list_all2_Cons1 Cons_eq_append_conv)
  finally show ?case .
qed simp

lemma like_percent:
  "like same (cu CHR ''%'' # p) s \<longleftrightarrow>
     like same p s \<or> (case s of [] \<Rightarrow> False | x # s' \<Rightarrow> like same (cu CHR ''%'' # p) s')"
  by (subst like.simps) (simp add: cu_def)

lemma like_any: "like same (cu CHR ''%'' # p) s \<longleftrightarrow> (\<exists>a b. s = a @ b \<and> like same p b)"
proof (induction s)
  case Nil
  then show ?case by (subst like_percent) simp
next
  case (Cons x s)
  then show ?case by (subst like_percent) (auto simp: Cons_eq_append_conv simp del: like.simps)
qed

lemma like_search:
  "like same (search_pattern q) s \<longleftrightarrow> (\<exists>a m b. s = a @ m @ b \<and> list_all2 same q m)"
proof -
  have "like same (js ''%'') r" for r
    using like_any [of same "[]" r] by (simp add: js_def del: like.simps(2))
  then show ?thesis
    using like_any [of same "escapeLikeLiteral q @ js ''%''" s] like_escaped [of same q "js ''%''"]
    by (simp add: search_pattern_def js_def del: like.simps) blast
qed

lemma serialize_pair: "serializeAttributeFilter a = json_pair (attr_key a) (attr_value a)"
  by (simp add: serializeAttributeFilter_def stringify_pair)

subsection \<open>Properties\<close>

text \<open>
  C38. No injection: the predicate text is the same for any two filter sets that use the same
  filters (and as many attributes), whatever their contents, and it has exactly one placeholder
  per bound value: clause \<open>i\<close> is its fixed shape around \<open>$i\<close>, and value \<open>i\<close> is what it is about.
\<close>

theorem predicate_text_from_shape:
  "(same_shape f g \<longrightarrow> predicate_text (buildLogPredicate f) = predicate_text (buildLogPredicate g)) \<and>
   predicate_text (buildLogPredicate f) =
     (if shapes_values f = [] then js ''TRUE''
      else intersperse_join (js '' AND '') (number_clauses (shapes_values f))) \<and>
   predicate_values (buildLogPredicate f) = map snd (shapes_values f)"
proof -
  have shown: "predicate_text (buildLogPredicate h) =
      (if shapes_values h = [] then js ''TRUE''
       else intersperse_join (js '' AND '') (number_clauses (shapes_values h)))" for h
    by (simp add: buildLogPredicate_def filter_clauses_bound bound_def number_clauses_Nil)
  have "predicate_text (buildLogPredicate f) = predicate_text (buildLogPredicate g)" if "same_shape f g"
    using same_shape_clauses [OF that] number_clauses_shape [OF same_shape_clauses [OF that]]
    unfolding shown by (metis map_is_Nil_conv)
  then show ?thesis
    using shown by (simp add: buildLogPredicate_def filter_clauses_bound bound_def)
qed

definition sample_filters :: "jsstr \<Rightarrow> LogFilters" where
  "sample_filters s = \<lparr>filter_service = Some s, filter_level = None, filter_since = None, filter_until = None,
     filter_attributes = [\<lparr>attr_key = s, attr_value = s\<rparr>], filter_q = Some s\<rparr>"

theorem predicate_text_from_shape_witness:
  "predicate_text (buildLogPredicate (sample_filters (js ''x'') )) =
     predicate_text (buildLogPredicate (sample_filters (js ''x; DROP TABLE logs'')))"
proof -
  have "same_shape (sample_filters (js ''x'')) (sample_filters (js ''x; DROP TABLE logs''))"
    by (simp add: same_shape_def sample_filters_def)
  with predicate_text_from_shape [of "sample_filters (js ''x'')" "sample_filters (js ''x; DROP TABLE logs'')"]
  show ?thesis by blast
qed

text \<open>
  C35. The search text is literal: the pattern bound for \<open>q\<close> matches a message exactly when the
  message contains \<open>q\<close>, character by character under the comparison that \<open>ILIKE\<close> uses, even when
  \<open>q\<close> has wildcards or backslashes. And the containment value of an attribute filter is JSON that
  parses to the object with that one key and value.
\<close>

theorem encoded_values_are_literal:
  "(like same (search_pattern q) s \<longleftrightarrow> (\<exists>a m b. s = a @ m @ b \<and> list_all2 same q m)) \<and>
   json_parse (serializeAttributeFilter a) = Some (plain [(attr_key a, JStr (attr_value a))])"
  using like_search parse_pair by (simp add: serialize_pair)

end
