(* ===== verification/Encoding.thy ===== *)
theory Encoding
  imports Prelude
begin

section \<open>UTF-8, base64url and hexadecimal\<close>

text \<open>
  What \<open>Buffer\<close> and \<open>TextDecoder\<close> do with texts and bytes: UTF-8 encoding with lone surrogates
  replaced, fatal decoding, base64url without padding, and lower-case hexadecimal. The lemmas
  show that decoding inverts encoding, for base64url on all bytes and for UTF-8 on ASCII.
\<close>

subsection \<open>Base64url\<close>

text \<open>The 64 digits and their values.\<close>

definition b64_digit :: "nat \<Rightarrow> code_unit" where
  "b64_digit n =
     (if n < 26 then of_nat (65 + n) else if n < 52 then of_nat (71 + n)
      else if n < 62 then of_nat (n - 4) else if n = 62 then 45 else 95)"

definition b64_value :: "code_unit \<Rightarrow> nat option" where
  "b64_value c =
     (let n = unat c
      in if 65 \<le> n \<and> n \<le> 90 then Some (n - 65)
         else if 97 \<le> n \<and> n \<le> 122 then Some (n - 71)
         else if 48 \<le> n \<and> n \<le> 57 then Some (n + 4)
         else if n = 45 then Some 62 else if n = 95 then Some 63 else None)"

fun base64url_encode :: "byte list \<Rightarrow> jsstr" where
  "base64url_encode (a # b # c # bs) =
     (let n = unat a * 65536 + unat b * 256 + unat c
      in b64_digit (n div 262144) # b64_digit (n div 4096 mod 64) # b64_digit (n div 64 mod 64) #
         b64_digit (n mod 64) # base64url_encode bs)"
| "base64url_encode [a, b] =
     (let n = unat a * 256 + unat b
      in [b64_digit (n div 1024), b64_digit (n div 16 mod 64), b64_digit (n mod 16 * 4)])"
| "base64url_encode [a] =
     [b64_digit (unat a div 4), b64_digit (unat a mod 4 * 16)]"
| "base64url_encode [] = []"

text \<open>On the digit values; a last digit with too few bits for a byte is dropped.\<close>

fun base64_bytes :: "nat list \<Rightarrow> byte list" where
  "base64_bytes (a # b # c # d # ds) =
     (let n = a * 262144 + b * 4096 + c * 64 + d
      in of_nat (n div 65536) # of_nat (n div 256 mod 256) # of_nat (n mod 256) # base64_bytes ds)"
| "base64_bytes [a, b, c] =
     (let n = a * 1024 + b * 16 + c div 4 in [of_nat (n div 256), of_nat (n mod 256)])"
| "base64_bytes [a, b] = [of_nat (a * 4 + b div 16)]"
| "base64_bytes _ = []"

text \<open>\<open>/^[A-Za-z0-9_-]+$/u\<close>.\<close>

definition base64url_pattern :: "jsstr \<Rightarrow> bool" where
  "base64url_pattern s \<longleftrightarrow> s \<noteq> [] \<and> list_all (\<lambda>c. b64_value c \<noteq> None) s"

text \<open>\<open>Buffer.from(text, "base64url")\<close> on a text of digits.\<close>

definition base64url_decode :: "jsstr \<Rightarrow> byte list" where
  "base64url_decode s = base64_bytes (map (\<lambda>c. case b64_value c of Some n \<Rightarrow> n | None \<Rightarrow> 0) s)"

lemma b64_value_digit: "n < 64 \<Longrightarrow> b64_value (b64_digit n) = Some n"
proof -
  assume n: "n < 64"
  have u: "m < 65536 \<Longrightarrow> unat (of_nat m :: code_unit) = m" for m
    by (simp only: unat_of_nat) (simp add: take_bit_eq_mod)
  consider "n < 26" | "26 \<le> n" "n < 52" | "52 \<le> n" "n < 62" | "n = 62" | "n = 63" using n by linarith
  then show ?thesis
    by cases (auto simp: b64_value_def b64_digit_def Let_def u simp del: of_nat_add of_nat_diff)
qed

lemma byte_bound: "unat (a :: byte) < 256"
proof -
  have "unat a < 2 ^ LENGTH(8)" by (rule unsigned_less)
  then show ?thesis by simp
qed

lemma of_nat_byte: "(of_nat (unat a) :: byte) = a"
  by simp

definition digits_of :: "jsstr \<Rightarrow> nat list" where
  "digits_of s = map (\<lambda>c. case b64_value c of Some n \<Rightarrow> n | None \<Rightarrow> 0) s"

lemma digits_of_digit: "n < 64 \<Longrightarrow> digits_of (b64_digit n # s) = n # digits_of s"
  by (simp add: digits_of_def b64_value_digit)

lemma three_bytes:
  fixes a b c :: nat
  assumes "a < 256" "b < 256" "c < 256"
  defines "n \<equiv> a * 65536 + b * 256 + c"
  shows "n div 262144 < 64" "n div 262144 * 262144 + n div 4096 mod 64 * 4096 + n div 64 mod 64 * 64 + n mod 64 = n"
    "n div 65536 = a" "n div 256 mod 256 = b" "n mod 256 = c"
proof -
  have b: "n < 16777216" using assms by simp
  then show "n div 262144 < 64" by (simp add: less_mult_imp_div_less)
  have "n div 64 * 64 + n mod 64 = n" "n div 64 div 64 * 64 + n div 64 mod 64 = n div 64"
    "n div 4096 div 64 * 64 + n div 4096 mod 64 = n div 4096" by simp_all
  moreover have "n div 64 div 64 = n div 4096" "n div 4096 div 64 = n div 262144" by (simp_all flip: div_mult2_eq)
  ultimately show "n div 262144 * 262144 + n div 4096 mod 64 * 4096 + n div 64 mod 64 * 64 + n mod 64 = n" by linarith
  define q where "q = a * 256 + b"
  have n: "n = q * 256 + c" by (simp add: n_def q_def)
  have q: "n div 256 = q" "n mod 256 = c" using assms(3) by (simp_all add: n)
  then show "n mod 256 = c" by simp
  have qb: "q div 256 = a" "q mod 256 = b" using assms(2) by (simp_all add: q_def)
  then show "n div 256 mod 256 = b" by (simp only: q)
  have "n div 65536 = n div 256 div 256" by (simp flip: div_mult2_eq)
  then show "n div 65536 = a" by (simp only: q qb)
qed

lemma two_bytes:
  fixes a b :: nat
  assumes "a < 256" "b < 256"
  defines "n \<equiv> a * 256 + b"
  shows "n div 1024 < 64" "n mod 16 * 4 < 64"
    "n div 1024 * 1024 + n div 16 mod 64 * 16 + n mod 16 * 4 div 4 = n" "n div 256 = a" "n mod 256 = b"
proof -
  have "n < 65536" using assms by simp
  then show "n div 1024 < 64" by (simp add: less_mult_imp_div_less)
  have "n mod 16 < 16" by simp
  then show "n mod 16 * 4 < 64" by linarith
  have "n div 16 * 16 + n mod 16 = n" "n div 16 div 64 * 64 + n div 16 mod 64 = n div 16" by simp_all
  moreover have "n div 16 div 64 = n div 1024" by (simp flip: div_mult2_eq)
  moreover have "n mod 16 * 4 div 4 = n mod 16" by simp
  ultimately show "n div 1024 * 1024 + n div 16 mod 64 * 16 + n mod 16 * 4 div 4 = n"
    by linarith
  show "n div 256 = a" "n mod 256 = b" using assms(2) by (simp_all add: n_def)
qed

lemma one_byte:
  fixes a :: nat
  assumes "a < 256"
  shows "a div 4 < 64" "a mod 4 * 16 < 64" "a div 4 * 4 + a mod 4 * 16 div 16 = a"
proof -
  show "a div 4 < 64" using assms by (simp add: less_mult_imp_div_less)
  have "a mod 4 < 4" by simp
  then show "a mod 4 * 16 < 64" by linarith
  show "a div 4 * 4 + a mod 4 * 16 div 16 = a" by simp
qed

lemma base64_roundtrip: "base64_bytes (digits_of (base64url_encode bs)) = bs"
proof (induction bs rule: base64url_encode.induct)
  case (1 a b c bs)
  note t = three_bytes [OF byte_bound [of a] byte_bound [of b] byte_bound [of c]]
  show ?case
    using 1 t by (simp add: Let_def digits_of_digit of_nat_byte del: of_nat_add of_nat_mult)
next
  case (2 a b)
  note t = two_bytes [OF byte_bound [of a] byte_bound [of b]]
  have "digits_of [] = []" by (simp add: digits_of_def)
  with t show ?case
    by (simp add: Let_def digits_of_digit of_nat_byte del: of_nat_add of_nat_mult nonzero_mult_div_cancel_right)
next
  case (3 a)
  note t = one_byte [OF byte_bound [of a]]
  have "digits_of [] = []" by (simp add: digits_of_def)
  with t show ?case
    by (simp add: digits_of_digit of_nat_byte del: of_nat_add of_nat_mult nonzero_mult_div_cancel_right)
qed (simp add: digits_of_def)

lemma base64url_roundtrip: "base64url_decode (base64url_encode bs) = bs"
  using base64_roundtrip [of bs] by (simp add: base64url_decode_def digits_of_def)

lemma base64url_encode_digits: "list_all (\<lambda>c. b64_value c \<noteq> None) (base64url_encode bs)"
proof (induction bs rule: base64url_encode.induct)
  case (1 a b c bs)
  with three_bytes [OF byte_bound [of a] byte_bound [of b] byte_bound [of c]] show ?case
    by (simp add: Let_def b64_value_digit)
next
  case (2 a b)
  with two_bytes [OF byte_bound [of a] byte_bound [of b]] show ?case by (simp add: Let_def b64_value_digit)
next
  case (3 a)
  with one_byte [OF byte_bound [of a]] show ?case by (simp add: b64_value_digit)
qed simp

lemma base64url_encode_pattern: "bs \<noteq> [] \<Longrightarrow> base64url_pattern (base64url_encode bs)"
  using base64url_encode_digits [of bs]
  by (cases bs rule: base64url_encode.cases) (simp_all add: base64url_pattern_def Let_def)

subsection \<open>UTF-8\<close>

definition high_surrogate :: "nat \<Rightarrow> bool" where "high_surrogate n \<longleftrightarrow> 0xD800 \<le> n \<and> n \<le> 0xDBFF"
definition low_surrogate :: "nat \<Rightarrow> bool" where "low_surrogate n \<longleftrightarrow> 0xDC00 \<le> n \<and> n \<le> 0xDFFF"

definition utf8_scalar :: "nat \<Rightarrow> byte list" where
  "utf8_scalar n =
     (if n < 0x80 then [of_nat n]
      else if n < 0x800 then [of_nat (0xC0 + n div 64), of_nat (0x80 + n mod 64)]
      else if n < 0x10000 then
        [of_nat (0xE0 + n div 4096), of_nat (0x80 + n div 64 mod 64), of_nat (0x80 + n mod 64)]
      else
        [of_nat (0xF0 + n div 262144), of_nat (0x80 + n div 4096 mod 64),
         of_nat (0x80 + n div 64 mod 64), of_nat (0x80 + n mod 64)])"

text \<open>\<open>Buffer.from(text, "utf8")\<close>: a lone surrogate becomes U+FFFD.\<close>

fun utf8_encode :: "jsstr \<Rightarrow> byte list" where
  "utf8_encode [] = []"
| "utf8_encode (c # s) =
     (if high_surrogate (unat c) \<and> s \<noteq> [] \<and> low_surrogate (unat (hd s))
      then utf8_scalar (0x10000 + (unat c - 0xD800) * 1024 + (unat (hd s) - 0xDC00)) @ utf8_encode (tl s)
      else if high_surrogate (unat c) \<or> low_surrogate (unat c)
      then utf8_scalar 0xFFFD @ utf8_encode s
      else utf8_scalar (unat c) @ utf8_encode s)"

definition continuation :: "byte \<Rightarrow> nat option" where
  "continuation b = (let n = unat b in if 0x80 \<le> n \<and> n < 0xC0 then Some (n - 0x80) else None)"

text \<open>The code units of a scalar value.\<close>

definition scalar_units :: "nat \<Rightarrow> jsstr" where
  "scalar_units n =
     (if n < 0x10000 then [of_nat n]
      else [of_nat (0xD800 + (n - 0x10000) div 1024), of_nat (0xDC00 + (n - 0x10000) mod 1024)])"

text \<open>The body of \<open>new TextDecoder("utf-8", { fatal: true }).decode\<close>: \<open>None\<close> where it throws.\<close>

fun utf8_decode_body :: "byte list \<Rightarrow> jsstr option" where
  "utf8_decode_body [] = Some []"
| "utf8_decode_body (a # r) =
     (let n = unat a
      in if n < 0x80 then map_option ((@) [of_nat n]) (utf8_decode_body r)
         else if 0xC2 \<le> n \<and> n < 0xE0 then
           (case r of
              b # r' \<Rightarrow>
                (case continuation b of
                   Some x \<Rightarrow> map_option ((@) (scalar_units ((n - 0xC0) * 64 + x))) (utf8_decode_body r')
                 | None \<Rightarrow> None)
            | [] \<Rightarrow> None)
         else if 0xE0 \<le> n \<and> n < 0xF0 then
           (case r of
              b # c # r' \<Rightarrow>
                (case (continuation b, continuation c) of
                   (Some x, Some y) \<Rightarrow>
                     (let v = (n - 0xE0) * 4096 + x * 64 + y
                      in if v < 0x800 \<or> (0xD800 \<le> v \<and> v \<le> 0xDFFF) then None
                         else map_option ((@) (scalar_units v)) (utf8_decode_body r'))
                 | _ \<Rightarrow> None)
            | _ \<Rightarrow> None)
         else if 0xF0 \<le> n \<and> n < 0xF5 then
           (case r of
              b # c # d # r' \<Rightarrow>
                (case (continuation b, continuation c, continuation d) of
                   (Some x, Some y, Some z) \<Rightarrow>
                     (let v = (n - 0xF0) * 262144 + x * 4096 + y * 64 + z
                      in if v < 0x10000 \<or> 0x10FFFF < v then None
                         else map_option ((@) (scalar_units v)) (utf8_decode_body r'))
                 | _ \<Rightarrow> None)
            | _ \<Rightarrow> None)
         else None)"

text \<open>The decoder drops a leading byte order mark.\<close>

definition utf8_decode :: "byte list \<Rightarrow> jsstr option" where
  "utf8_decode bs =
     utf8_decode_body (if take 3 bs = [0xEF, 0xBB, 0xBF] then drop 3 bs else bs)"

definition is_ascii :: "jsstr \<Rightarrow> bool" where
  "is_ascii s \<longleftrightarrow> list_all (\<lambda>c. unat c < 128) s"

lemma utf8_encode_ascii: "is_ascii s \<Longrightarrow> utf8_encode s = map (\<lambda>c. of_nat (unat c)) s"
  by (induction s) (auto simp: is_ascii_def utf8_scalar_def high_surrogate_def low_surrogate_def)

lemma unat_byte_ascii: "n < 128 \<Longrightarrow> unat (of_nat n :: byte) = n"
  by (simp only: unat_of_nat) (simp add: take_bit_eq_mod)

lemma utf8_decode_body_ascii:
  "is_ascii s \<Longrightarrow> utf8_decode_body (map (\<lambda>c. of_nat (unat c)) s) = Some s"
proof (induction s)
  case (Cons c s)
  then have "unat c < 128" by (simp add: is_ascii_def)
  then have "unat (of_nat (unat c) :: byte) = unat c" by (rule unat_byte_ascii)
  with Cons show ?case by (simp add: is_ascii_def Let_def)
qed simp

lemma utf8_roundtrip_ascii: "is_ascii s \<Longrightarrow> utf8_decode (utf8_encode s) = Some s"
proof -
  assume s: "is_ascii s"
  have "take 3 (utf8_encode s) \<noteq> [0xEF, 0xBB, 0xBF]"
  proof (cases s)
    case (Cons c t)
    then have "unat c < 128" using s by (simp add: is_ascii_def)
    with unat_byte_ascii [of "unat c"] have "unat (of_nat (unat c) :: byte) \<noteq> unat (0xEF :: byte)"
      by (simp only:) simp
    then have "(of_nat (unat c) :: byte) \<noteq> 0xEF" by metis
    moreover have "utf8_encode s = of_nat (unat c) # map (\<lambda>c. of_nat (unat c)) t"
      using utf8_encode_ascii [OF s] by (simp only: Cons list.map)
    ultimately show ?thesis by (simp only: take_Suc_Cons numeral_3_eq_3) simp
  qed simp
  then show ?thesis
    using utf8_decode_body_ascii [OF s] unfolding utf8_decode_def utf8_encode_ascii [OF s] by (simp only: if_False)
qed

subsection \<open>Hexadecimal\<close>

definition hex_unit :: "nat \<Rightarrow> code_unit" where
  "hex_unit d = (if d < 10 then of_nat (48 + d) else of_nat (87 + d))"

definition is_hex :: "code_unit \<Rightarrow> bool" where
  "is_hex c \<longleftrightarrow> is_digit c \<or> (cu CHR ''a'' \<le> c \<and> c \<le> cu CHR ''f'')"

lemma is_hex_unit: "d < 16 \<Longrightarrow> is_hex (hex_unit d)"
proof -
  assume d: "d < 16"
  have u: "m < 65536 \<Longrightarrow> unat (of_nat m :: code_unit) = m" for m
    by (simp only: unat_of_nat) (simp add: take_bit_eq_mod)
  show ?thesis
  proof (cases "d < 10")
    case True
    then show ?thesis using d u [of "48 + d"] by (simp add: is_hex_def hex_unit_def is_digit_unat del: of_nat_add)
  next
    case False
    then show ?thesis using d u [of "87 + d"]
      by (simp add: is_hex_def hex_unit_def word_le_nat_alt cu_def del: of_nat_add)
  qed
qed

end
