(* ===== verification/Sha256.thy ===== *)
theory Sha256
  imports Encoding
begin

section \<open>SHA-256\<close>

text \<open>
  What \<open>createHash("sha256").update(bytes).digest()\<close> of \<open>node:crypto\<close> computes, after FIPS 180-4:
  padding, the message schedule, the compression of a block and the digest in hexadecimal. It is
  used for the fingerprint of a filter set and the checksum of a migration file.
\<close>

unbundle bit_operations_syntax

type_synonym w32 = "32 word"
type_synonym hash_state = "w32 \<times> w32 \<times> w32 \<times> w32 \<times> w32 \<times> w32 \<times> w32 \<times> w32"

definition ROUND_CONSTANTS :: "w32 list" where
  "ROUND_CONSTANTS =
    [1116352408, 1899447441, 3049323471, 3921009573, 961987163, 1508970993, 2453635748, 2870763221,
     3624381080, 310598401, 607225278, 1426881987, 1925078388, 2162078206, 2614888103, 3248222580,
     3835390401, 4022224774, 264347078, 604807628, 770255983, 1249150122, 1555081692, 1996064986,
     2554220882, 2821834349, 2952996808, 3210313671, 3336571891, 3584528711, 113926993, 338241895,
     666307205, 773529912, 1294757372, 1396182291, 1695183700, 1986661051, 2177026350, 2456956037,
     2730485921, 2820302411, 3259730800, 3345764771, 3516065817, 3600352804, 4094571909, 275423344,
     430227734, 506948616, 659060556, 883997877, 958139571, 1322822218, 1537002063, 1747873779,
     1955562222, 2024104815, 2227730452, 2361852424, 2428436474, 2756734187, 3204031479, 3329325298]"

definition INITIAL_HASH :: hash_state where
  "INITIAL_HASH = (1779033703, 3144134277, 1013904242, 2773480762, 1359893119, 2600822924, 528734635, 1541459225)"

subsection \<open>Padding and blocks\<close>

text \<open>The big-endian bytes of a number, and the word four bytes make.\<close>

primrec be_bytes :: "nat \<Rightarrow> nat \<Rightarrow> byte list" where
  "be_bytes 0 n = []"
| "be_bytes (Suc k) n = be_bytes k (n div 256) @ [of_nat (n mod 256)]"

definition be_word :: "byte list \<Rightarrow> w32" where
  "be_word bs = of_nat (foldl (\<lambda>n b. n * 256 + unat b) 0 bs)"

text \<open>A 1 bit, zeros up to 8 bytes before a block's end, and the length in bits.\<close>

definition pad_message :: "byte list \<Rightarrow> byte list" where
  "pad_message m =
     m @ 0x80 # replicate ((119 - length m mod 64) mod 64) 0 @ be_bytes 8 (8 * length m)"

fun chunks :: "nat \<Rightarrow> 'a list \<Rightarrow> 'a list list" where
  "chunks k xs = (if k = 0 \<or> xs = [] then [] else take k xs # chunks k (drop k xs))"

declare chunks.simps [simp del]

subsection \<open>Compression\<close>

definition rotr :: "nat \<Rightarrow> w32 \<Rightarrow> w32" where
  "rotr n x = (drop_bit n x OR push_bit (32 - n) x)"

text \<open>
  The schedule as a sliding window: the last sixteen words, oldest first. Each round uses the
  oldest and appends the next.
\<close>

definition next_word :: "w32 list \<Rightarrow> w32" where
  "next_word w =
     (let s0 = rotr 7 (w ! 1) XOR rotr 18 (w ! 1) XOR drop_bit 3 (w ! 1);
          s1 = rotr 17 (w ! 14) XOR rotr 19 (w ! 14) XOR drop_bit 10 (w ! 14)
      in w ! 0 + s0 + w ! 9 + s1)"

definition sha_round :: "w32 \<Rightarrow> w32 \<Rightarrow> hash_state \<Rightarrow> hash_state" where
  "sha_round k w st =
     (case st of (a, b, c, d, e, f, g, h) \<Rightarrow>
        let S1 = rotr 6 e XOR rotr 11 e XOR rotr 25 e;
            ch = (e AND f) XOR (NOT e AND g);
            t1 = h + S1 + ch + k + w;
            S0 = rotr 2 a XOR rotr 13 a XOR rotr 22 a;
            maj = (a AND b) XOR (a AND c) XOR (b AND c)
        in (t1 + (S0 + maj), a, b, c, d + t1, e, f, g))"

primrec sha_rounds :: "w32 list \<Rightarrow> w32 list \<Rightarrow> hash_state \<Rightarrow> hash_state" where
  "sha_rounds [] w st = st"
| "sha_rounds (k # ks) w st = sha_rounds ks (tl w @ [next_word w]) (sha_round k (hd w) st)"

definition add_states :: "hash_state \<Rightarrow> hash_state \<Rightarrow> hash_state" where
  "add_states s t =
     (case (s, t) of ((a, b, c, d, e, f, g, h), (a', b', c', d', e', f', g', h')) \<Rightarrow>
        (a + a', b + b', c + c', d + d', e + e', f + f', g + g', h + h'))"

definition sha_block :: "byte list \<Rightarrow> hash_state \<Rightarrow> hash_state" where
  "sha_block block st = add_states st (sha_rounds ROUND_CONSTANTS (map be_word (chunks 4 block)) st)"

definition sha256 :: "byte list \<Rightarrow> byte list" where
  "sha256 m =
     (case fold sha_block (chunks 64 (pad_message m)) INITIAL_HASH of (a, b, c, d, e, f, g, h) \<Rightarrow>
        concat (map (\<lambda>w. be_bytes 4 (unat w)) [a, b, c, d, e, f, g, h]))"

definition hex_of :: "byte list \<Rightarrow> jsstr" where
  "hex_of bs = concat (map (\<lambda>b. [hex_unit (unat b div 16), hex_unit (unat b mod 16)]) bs)"

definition sha256_hex :: "byte list \<Rightarrow> jsstr" where
  "sha256_hex m = hex_of (sha256 m)"

subsection \<open>Facts\<close>

lemma length_be_bytes [simp]: "length (be_bytes k n) = k"
  by (induction k arbitrary: n) auto

lemma length_sha256: "length (sha256 m) = 32"
  by (simp add: sha256_def split: prod.splits)

lemma length_hex_of: "length (hex_of bs) = 2 * length bs"
  by (induction bs) (simp_all add: hex_of_def)

lemma is_hex_hex_of: "list_all is_hex (hex_of bs)"
proof -
  have "is_hex (hex_unit (unat b div 16))" "is_hex (hex_unit (unat b mod 16))" for b :: byte
    using byte_bound [of b] by (simp_all add: is_hex_unit less_mult_imp_div_less)
  then show ?thesis by (induction bs) (simp_all add: hex_of_def)
qed

lemma sha256_hex_digits: "length (sha256_hex m) = 64 \<and> list_all is_hex (sha256_hex m)"
  by (simp add: sha256_hex_def length_hex_of length_sha256 is_hex_hex_of)

end
