(* ===== verification/Cursor.thy ===== *)
theory Cursor
  imports QueryParams JsonFacts Sha256
begin

section \<open>Pagination cursors (\<open>src/modules/query/cursor-codec.ts\<close>)\<close>

text \<open>
  A cursor is the base64url text of a JSON object with a version, a position (timestamp and
  identifier) and the SHA-256 fingerprint of the filters it belongs to. The lemmas show that
  printed payloads are ASCII, that they parse back, and that the canonical JSON of a filter set
  determines it up to the order of its attributes.
\<close>

subsection \<open>Definitions\<close>

definition CURSOR_VERSION :: int where "CURSOR_VERSION = 1"

definition CURSOR_SEMANTICS :: jsstr where
  "CURSOR_SEMANTICS = js ''logstream.cursor.timestamp-desc-id-desc.v1''"

definition INVALID_CURSOR_MESSAGE :: jsstr where
  "INVALID_CURSOR_MESSAGE = js ''Query parameter 'cursor' is invalid.''"

definition is_hexes :: "jsstr \<Rightarrow> bool" where
  "is_hexes s \<longleftrightarrow> list_all is_hex s"

text \<open>\<open>/^[0-9a-f]{8}-[0-9a-f]{4}-4[0-9a-f]{3}-[89ab][0-9a-f]{3}-[0-9a-f]{12}$/u\<close>.\<close>

definition uuid_v4_pattern :: "jsstr \<Rightarrow> bool" where
  "uuid_v4_pattern s \<longleftrightarrow>
     length s = 36 \<and> is_hexes (take 8 s) \<and> s ! 8 = cu CHR ''-'' \<and>
     is_hexes (take 4 (drop 9 s)) \<and> s ! 13 = cu CHR ''-'' \<and>
     s ! 14 = cu CHR ''4'' \<and> is_hexes (take 3 (drop 15 s)) \<and> s ! 18 = cu CHR ''-'' \<and>
     s ! 19 \<in> set (js ''89ab'') \<and> is_hexes (take 3 (drop 20 s)) \<and> s ! 23 = cu CHR ''-'' \<and>
     is_hexes (drop 24 s)"

definition sha_256_hex_pattern :: "jsstr \<Rightarrow> bool" where
  "sha_256_hex_pattern s \<longleftrightarrow> length s = 64 \<and> is_hexes s"

definition PAYLOAD_KEYS :: "jsstr list" where
  "PAYLOAD_KEYS = map js [''version'', ''timestamp'', ''id'', ''filterFingerprint'']"

record LogCursorPosition =
  cursor_timestamp :: jsstr
  cursor_id :: jsstr

record CursorPayload =
  pl_version :: jsval
  pl_timestamp :: jsval
  pl_id :: jsval
  pl_fingerprint :: jsval

definition compareAttributes :: "AttributeFilter \<Rightarrow> AttributeFilter \<Rightarrow> int" where
  "compareAttributes left right =
     (let keyComparison = compare_units (attr_key left) (attr_key right)
      in if keyComparison = 0 then compare_units (attr_value left) (attr_value right) else keyComparison)"

definition nullable :: "jsstr option \<Rightarrow> jsval" where
  "nullable v = (case v of None \<Rightarrow> JNull | Some s \<Rightarrow> JStr s)"

definition json_text :: "jsval \<Rightarrow> jsstr" where
  "json_text v = (case stringify v of Some t \<Rightarrow> t | None \<Rightarrow> js ''undefined'')"

definition canonicalFilterJson :: "LogFilters \<Rightarrow> jsstr" where
  "canonicalFilterJson filters =
     json_text (plain
       [(js ''semantics'', JStr CURSOR_SEMANTICS),
        (js ''service'', nullable (filter_service filters)),
        (js ''level'', nullable (filter_level filters)),
        (js ''since'', nullable (filter_since filters)),
        (js ''until'', nullable (filter_until filters)),
        (js ''q'', nullable (if filter_q filters = Some [] then None else filter_q filters)),
        (js ''attributes'', JArr (map (\<lambda>a. JArr [JStr (attr_key a), JStr (attr_value a)])
           (sort_with compareAttributes (filter_attributes filters))))])"

definition filterFingerprint :: "LogFilters \<Rightarrow> jsstr" where
  "filterFingerprint filters = sha256_hex (utf8_encode (canonicalFilterJson filters))"

definition payloadJson :: "CursorPayload \<Rightarrow> jsstr" where
  "payloadJson p =
     json_text (plain [(js ''version'', pl_version p), (js ''timestamp'', pl_timestamp p),
       (js ''id'', pl_id p), (js ''filterFingerprint'', pl_fingerprint p)])"

definition hasExactPayloadKeys :: "jsval \<Rightarrow> bool" where
  "hasExactPayloadKeys value \<longleftrightarrow>
     length (object_keys value) = length PAYLOAD_KEYS \<and> list_all (has_own value) PAYLOAD_KEYS"

definition encodeLogCursor :: "LogCursorPosition \<Rightarrow> LogFilters \<Rightarrow> jsstr" where
  "encodeLogCursor position filters =
     base64url_encode (utf8_encode (payloadJson
       \<lparr>pl_version = jint CURSOR_VERSION, pl_timestamp = JStr (cursor_timestamp position),
        pl_id = JStr (cursor_id position), pl_fingerprint = JStr (filterFingerprint filters)\<rparr>))"

text \<open>The checks on the parsed payload, from its version on.\<close>

definition check_payload :: "CursorPayload \<Rightarrow> LogFilters \<Rightarrow> LogCursorPosition option" where
  "check_payload payload filters =
     (if pl_version payload \<noteq> jint CURSOR_VERSION then None
      else case (pl_timestamp payload, pl_id payload, pl_fingerprint payload) of
          (JStr t, JStr i, JStr f) \<Rightarrow>
            if \<not> uuid_v4_pattern i \<or> \<not> sha_256_hex_pattern f then None
            else (case parseCanonicalTimestamp t of
                Inl k \<Rightarrow> None
              | Inr ts \<Rightarrow>
                  if canonical ts \<noteq> t then None
                  else if f \<noteq> filterFingerprint filters then None
                  else Some \<lparr>cursor_timestamp = canonical ts, cursor_id = i\<rparr>)
        | _ \<Rightarrow> None)"

definition decode_payload :: "jsstr \<Rightarrow> LogFilters \<Rightarrow> LogCursorPosition option" where
  "decode_payload json filters =
     (case json_parse json of
        None \<Rightarrow> None
      | Some candidate \<Rightarrow>
          if \<not> is_record candidate \<or> \<not> hasExactPayloadKeys candidate then None
          else
            (let payload = \<lparr>pl_version = get_prop candidate (js ''version''),
                            pl_timestamp = get_prop candidate (js ''timestamp''),
                            pl_id = get_prop candidate (js ''id''),
                            pl_fingerprint = get_prop candidate (js ''filterFingerprint'')\<rparr>
             in if payloadJson payload \<noteq> json then None else check_payload payload filters))"

text \<open>Every failure, thrown or returned, is the one error message.\<close>

definition decodeLogCursor :: "jsstr \<Rightarrow> LogFilters \<Rightarrow> jsstr + LogCursorPosition" where
  "decodeLogCursor cursor filters =
     (let found =
        (if \<not> base64url_pattern cursor then None
         else let bytes = base64url_decode cursor
           in if base64url_encode bytes \<noteq> cursor then None
              else case utf8_decode bytes of
                  None \<Rightarrow> None
                | Some json \<Rightarrow>
                    if utf8_encode json \<noteq> bytes then None else decode_payload json filters)
      in case found of None \<Rightarrow> Inl INVALID_CURSOR_MESSAGE | Some position \<Rightarrow> Inr position)"

subsection \<open>The order of attributes\<close>

interpretation attributes: consistent_comparator compareAttributes
  by unfold_locales (auto simp: compareAttributes_def compare_units_def Let_def split: if_splits)

lemma compareAttributes_antisym:
  "compareAttributes a b \<le> 0 \<Longrightarrow> compareAttributes b a \<le> 0 \<Longrightarrow> a = b"
  by (auto simp: compareAttributes_def compare_units_def Let_def split: if_splits)

lemma sort_attributes_mset:
  assumes "mset xs = mset ys"
  shows "sort_with compareAttributes xs = sort_with compareAttributes ys"
  by (rule attributes.sorted_unique [OF attributes.sorted_sort_with attributes.sorted_sort_with])
    (simp_all add: assms compareAttributes_antisym)

subsection \<open>ASCII\<close>

lemma is_ascii_simps [simp]: "is_ascii []" "is_ascii (c # s) \<longleftrightarrow> unat c < 128 \<and> is_ascii s"
  "is_ascii (s @ t) \<longleftrightarrow> is_ascii s \<and> is_ascii t"
  by (simp_all add: is_ascii_def)

lemma ascii_digits: "all_digits s \<Longrightarrow> is_ascii s"
  by (induction s) (auto simp: is_digit_unat)

lemma ascii_hex: "is_hex c \<Longrightarrow> unat c < 128"
  by (auto simp: is_hex_def is_digit_unat word_le_nat_alt cu_def)

lemma ascii_hexes: "is_hexes s \<Longrightarrow> is_ascii s"
  by (induction s) (auto simp: is_hexes_def ascii_hex)

lemma ascii_escape: "unat c < 128 \<Longrightarrow> is_ascii (escape_unit c)"
proof -
  assume c: "unat c < 128"
  have d: "unat (hex_digit d) < 128" if "d < 16" for d
  proof -
    have "unat (of_nat (48 + d) :: code_unit) = 48 + d" "unat (of_nat (87 + d) :: code_unit) = 87 + d"
      using that by (simp_all only: unat_of_nat) (simp_all add: take_bit_eq_mod)
    with that show ?thesis by (simp add: hex_digit_def del: of_nat_add)
  qed
  have "is_ascii (unicode_escape c)"
    using c by (simp add: unicode_escape_def Let_def d js_def cu_def)
  with c show ?thesis by (simp add: escape_unit_def js_def cu_def)
qed

lemma quote_body_ascii: "is_ascii s \<Longrightarrow> quote_body s = concat (map escape_unit s)"
proof (induction s)
  case (Cons c s)
  then have "\<not> is_high_surrogate c" "\<not> is_low_surrogate c"
    by (auto simp: is_high_surrogate_def is_low_surrogate_def word_le_nat_alt)
  with Cons show ?case by simp
qed simp

lemma ascii_quote: "is_ascii s \<Longrightarrow> is_ascii (json_quote s)"
proof -
  assume s: "is_ascii s"
  then have "is_ascii (concat (map escape_unit s))" by (induction s) (auto simp: ascii_escape)
  with s show ?thesis by (simp add: quote_units quote_body_ascii)
qed

lemma ascii_timestamp: "timestamp_pattern s = Some x \<Longrightarrow> is_ascii s"
proof -
  assume s: "timestamp_pattern s = Some x"
  then obtain dt r f r' z where s: "s = dt_text dt @ r" "wf_dt dt" and f: "match_fraction r = Some (f, r')"
    and z: "match_zone r' = Some z"
    by (auto simp: timestamp_pattern_def match_date_time_iff bind_eq_Some_conv split: prod.splits)
  have "is_ascii (dt_text dt)"
    using s(2) by (auto simp: dt_text_def wf_dt_def ascii_digits js_def cu_def)
  moreover have "is_ascii r'"
    using z by (auto simp: match_zone_def take_digits_iff expect_iff bind_eq_Some_conv ascii_digits cu_def
        split: list.splits if_splits)
  then have "is_ascii r"
    using f by (auto simp: match_fraction_def expect_iff take_digits1_iff ascii_digits cu_def
        split: option.splits)
  ultimately show ?thesis using s(1) by simp
qed

lemma ascii_uuid: "uuid_v4_pattern s \<Longrightarrow> is_ascii s"
proof -
  assume u: "uuid_v4_pattern s"
  define parts where "parts = take 8 s @ s ! 8 # take 4 (drop 9 s) @ s ! 13 # s ! 14 # take 3 (drop 15 s) @
     s ! 18 # s ! 19 # take 3 (drop 20 s) @ s ! 23 # drop 24 s"
  have step: "drop i s = s ! i # drop (Suc i) s" if "i < 36" for i
    using u that by (intro Cons_nth_drop_Suc [symmetric]) (simp add: uuid_v4_pattern_def)
  have split: "drop i s = take k (drop i s) @ drop (k + i) s" for i k
    by (metis append_take_drop_id drop_drop)
  have "s = take 8 s @ drop 8 s" by simp
  also have "drop 8 s = s ! 8 # take 4 (drop 9 s) @ drop 13 s" using step [of 8] split [of 9 4] by simp
  also have "drop 13 s = s ! 13 # s ! 14 # take 3 (drop 15 s) @ drop 18 s"
    using step [of 13] step [of 14] split [of 15 3] by simp
  also have "drop 18 s = s ! 18 # s ! 19 # take 3 (drop 20 s) @ drop 23 s"
    using step [of 18] step [of 19] split [of 20 3] by simp
  also have "drop 23 s = s ! 23 # drop 24 s" using step [of 23] by simp
  finally have "s = parts" by (simp add: parts_def)
  moreover have "is_ascii parts"
    using u by (auto simp: parts_def uuid_v4_pattern_def ascii_hexes cu_def js_def)
  ultimately show ?thesis by simp
qed

subsection \<open>The payload\<close>

lemma quote_not_brace: "(34 :: code_unit) \<noteq> 125"
  by simp

definition cursor_json :: "jsstr \<Rightarrow> jsstr \<Rightarrow> jsstr \<Rightarrow> jsstr" where
  "cursor_json t i f =
     123 # json_quote (js ''version'') @ 58 # 49 # 44 # json_quote (js ''timestamp'') @ 58 # json_quote t @
     44 # json_quote (js ''id'') @ 58 # json_quote i @
     44 # json_quote (js ''filterFingerprint'') @ 58 # json_quote f @ [125]"

lemma json_one: "json_number (JFin 1) = [49]"
  by code_simp

lemma payloadJson_cursor:
  "payloadJson \<lparr>pl_version = jint 1, pl_timestamp = JStr t, pl_id = JStr i, pl_fingerprint = JStr f\<rparr> =
     cursor_json t i f"
  by (simp add: payloadJson_def json_text_def plain_def jint_def json_one cursor_json_def js_def cu_def)

lemma ascii_cursor_json: "is_ascii t \<Longrightarrow> is_ascii i \<Longrightarrow> is_ascii f \<Longrightarrow> is_ascii (cursor_json t i f)"
proof -
  have "is_ascii (js ''version'')" "is_ascii (js ''timestamp'')" "is_ascii (js ''id'')"
    "is_ascii (js ''filterFingerprint'')"
    by (simp_all add: js_def cu_def)
  then show "is_ascii t \<Longrightarrow> is_ascii i \<Longrightarrow> is_ascii f \<Longrightarrow> is_ascii (cursor_json t i f)"
    by (simp add: cursor_json_def ascii_quote)
qed

lemma decimal_one: "number_of_decimal False 1 = JFin 1"
proof -
  have half: "round_half_even (of_int k) = k" for k by (simp add: round_half_even_def)
  have "floor_log2 1 = 0" by (simp add: floor_log2_def pow2_def)
  moreover have "round_half_even (1 / pow2 (- 52)) = 4503599627370496"
    using half [of 4503599627370496] by (simp add: pow2_def)
  ultimately have "round_double 1 = 1" by (simp add: round_double_def pow2_def Let_def)
  then show ?thesis by (simp add: number_of_decimal_def pow2_def)
qed

lemma parse_number_one: "parse_number (49 # 44 # r) = Some (JFin 1, 44 # r)"
proof -
  have d: "is_digit 49" "\<not> is_digit 44" "digit_val 49 = 1" by (simp_all add: is_digit_def digit_val_def)
  have p: "pow10 0 = 1" by (simp add: pow10_def)
  from d p show ?thesis by (simp add: parse_number_def parse_exponent_def Let_def cu_def read_dec_def decimal_one)
qed

lemma parse_one: "parse_value (Suc fuel) (49 # 44 # r) = Some (JNum (JFin 1), 44 # r)"
proof -
  have "skip_space (49 # 44 # r) = 49 # 44 # r" by (simp add: is_json_space_def)
  moreover have "\<not> starts_with (js t) (49 # 44 # r)" if "t \<in> {''null'', ''true'', ''false''}" for t
    using that by (auto simp: starts_with_def js_def cu_def)
  ultimately show ?thesis by (simp add: parse_number_one cu_def)
qed

lemma parse_cursor_json:
  "json_parse (cursor_json t i f) = Some (plain [(js ''version'', JNum (JFin 1)), (js ''timestamp'', JStr t),
     (js ''id'', JStr i), (js ''filterFingerprint'', JStr f)])"
proof -
  have len: "length t + length i + length f + 50 \<le> length (cursor_json t i f)"
    using length_quote_body [of t] length_quote_body [of i] length_quote_body [of f]
      length_quote_body [of "js ''version''"] length_quote_body [of "js ''timestamp''"]
      length_quote_body [of "js ''id''"] length_quote_body [of "js ''filterFingerprint''"]
    by (simp add: cursor_json_def quote_units)
  obtain n where n: "2 * length (cursor_json t i f) + 2 = Suc (Suc (Suc (Suc (Suc (Suc n)))))"
      "length t \<le> n" "length i \<le> n" "length f \<le> n" "20 \<le> n"
    using len by (intro that [of "2 * length (cursor_json t i f) - 4"]) auto
  have sp: "\<not> is_json_space 44" "\<not> is_json_space 125" "(125::code_unit) \<noteq> 44" by simp_all
  have v: "parse_value (Suc m) (json_quote x @ d # r) = Some (JStr x, d # r)" if "length x \<le> m" for m x d r
    using that by (rule parse_value_string)
  have f': "parse_members (Suc (Suc n)) kvs (json_quote (js ''filterFingerprint'') @ 58 # json_quote f @ [125]) =
      Some (assign_key kvs (js ''filterFingerprint'') (JStr f), [])" for kvs
    using n by (subst parse_members_value [OF _ v sp(2)]) auto
  have i': "parse_members (Suc (Suc (Suc n))) kvs (json_quote (js ''id'') @ 58 # json_quote i @ 44 # r) =
      parse_members (Suc (Suc n)) (assign_key kvs (js ''id'') (JStr i)) r" for kvs r
    using n by (subst parse_members_value [OF _ v sp(1)]) auto
  have t': "parse_members (Suc (Suc (Suc (Suc n)))) kvs (json_quote (js ''timestamp'') @ 58 # json_quote t @ 44 # r) =
      parse_members (Suc (Suc (Suc n))) (assign_key kvs (js ''timestamp'') (JStr t)) r" for kvs r
    using n by (subst parse_members_value [OF _ v sp(1)]) auto
  have v': "parse_members (Suc (Suc (Suc (Suc (Suc n))))) kvs (json_quote (js ''version'') @ 58 # 49 # 44 # r) =
      parse_members (Suc (Suc (Suc (Suc n)))) (assign_key kvs (js ''version'') (JNum (JFin 1))) r" for kvs r
    using n by (subst parse_members_value [OF _ parse_one sp(1)]) auto
  have "parse_members (Suc (Suc (Suc (Suc (Suc n))))) [] (tl (cursor_json t i f)) =
      Some ([(js ''version'', JNum (JFin 1)), (js ''timestamp'', JStr t), (js ''id'', JStr i),
        (js ''filterFingerprint'', JStr f)], [])"
    unfolding cursor_json_def list.sel(3) v' t' i' f' by simp
  moreover have "cursor_json t i f = 123 # 34 # tl (tl (cursor_json t i f))"
    "tl (cursor_json t i f) = 34 # tl (tl (cursor_json t i f))"
    by (simp_all add: cursor_json_def quote_units)
  ultimately have "parse_value (Suc (Suc (Suc (Suc (Suc (Suc n)))))) (cursor_json t i f) =
      Some (plain [(js ''version'', JNum (JFin 1)), (js ''timestamp'', JStr t), (js ''id'', JStr i),
        (js ''filterFingerprint'', JStr f)], [])"
    by (metis parse_value_object json_space_puncts(1) quote_not_brace)
  then show ?thesis unfolding json_parse_def n(1) by simp
qed

subsection \<open>Decoding\<close>

text \<open>A position a cursor can hold.\<close>

definition wf_position :: "LogCursorPosition \<Rightarrow> bool" where
  "wf_position p \<longleftrightarrow> uuid_v4_pattern (cursor_id p) \<and>
     (case parseCanonicalTimestamp (cursor_timestamp p) of
        Inl k \<Rightarrow> False | Inr ts \<Rightarrow> canonical ts = cursor_timestamp p)"

lemma fingerprint_pattern: "sha_256_hex_pattern (filterFingerprint f)"
  using sha256_hex_digits by (simp add: sha_256_hex_pattern_def is_hexes_def filterFingerprint_def)

lemma encode_cursor_json:
  "encodeLogCursor p f =
     base64url_encode (utf8_encode (cursor_json (cursor_timestamp p) (cursor_id p) (filterFingerprint f)))"
  by (simp only: encodeLogCursor_def CURSOR_VERSION_def payloadJson_cursor)

lemma wf_position_ascii:
  assumes "wf_position p"
  shows "is_ascii (cursor_json (cursor_timestamp p) (cursor_id p) (filterFingerprint f))"
proof (rule ascii_cursor_json)
  show "is_ascii (cursor_timestamp p)"
    using assms by (auto simp: wf_position_def parse_general_path split: sum.splits option.splits
        intro: ascii_timestamp)
  show "is_ascii (cursor_id p)" using assms by (simp add: wf_position_def ascii_uuid)
  show "is_ascii (filterFingerprint f)"
    using fingerprint_pattern by (simp add: sha_256_hex_pattern_def ascii_hexes)
qed

lemma check_wf_position:
  assumes "wf_position p"
  shows "check_payload \<lparr>pl_version = jint 1, pl_timestamp = JStr (cursor_timestamp p),
      pl_id = JStr (cursor_id p), pl_fingerprint = JStr (filterFingerprint f)\<rparr> g =
    (if filterFingerprint f = filterFingerprint g then Some p else None)"
  using assms fingerprint_pattern [of f]
  by (auto simp: check_payload_def wf_position_def CURSOR_VERSION_def split: sum.splits)

lemma decode_cursor_json:
  "decode_payload (cursor_json t i f) g =
     check_payload \<lparr>pl_version = jint 1, pl_timestamp = JStr t, pl_id = JStr i, pl_fingerprint = JStr f\<rparr> g"
proof -
  have keys: "js ''version'' \<noteq> js ''timestamp''" "js ''version'' \<noteq> js ''id''"
    "js ''version'' \<noteq> js ''filterFingerprint''" by simp_all
  have one: "JNum (JFin 1) = jint 1" by (simp add: jint_def)
  show ?thesis
    unfolding decode_payload_def parse_cursor_json one
    by (simp add: hasExactPayloadKeys_def PAYLOAD_KEYS_def payloadJson_cursor Let_def)
qed

lemma decode_encoded:
  assumes "wf_position p"
  shows "decodeLogCursor (encodeLogCursor p f) g =
    (if filterFingerprint f = filterFingerprint g then Inr p else Inl INVALID_CURSOR_MESSAGE)"
proof -
  define json where "json = cursor_json (cursor_timestamp p) (cursor_id p) (filterFingerprint f)"
  have a: "is_ascii json" unfolding json_def by (rule wf_position_ascii [OF assms])
  have ne: "utf8_encode json \<noteq> []" unfolding utf8_encode_ascii [OF a] by (simp add: json_def cursor_json_def)
  have dec: "decode_payload json g = (if filterFingerprint f = filterFingerprint g then Some p else None)"
    unfolding json_def decode_cursor_json by (rule check_wf_position [OF assms])
  show ?thesis
    unfolding decodeLogCursor_def encode_cursor_json json_def [symmetric]
    by (simp add: base64url_encode_pattern [OF ne] base64url_roundtrip utf8_roundtrip_ascii [OF a] dec Let_def)
qed

lemma check_payload_SomeD:
  assumes "check_payload payload filters = Some p"
  shows "payload = \<lparr>pl_version = jint 1, pl_timestamp = JStr (cursor_timestamp p),
      pl_id = JStr (cursor_id p), pl_fingerprint = JStr (filterFingerprint filters)\<rparr> \<and> wf_position p"
  using assms
  by (cases payload)
    (auto simp: check_payload_def wf_position_def CURSOR_VERSION_def
      split: if_splits jsval.splits sum.splits)

lemma decode_payload_SomeD:
  assumes "decode_payload json filters = Some p"
  shows "json = cursor_json (cursor_timestamp p) (cursor_id p) (filterFingerprint filters) \<and> wf_position p"
proof -
  obtain payload where "payloadJson payload = json" "check_payload payload filters = Some p"
    using assms by (auto simp: decode_payload_def Let_def split: option.splits if_splits)
  with check_payload_SomeD [of payload filters p] show ?thesis by (auto simp: payloadJson_cursor)
qed

lemma decoded_is_encoded:
  assumes "decodeLogCursor c f = Inr p"
  shows "c = encodeLogCursor p f \<and> wf_position p"
proof -
  obtain json where json: "base64url_encode (base64url_decode c) = c"
      "utf8_encode json = base64url_decode c" "decode_payload json f = Some p"
    using assms by (auto simp: decodeLogCursor_def Let_def split: option.splits if_splits)
  with decode_payload_SomeD [OF json(3)] show ?thesis by (simp add: encode_cursor_json)
qed

subsection \<open>The canonical text of a filter set\<close>

lemma quote_split: "json_quote s @ x = json_quote t @ y \<longleftrightarrow> s = t \<and> x = y"
proof
  assume "json_quote s @ x = json_quote t @ y"
  then have "quote_body s @ 34 # x = quote_body t @ 34 # y" by (simp add: quote_units)
  then show "s = t \<and> x = y"
    using parse_quote_body [of s "Suc (max (length s) (length t))" x]
      parse_quote_body [of t "Suc (max (length s) (length t))" y] by simp
qed simp

definition nullable_text :: "jsstr option \<Rightarrow> jsstr" where
  "nullable_text v = (case v of None \<Rightarrow> js ''null'' | Some s \<Rightarrow> json_quote s)"

lemma nullable_split: "nullable_text v @ x = nullable_text w @ y \<longleftrightarrow> v = w \<and> x = y"
proof -
  have "js ''null'' @ x \<noteq> json_quote s @ y" "json_quote s @ y \<noteq> js ''null'' @ x" for s x y
    by (simp_all add: js_def cu_def quote_units)
  then show ?thesis by (cases v; cases w) (auto simp: nullable_text_def quote_split)
qed

definition pair_text :: "AttributeFilter \<Rightarrow> jsstr" where
  "pair_text a = 91 # json_quote (attr_key a) @ 44 # json_quote (attr_value a) @ [93]"

lemma pair_split: "pair_text a @ x = pair_text b @ y \<longleftrightarrow> a = b \<and> x = y"
  by (cases a; cases b) (auto simp: pair_text_def quote_split)

definition pairs_text :: "AttributeFilter list \<Rightarrow> jsstr" where
  "pairs_text as = intersperse_join (js '','') (map pair_text as)"

lemma pairs_text_simps:
  "pairs_text [] = []" "pairs_text (a # as) = pair_text a @ (if as = [] then [] else 44 # pairs_text as)"
  by (cases as; simp add: pairs_text_def js_def cu_def)+

lemma pairs_split: "pairs_text as @ 93 # x = pairs_text bs @ 93 # y \<longleftrightarrow> as = bs \<and> x = y"
proof (induction as arbitrary: bs)
  case Nil
  then show ?case by (cases bs) (auto simp: pairs_text_simps pair_text_def)
next
  case (Cons a as)
  show ?case
  proof (cases bs)
    case Nil
    then show ?thesis by (simp add: pairs_text_simps pair_text_def)
  next
    case (Cons b bs')
    have "pairs_text (a # as) @ 93 # x = pairs_text bs @ 93 # y \<longleftrightarrow>
        a = b \<and> (if as = [] then [] else 44 # pairs_text as) @ 93 # x =
          (if bs' = [] then [] else 44 # pairs_text bs') @ 93 # y"
      by (simp only: Cons pairs_text_simps append_assoc pair_split)
    also have "\<dots> \<longleftrightarrow> a = b \<and> as = bs' \<and> x = y"
      using Cons.IH [of bs'] by auto
    finally show ?thesis using Cons by auto
  qed
qed

lemma pairs_inject: "pairs_text as = pairs_text bs \<longleftrightarrow> as = bs"
  using pairs_split [of as "[]" bs "[]"] by simp

text \<open>The filters a fingerprint is about: attributes in any order, and an empty search as none.\<close>

definition effective_q :: "LogFilters \<Rightarrow> jsstr option" where
  "effective_q f = (if filter_q f = Some [] then None else filter_q f)"

definition same_filters :: "LogFilters \<Rightarrow> LogFilters \<Rightarrow> bool" where
  "same_filters f g \<longleftrightarrow>
     filter_service f = filter_service g \<and> filter_level f = filter_level g \<and>
     filter_since f = filter_since g \<and> filter_until f = filter_until g \<and>
     effective_q f = effective_q g \<and> mset (filter_attributes f) = mset (filter_attributes g)"

definition key_text :: "string \<Rightarrow> jsstr" where
  "key_text k = 44 # json_quote (js k) @ [58]"

lemma nullable_json: "stringify (nullable v) = Some (nullable_text v)"
  by (simp add: nullable_def nullable_text_def split: option.splits)

lemma canonicalFilterJson_text:
  "canonicalFilterJson f =
     123 # json_quote (js ''semantics'') @ 58 # json_quote CURSOR_SEMANTICS @
     key_text ''service'' @ nullable_text (filter_service f) @ key_text ''level'' @ nullable_text (filter_level f) @
     key_text ''since'' @ nullable_text (filter_since f) @ key_text ''until'' @ nullable_text (filter_until f) @
     key_text ''q'' @ nullable_text (effective_q f) @ key_text ''attributes'' @
     91 # pairs_text (sort_with compareAttributes (filter_attributes f)) @ 93 # [125]"
proof -
  have pairs: "stringify (JArr (map (\<lambda>a. JArr [JStr (attr_key a), JStr (attr_value a)]) as)) =
      Some (91 # pairs_text as @ [93])" for as
  proof -
    have "(\<lambda>v. case stringify v of None \<Rightarrow> js ''null'' | Some t \<Rightarrow> t) \<circ>
        (\<lambda>a. JArr [JStr (attr_key a), JStr (attr_value a)]) = pair_text"
      by (rule ext) (simp add: pair_text_def js_def cu_def)
    then show ?thesis by (simp add: pairs_text_def js_def cu_def)
  qed
  have "stringify (plain
       [(js ''semantics'', JStr CURSOR_SEMANTICS), (js ''service'', a), (js ''level'', b), (js ''since'', c),
        (js ''until'', d), (js ''q'', e), (js ''attributes'', g)]) =
     Some (123 # json_quote (js ''semantics'') @ 58 # json_quote CURSOR_SEMANTICS @
       key_text ''service'' @ a' @ key_text ''level'' @ b' @ key_text ''since'' @ c' @
       key_text ''until'' @ d' @ key_text ''q'' @ e' @ key_text ''attributes'' @ g' @ [125])"
    if "stringify a = Some a'" "stringify b = Some b'" "stringify c = Some c'" "stringify d = Some d'"
      "stringify e = Some e'" "stringify g = Some g'" for a b c d e g a' b' c' d' e' g'
    using that by (simp add: plain_def key_text_def js_Cons cu_def)
  from this [OF nullable_json nullable_json nullable_json nullable_json nullable_json pairs] show ?thesis
    by (simp add: canonicalFilterJson_def json_text_def effective_q_def)
qed

lemma canonical_eq_iff_same: "canonicalFilterJson f = canonicalFilterJson g \<longleftrightarrow> same_filters f g"
proof -
  have "canonicalFilterJson f = canonicalFilterJson g \<longleftrightarrow>
      filter_service f = filter_service g \<and> filter_level f = filter_level g \<and>
      filter_since f = filter_since g \<and> filter_until f = filter_until g \<and> effective_q f = effective_q g \<and>
      sort_with compareAttributes (filter_attributes f) = sort_with compareAttributes (filter_attributes g)"
    unfolding canonicalFilterJson_text by (simp add: nullable_split pairs_inject)
  moreover have "sort_with compareAttributes (filter_attributes f) = sort_with compareAttributes (filter_attributes g)
      \<longleftrightarrow> mset (filter_attributes f) = mset (filter_attributes g)"
    by (metis sort_attributes_mset mset_sort_with)
  ultimately show ?thesis by (simp add: same_filters_def)
qed

subsection \<open>Properties\<close>

text \<open>
  C35. A cursor resumes where it was taken and only under the filters it was taken with: decoding
  the cursor of a well-formed position under filters with the same fingerprint gives the position
  back, and under any other filters it is the invalid-cursor error.
\<close>

theorem cursor_roundtrip:
  assumes "wf_position p"
  shows "decodeLogCursor (encodeLogCursor p f) g =
    (if filterFingerprint f = filterFingerprint g then Inr p else Inl INVALID_CURSOR_MESSAGE)"
  using assms by (rule decode_encoded)

definition sample_position :: LogCursorPosition where
  "sample_position = \<lparr>cursor_timestamp = js ''2026-08-13T12:34:56.7891Z'',
     cursor_id = js ''0b5a4f6e-8d2c-4f1a-9b3e-5c7d9e1f2a3b''\<rparr>"

definition no_filters :: LogFilters where
  "no_filters = \<lparr>filter_service = None, filter_level = None, filter_since = None, filter_until = None,
     filter_attributes = [], filter_q = None\<rparr>"

lemma sample_position_wf: "wf_position sample_position"
  by code_simp

theorem cursor_roundtrip_witness:
  "decodeLogCursor (encodeLogCursor sample_position no_filters) no_filters = Inr sample_position"
  using cursor_roundtrip [OF sample_position_wf, of no_filters no_filters] by simp

text \<open>
  C36. No cursor text is accepted that the program would not have written: a decoded position
  is well-formed and the cursor is, byte for byte, its encoding under the filters of the request.
\<close>

theorem cursor_accepts_only_encodings:
  assumes "decodeLogCursor c f = Inr p"
  shows "c = encodeLogCursor p f \<and> wf_position p"
  using assms by (rule decoded_is_encoded)

theorem cursor_accepts_only_encodings_witness:
  "wf_position sample_position \<and> encodeLogCursor sample_position no_filters \<noteq> []"
proof -
  note d = decode_encoded [OF sample_position_wf, of no_filters no_filters, simplified]
  have "encodeLogCursor sample_position no_filters \<noteq> []"
    using d by (auto simp: decodeLogCursor_def base64url_pattern_def)
  with cursor_accepts_only_encodings [OF d] show ?thesis by simp
qed

text \<open>
  The text that is fingerprinted identifies the filters: two filter sets have the same
  canonical JSON exactly when they filter alike, with the attributes in any order and an empty
  search counted as none, so a cursor is refused for any other filters unless SHA-256 collides.
\<close>

theorem canonical_filters_identify:
  "canonicalFilterJson f = canonicalFilterJson g \<longleftrightarrow> same_filters f g"
  by (rule canonical_eq_iff_same)

end
