(* ===== verification/LogQuery.thy ===== *)
theory LogQuery
  imports LogPredicate Cursor Effects
begin

section \<open>Listing logs (\<open>src/modules/query\<close>)\<close>

text \<open>
  The page query and row mapping of \<open>log-query-repository.ts\<close> and the service of
  \<open>log-query-service.ts\<close>. The service is proved against the locale \<open>page_source\<close>, the promise of
  any page repository, which the repository of the code is shown to keep; with a database that
  answers the page query as PostgreSQL documents, following the cursors lists every row once.
\<close>

subsection \<open>Data\<close>

record ApiLogResponseItem =
  item_id :: jsstr
  item_timestamp :: jsstr
  item_level :: jsstr
  item_service :: jsstr
  item_message :: jsstr
  item_attributes :: OriginalAttributes

record LogQueryPageRequest =
  page_filters :: LogFilters
  page_limit :: int
  page_cursor :: "LogCursorPosition option"

record LogQueryResponse =
  response_logs :: "ApiLogResponseItem list"
  next_cursor :: "jsstr option"

subsection \<open>Reading rows\<close>

text \<open>The loop over the keys of the attributes, with what it collected.\<close>

fun map_attribute_keys :: "jsval \<Rightarrow> jsstr list \<Rightarrow> OriginalAttributes \<Rightarrow> throw + OriginalAttributes" where
  "map_attribute_keys v [] attrs = Inr attrs"
| "map_attribute_keys v (key # keys) attrs =
     (case own_descriptor v key of
        Some (DataProp a True) \<Rightarrow>
          (case as_attribute_value a of
             None \<Rightarrow> Inl InternalDatabaseError
           | Some w \<Rightarrow> map_attribute_keys v keys (assign_key attrs key w))
      | _ \<Rightarrow> Inl InternalDatabaseError)"

definition mapAttributes :: "jsval \<Rightarrow> throw + OriginalAttributes" where
  "mapAttributes v =
     (if \<not> is_record v then Inl InternalDatabaseError else map_attribute_keys v (object_keys v) [])"

definition mapRow :: "jsval \<Rightarrow> throw + ApiLogResponseItem" where
  "mapRow v =
     (if \<not> is_record v then Inl InternalDatabaseError
      else case (get_prop v (js ''id''), get_prop v (js ''timestamp''), get_prop v (js ''level''),
                 get_prop v (js ''service''), get_prop v (js ''message'')) of
          (JStr i, JStr t, JStr l, JStr s, JStr m) \<Rightarrow>
            if \<not> uuid_v4_pattern i \<or> \<not> isLogLevel l then Inl InternalDatabaseError
            else (case parseCanonicalTimestamp t of
                Inl k \<Rightarrow> Inl InternalDatabaseError
              | Inr ts \<Rightarrow>
                  (case mapAttributes (get_prop v (js ''attributes'')) of
                     Inl e \<Rightarrow> Inl e
                   | Inr attrs \<Rightarrow>
                       Inr \<lparr>item_id = i, item_timestamp = canonical ts, item_level = l, item_service = s,
                            item_message = m, item_attributes = attrs\<rparr>))
        | _ \<Rightarrow> Inl InternalDatabaseError)"

subsection \<open>The page query\<close>

definition cursor_clause :: "nat \<Rightarrow> nat \<Rightarrow> jsstr" where
  "cursor_clause t i =
     10 # js ''  AND (logs.'' @ quoted ''timestamp'' @ js '', logs.id) < ('' @ placeholder t @
       js ''::timestamptz, '' @ placeholder i @ js ''::uuid)''"

definition page_text :: "jsstr \<Rightarrow> jsstr \<Rightarrow> jsstr \<Rightarrow> jsstr" where
  "page_text predicate cursorClause limitPlaceholder =
     sql_lines
       [js ''SELECT'',
        js ''  logs.id::text AS id,'',
        js ''  to_char('',
        js ''    logs.'' @ quoted ''timestamp'' @ js '' AT TIME ZONE 'UTC','',
        utc_format,
        js ''  ) AS timestamp,'',
        js ''  logs.level,'',
        js ''  logs.service,'',
        js ''  logs.message,'',
        js ''  logs.attributes'',
        js ''FROM logstream.logs AS logs'',
        js ''WHERE '' @ predicate @ cursorClause,
        js ''ORDER BY logs.'' @ quoted ''timestamp'' @ js '' DESC, logs.id DESC'',
        js ''LIMIT '' @ limitPlaceholder @ js ''::integer'',
        []]"

definition buildPageQuery :: "LogQueryPageRequest \<Rightarrow> jsstr \<times> jsval list" where
  "buildPageQuery request =
     (let predicate = buildLogPredicate (page_filters request);
          n = length (predicate_values predicate);
          (cursorClause, values) =
            (case page_cursor request of
               None \<Rightarrow> ([], predicate_values predicate)
             | Some p \<Rightarrow> (cursor_clause (n + 1) (n + 2),
                 predicate_values predicate @ [JStr (cursor_timestamp p), JStr (cursor_id p)]));
          values = values @ [jint (page_limit request + 1)]
      in (page_text (predicate_text predicate) cursorClause (placeholder (length values)), values))"

definition read_page :: "LogQueryPageRequest \<Rightarrow> jsval \<Rightarrow> throw + ApiLogResponseItem list" where
  "read_page request result =
     (case get_prop result (js ''rows'') of
        JArr rows \<Rightarrow> traverse mapRow (take (nat (page_limit request + 1)) rows)
      | _ \<Rightarrow> Inl InternalDatabaseError)"

definition findPage :: "env \<Rightarrow> LogQueryPageRequest \<Rightarrow> ApiLogResponseItem list io" where
  "findPage E request =
     seq (handle (query E (fst (buildPageQuery request)) (snd (buildPageQuery request)))
           (\<lambda>e. raise (translateDatabaseError (error_value e))))
       (\<lambda>result. lift_sum (read_page request result))"

subsection \<open>The service\<close>

definition page_response :: "LogFilters \<Rightarrow> int \<Rightarrow> ApiLogResponseItem list \<Rightarrow> LogQueryResponse" where
  "page_response filters limit page =
     (let hasMore = (int (length page) > limit); logs = take (nat limit) page
      in \<lparr>response_logs = logs,
          next_cursor =
            (if hasMore \<and> logs \<noteq> [] then
               Some (encodeLogCursor \<lparr>cursor_timestamp = item_timestamp (last logs),
                                      cursor_id = item_id (last logs)\<rparr> filters)
             else None)\<rparr>)"

definition list_logs ::
    "(LogQueryPageRequest \<Rightarrow> ApiLogResponseItem list io) \<Rightarrow> jsval \<Rightarrow> LogQueryResponse io" where
  "list_logs find_page input =
     (case parseLogListQuery input of
        Inl m \<Rightarrow> raise (BadRequestError m)
      | Inr p \<Rightarrow>
          seq (case query_cursor p of
                 None \<Rightarrow> ret None
               | Some c \<Rightarrow>
                   (case decodeLogCursor c (query_filters p) of
                      Inl m \<Rightarrow> raise (BadRequestError m)
                    | Inr position \<Rightarrow> ret (Some position)))
            (\<lambda>cursor.
              seq (find_page \<lparr>page_filters = query_filters p, page_limit = query_limit p, page_cursor = cursor\<rparr>)
                (\<lambda>page. ret (page_response (query_filters p) (query_limit p) page))))"

subsection \<open>The repository as the service sees it\<close>

definition wf_item :: "ApiLogResponseItem \<Rightarrow> bool" where
  "wf_item it \<longleftrightarrow> uuid_v4_pattern (item_id it) \<and> isLogLevel (item_level it) \<and>
     (\<exists>t ts. parseCanonicalTimestamp t = Inr ts \<and> item_timestamp it = canonical ts)"

definition database_errors :: "throw set" where
  "database_errors = {TransientServiceError, InternalDatabaseError}"

definition item_position :: "ApiLogResponseItem \<Rightarrow> LogCursorPosition" where
  "item_position it = \<lparr>cursor_timestamp = item_timestamp it, cursor_id = item_id it\<rparr>"

text \<open>A response to an accepted query \<open>p\<close>: its size, its items and where it goes on.\<close>

definition good_response :: "ParsedLogListQuery \<Rightarrow> LogQueryResponse \<Rightarrow> bool" where
  "good_response p resp \<longleftrightarrow>
     int (length (response_logs resp)) \<le> query_limit p \<and> list_all wf_item (response_logs resp) \<and>
     (case next_cursor resp of
        None \<Rightarrow> True
      | Some c \<Rightarrow> int (length (response_logs resp)) = query_limit p \<and>
          c = encodeLogCursor (item_position (last (response_logs resp))) (query_filters p))"

locale page_source =
  fixes find_page :: "LogQueryPageRequest \<Rightarrow> ApiLogResponseItem list io"
  assumes find_page_spec: "spec (find_page request) (\<lambda>tr r new.
      (case r of Ret page \<Rightarrow> list_all wf_item page
       | Exn e \<Rightarrow> e \<in> database_errors
       | Unfinished \<Rightarrow> False))"
begin

lemma page_response_good:
  assumes "list_all wf_item page" "1 \<le> query_limit p"
  shows "good_response p (page_response (query_filters p) (query_limit p) page)"
proof -
  have "list_all wf_item (take n page)" for n
    using assms(1) by (auto simp: list_all_iff dest: in_set_takeD)
  moreover have "int (min (length page) (nat (query_limit p))) \<le> query_limit p" using assms(2) by simp
  moreover have "int (min (length page) (nat (query_limit p))) = query_limit p"
    if "query_limit p < int (length page)" using that assms(2) by simp
  ultimately show ?thesis
    unfolding good_response_def page_response_def item_position_def Let_def by (simp del: int_ops) linarith
qed

lemma list_outcome:
  assumes "\<And>p. parseLogListQuery input = Inr p \<Longrightarrow> 1 \<le> query_limit p"
  shows "case list_logs find_page input tr of
      (Ret resp, tr') \<Rightarrow> \<exists>p. parseLogListQuery input = Inr p \<and> good_response p resp
    | (Exn e, tr') \<Rightarrow> e \<in> database_errors \<or> (\<exists>m. e = BadRequestError m) \<and> tr' = tr
    | (Unfinished, tr') \<Rightarrow> False"
proof (cases "parseLogListQuery input")
  case (Inl m)
  then show ?thesis by (simp add: list_logs_def raise_def)
next
  case (Inr p)
  define cursor where "cursor = (case query_cursor p of None \<Rightarrow> Inr None
      | Some c \<Rightarrow> (case decodeLogCursor c (query_filters p) of
            Inl m \<Rightarrow> Inl (BadRequestError m) | Inr position \<Rightarrow> Inr (Some position)))"
  have run: "list_logs find_page input = seq (lift_sum cursor)
      (\<lambda>cursor. seq (find_page \<lparr>page_filters = query_filters p, page_limit = query_limit p, page_cursor = cursor\<rparr>)
         (\<lambda>page. ret (page_response (query_filters p) (query_limit p) page)))"
    by (auto simp: list_logs_def Inr cursor_def lift_sum_def split: option.splits sum.splits)
  show ?thesis
  proof (cases cursor)
    case (Inl e)
    then obtain m where "e = BadRequestError m" by (auto simp: cursor_def split: option.splits sum.splits)
    with Inl show ?thesis by (simp add: run lift_sum_def seq_def raise_def)
  next
    case (Inr c)
    let ?m = "find_page \<lparr>page_filters = query_filters p, page_limit = query_limit p, page_cursor = c\<rparr>"
    obtain r tr' where r: "?m tr = (r, tr')" by force
    obtain new where "case fst (?m tr) of Ret page \<Rightarrow> list_all wf_item page
        | Exn e \<Rightarrow> e \<in> database_errors | Unfinished \<Rightarrow> False"
      using find_page_spec by (rule specE)
    with r Inr \<open>parseLogListQuery input = Inr p\<close> page_response_good [OF _ assms [OF \<open>parseLogListQuery input = Inr p\<close>]]
    show ?thesis
      by (cases r) (auto simp: run lift_sum_def seq_def ret_def)
  qed
qed

end

lemma mapRow_Inr: "mapRow v = Inr it \<Longrightarrow> wf_item it"
  by (auto simp: mapRow_def wf_item_def split: if_splits jsval.splits sum.splits) blast

lemma map_attribute_keys_Inl: "map_attribute_keys v ks attrs = Inl e \<Longrightarrow> e = InternalDatabaseError"
  by (induction v ks attrs rule: map_attribute_keys.induct)
    (auto split: option.splits jsprop.splits bool.splits)

lemma mapRow_Inl: "mapRow v = Inl e \<Longrightarrow> e = InternalDatabaseError"
  by (auto simp: mapRow_def mapAttributes_def dest: map_attribute_keys_Inl
      split: if_splits jsval.splits sum.splits)

lemma translated_error: "translateDatabaseError v \<in> database_errors"
  using translate_cases [of v] by (auto simp: database_errors_def)

lemma read_page_Inl: "read_page request result = Inl e \<Longrightarrow> e \<in> database_errors"
  by (auto simp: read_page_def database_errors_def split: jsval.splits dest!: traverse_Inl mapRow_Inl)

lemma read_page_Inr: "read_page request result = Inr page \<Longrightarrow> list_all wf_item page"
proof -
  assume "read_page request result = Inr page"
  then obtain rows where "list_all2 (\<lambda>v it. mapRow v = Inr it) rows page"
    by (auto simp: read_page_def traverse_Inr_iff split: jsval.splits)
  then show ?thesis by (induction rule: list_all2_induct) (simp_all add: mapRow_Inr)
qed

interpretation pg_pages: page_source "findPage E" for E
proof unfold_locales
  fix request
  show "spec (findPage E request) (\<lambda>tr r new.
      (case r of Ret page \<Rightarrow> list_all wf_item page
       | Exn e \<Rightarrow> e \<in> database_errors
       | Unfinished \<Rightarrow> False))"
  proof (rule specI)
    fix tr
    obtain sql params where q: "buildPageQuery request = (sql, params)" by force
    show "\<exists>new. snd (findPage E request tr) = tr @ new \<and>
      (case fst (findPage E request tr) of Ret page \<Rightarrow> list_all wf_item page
       | Exn e \<Rightarrow> e \<in> database_errors | Unfinished \<Rightarrow> False)"
      using translated_error
      by (cases "env_query E tr sql params")
        (auto simp: findPage_def q seq_def handle_def query_def call_def lift_sum_def raise_def ret_def Let_def
          dest: read_page_Inl read_page_Inr split: sum.splits)
  qed
qed

subsection \<open>Walking the pages\<close>

text \<open>The order of the listing: by instant, then by identifier.\<close>

definition position_instant :: "LogCursorPosition \<Rightarrow> rat" where
  "position_instant p = (case parseCanonicalTimestamp (cursor_timestamp p) of Inr ts \<Rightarrow> instant ts | Inl k \<Rightarrow> 0)"

definition position_less :: "LogCursorPosition \<Rightarrow> LogCursorPosition \<Rightarrow> bool" where
  "position_less p q \<longleftrightarrow> position_instant p < position_instant q \<or>
     position_instant p = position_instant q \<and> cursor_id p < cursor_id q"

definition items_after :: "LogCursorPosition option \<Rightarrow> ApiLogResponseItem list \<Rightarrow> ApiLogResponseItem list" where
  "items_after cursor items =
     (case cursor of None \<Rightarrow> items | Some p \<Rightarrow> filter (\<lambda>it. position_less (item_position it) p) items)"

text \<open>
  What PostgreSQL documents for the page query: \<open>ORDER BY\<close> lists the rows that match the filters
  in descending order, the row comparison keeps those below the cursor, \<open>LIMIT\<close> the first ones.
  \<open>items\<close> are the matching rows as the repository maps them.
\<close>

definition answers_pages :: "env \<Rightarrow> LogFilters \<Rightarrow> ApiLogResponseItem list \<Rightarrow> bool" where
  "answers_pages E f items \<longleftrightarrow>
     (\<forall>tr cursor. \<forall>limit \<in> {1..1000}. \<exists>result rows.
        env_query E tr (fst (buildPageQuery \<lparr>page_filters = f, page_limit = limit, page_cursor = cursor\<rparr>))
          (snd (buildPageQuery \<lparr>page_filters = f, page_limit = limit, page_cursor = cursor\<rparr>)) = Inr result \<and>
        get_prop result (js ''rows'') = JArr rows \<and>
        list_all2 (\<lambda>v it. mapRow v = Inr it) rows (take (nat (limit + 1)) (items_after cursor items)))"

text \<open>A client that asks for a page and follows \<open>next_cursor\<close>, for at most \<open>n\<close> pages.\<close>

primrec walk_pages :: "env \<Rightarrow> LogFilters \<Rightarrow> int \<Rightarrow> nat \<Rightarrow> jsstr option \<Rightarrow> ApiLogResponseItem list option" where
  "walk_pages E f limit 0 cursor = None"
| "walk_pages E f limit (Suc n) cursor =
     (case fst (list_logs (findPage E)
         (plain (query_entries \<lparr>query_filters = f, query_limit = limit, query_cursor = cursor\<rparr>)) []) of
        Ret resp \<Rightarrow>
          (case next_cursor resp of
             None \<Rightarrow> Some (response_logs resp)
           | Some c \<Rightarrow> map_option ((@) (response_logs resp)) (walk_pages E f limit n (Some c)))
      | _ \<Rightarrow> None)"

lemma find_page_answered:
  assumes "answers_pages E f items" "1 \<le> limit" "limit \<le> 1000"
  shows "fst (findPage E \<lparr>page_filters = f, page_limit = limit, page_cursor = cursor\<rparr> tr) =
    Ret (take (nat (limit + 1)) (items_after cursor items))"
proof -
  let ?q = "buildPageQuery \<lparr>page_filters = f, page_limit = limit, page_cursor = cursor\<rparr>"
  obtain result rows where a: "env_query E tr (fst ?q) (snd ?q) = Inr result"
      "get_prop result (js ''rows'') = JArr rows"
      "list_all2 (\<lambda>v it. mapRow v = Inr it) rows (take (nat (limit + 1)) (items_after cursor items))"
    using assms unfolding answers_pages_def by (meson atLeastAtMost_iff)
  from list_all2_lengthD [OF a(3)] have "length rows \<le> nat (limit + 1)" by simp
  then have "take (nat (limit + 1)) rows = rows" by simp
  with a(2,3) have "read_page \<lparr>page_filters = f, page_limit = limit, page_cursor = cursor\<rparr> result =
      Inr (take (nat (limit + 1)) (items_after cursor items))"
    by (simp add: read_page_def traverse_Inr_iff)
  with a(1) show ?thesis
    by (simp add: findPage_def seq_def handle_def query_def call_def lift_sum_def ret_def)
qed

lemma list_answered:
  assumes ans: "answers_pages E f items" and wf: "wf_filters f" "canonical_bounds f"
    and lim: "1 \<le> limit" "limit \<le> 1000"
    and cur: "case cursor of None \<Rightarrow> c = None | Some p \<Rightarrow> wf_position p \<and> c = Some (encodeLogCursor p f)"
  shows "fst (list_logs (findPage E)
      (plain (query_entries \<lparr>query_filters = f, query_limit = limit, query_cursor = c\<rparr>)) tr) =
    Ret (page_response f limit (take (nat (limit + 1)) (items_after cursor items)))"
proof -
  let ?p = "\<lparr>query_filters = f, query_limit = limit, query_cursor = c\<rparr>"
  have dec: "decodeLogCursor (encodeLogCursor p f) f = Inr p" if "wf_position p" for p
    using decode_encoded [OF that, of f f] by simp
  moreover have "decodeLogCursor [] f \<noteq> Inr p" for p by (simp add: decodeLogCursor_def base64url_pattern_def)
  ultimately have "encodeLogCursor p f \<noteq> []" if "wf_position p" for p using that by metis
  with cur have "c \<noteq> Some []" by (auto split: option.splits)
  with wf lim have p: "parseLogListQuery (plain (query_entries ?p)) = Inr ?p"
    by (intro parse_query_entries) simp_all
  let ?m = "findPage E \<lparr>page_filters = f, page_limit = limit, page_cursor = cursor\<rparr>"
  have "list_logs (findPage E) (plain (query_entries ?p)) =
      seq (ret cursor) (\<lambda>cursor. seq (findPage E \<lparr>page_filters = f, page_limit = limit, page_cursor = cursor\<rparr>)
        (\<lambda>page. ret (page_response f limit page)))"
    unfolding list_logs_def p using cur dec by (cases cursor) simp_all
  moreover obtain tr' where "?m tr = (Ret (take (nat (limit + 1)) (items_after cursor items)), tr')"
    using find_page_answered [OF ans lim] by (metis prod.collapse)
  ultimately show ?thesis by (simp add: seq_def ret_def)
qed

text \<open>Items listed in descending order with positions a cursor can hold.\<close>

definition listed :: "ApiLogResponseItem list \<Rightarrow> bool" where
  "listed items \<longleftrightarrow>
     sorted_wrt (\<lambda>a b. position_less (item_position b) (item_position a)) items \<and>
     list_all (\<lambda>it. wf_position (item_position it)) items"

lemma items_after_nth:
  assumes "listed (xs @ it # ys)"
  shows "items_after (Some (item_position it)) (xs @ it # ys) = ys"
proof -
  have asym: "\<not> position_less q p" if "position_less p q" for p q
    using that by (auto simp: position_less_def)
  have irr: "\<not> position_less p p" for p by (simp add: position_less_def)
  have "filter (\<lambda>x. position_less (item_position x) (item_position it)) xs = []"
    using assms asym by (auto simp: listed_def sorted_wrt_append filter_empty_conv)
  moreover have "filter (\<lambda>x. position_less (item_position x) (item_position it)) ys = ys"
    using assms by (auto simp: listed_def sorted_wrt_append filter_id_conv)
  ultimately show ?thesis by (simp add: items_after_def irr)
qed

lemma walk_from:
  assumes ans: "answers_pages E f items" and wf: "wf_filters f" "canonical_bounds f" "listed items"
    and lim: "1 \<le> limit" "limit \<le> 1000"
    and cur: "case cursor of None \<Rightarrow> c = None | Some p \<Rightarrow> wf_position p \<and> c = Some (encodeLogCursor p f)"
    and after: "items_after cursor items = ys" "items = xs @ ys" "length ys < n"
  shows "walk_pages E f limit n c = Some ys"
  using cur after
proof (induction n arbitrary: cursor c xs ys)
  case (Suc n)
  note page = list_answered [OF ans wf(1,2) lim Suc.prems(1), unfolded Suc.prems(2), of "[]"]
  show ?case
  proof (cases "int (length ys) \<le> limit")
    case True
    then have "length ys \<le> nat limit" "length ys \<le> nat (limit + 1)" by linarith+
    with page True show ?thesis by (simp add: page_response_def)
  next
    case False
    define k where "k = nat limit"
    have k: "0 < k" "k < length ys" "nat (limit + 1) = Suc k" using False lim by (simp_all add: k_def)
    define it where "it = ys ! (k - 1)"
    have k1: "Suc (k - 1) = k" "k - 1 < length ys" using k by simp_all
    have split: "ys = take (k - 1) ys @ it # drop k ys" "take k ys = take (k - 1) ys @ [it]"
      using id_take_nth_drop [OF k1(2)] take_Suc_conv_app_nth [OF k1(2)] by (simp_all only: k1(1) it_def)
    from arg_cong [OF split(1), of "(@) xs"] Suc.prems(3)
    have items: "items = (xs @ take (k - 1) ys) @ it # drop k ys" by (simp only: append_assoc)
    have wfp: "wf_position (item_position it)" using wf(3) items by (simp add: listed_def)
    have "page_response f limit (take (Suc k) ys) =
        \<lparr>response_logs = take k ys, next_cursor = Some (encodeLogCursor (item_position it) f)\<rparr>"
      using k lim False split(2) by (simp add: page_response_def Let_def item_position_def min_def flip: k_def)
        (simp add: k_def)
    moreover have "walk_pages E f limit n (Some (encodeLogCursor (item_position it) f)) = Some (drop k ys)"
    proof (rule Suc.IH [where cursor = "Some (item_position it)" and xs = "(xs @ take (k - 1) ys) @ [it]"])
      show "items_after (Some (item_position it)) items = drop k ys"
        using items_after_nth wf(3) items by metis
      show "length (drop k ys) < n" using Suc.prems(4) k by simp
    qed (use wfp items in simp_all)
    ultimately show ?thesis using page k by simp
  qed
qed simp

subsection \<open>Properties\<close>

text \<open>
  C5. Pagination lists every matching row exactly once, in order: with a database that answers
  the page query as documented, a client that follows \<open>next_cursor\<close> from the first page gets the
  whole descending listing, whatever the limit, and needs at most one page more than there are
  rows.
\<close>

theorem pagination_complete:
  assumes "answers_pages E f items" "wf_filters f" "canonical_bounds f" "listed items"
    "1 \<le> limit" "limit \<le> 1000" "length items < n"
  shows "walk_pages E f limit n None = Some items"
  using assms(1-6) by (rule walk_from [where cursor = None and xs = "[]"]) (simp_all add: items_after_def assms(7))

text \<open>A database with a fixed listing that reads the limit and the cursor from the parameters.\<close>

definition row_of :: "ApiLogResponseItem \<Rightarrow> jsval" where
  "row_of it = plain [(js ''id'', JStr (item_id it)), (js ''timestamp'', JStr (item_timestamp it)),
     (js ''level'', JStr (item_level it)), (js ''service'', JStr (item_service it)),
     (js ''message'', JStr (item_message it)), (js ''attributes'', plain [])]"

definition listing_rows :: "ApiLogResponseItem list \<Rightarrow> jsval list \<Rightarrow> ApiLogResponseItem list" where
  "listing_rows items params =
     (let n = nat (the (safe_integer_value (last params)))
      in case params of
           [t, i, l] \<Rightarrow>
             (case (t, i) of
                (JStr t, JStr i) \<Rightarrow> take n (items_after (Some \<lparr>cursor_timestamp = t, cursor_id = i\<rparr>) items)
              | _ \<Rightarrow> [])
         | _ \<Rightarrow> take n items)"

definition listing_env :: "ApiLogResponseItem list \<Rightarrow> env" where
  "listing_env items = (quiet_env 0 (\<lambda>sql. Inr JUndef))\<lparr>env_query := (\<lambda>tr sql params.
     Inr (plain [(js ''rows'', JArr (map row_of (listing_rows items params)))]))\<rparr>"

definition sample_item :: "string \<Rightarrow> ApiLogResponseItem" where
  "sample_item t = \<lparr>item_id = cursor_id sample_position, item_timestamp = js t, item_level = js ''info'',
     item_service = js ''api'', item_message = js ''m'', item_attributes = []\<rparr>"

definition sample_items :: "ApiLogResponseItem list" where
  "sample_items = map sample_item [''2026-08-13T12:34:57.000Z'', ''2026-08-13T12:34:56.000Z'']"

lemma sample_times:
  "parseCanonicalTimestamp (js ''2026-08-13T12:34:57.000Z'') =
     Inr \<lparr>canonical = js ''2026-08-13T12:34:57.000Z'', wholeSecondMs = 1786624497000, fraction = js ''000''\<rparr>"
  "parseCanonicalTimestamp (js ''2026-08-13T12:34:56.000Z'') =
     Inr \<lparr>canonical = js ''2026-08-13T12:34:56.000Z'', wholeSecondMs = 1786624496000, fraction = js ''000''\<rparr>"
  using example_time_parses [of "''34''" "''57''"] example_time_parses [of "''34''" "''56''"]
  by (simp_all add: example_time_def num_def read_dec_def digit_val_def cu_def js_Cons is_digit_def)

lemma sample_uuid: "uuid_v4_pattern (cursor_id sample_position)" "isLogLevel (js ''info'')"
  by code_simp+

theorem pagination_complete_witness:
  "walk_pages (listing_env sample_items) no_filters 1 3 None = Some sample_items"
proof (rule pagination_complete)
  have rows: "mapRow (row_of it) = Inr it" if "it \<in> set sample_items" for it
    using that sample_times sample_uuid
    by (auto simp: sample_items_def sample_item_def mapRow_def row_of_def mapAttributes_def)
  have sub: "set (take n (items_after cursor sample_items)) \<subseteq> set sample_items" for n cursor
    by (auto simp: items_after_def dest!: in_set_takeD split: option.splits)
  have given: "listing_rows sample_items (snd (buildPageQuery
      \<lparr>page_filters = no_filters, page_limit = limit, page_cursor = cursor\<rparr>)) =
    take (nat (limit + 1)) (items_after cursor sample_items)" if "limit \<in> {1..1000}" for limit cursor
  proof -
    have "predicate_values (buildLogPredicate no_filters) = []" by code_simp
    moreover have surj: "\<lparr>cursor_timestamp = cursor_timestamp a, cursor_id = cursor_id a\<rparr> = a" for a by simp
    ultimately show ?thesis
      using that by (cases cursor) (simp_all add: surj buildPageQuery_def Let_def listing_rows_def items_after_def
          safe_int_def max_safe_integer_def)
  qed
  have "list_all2 (\<lambda>v it. mapRow v = Inr it) (map row_of xs) xs" if "set xs \<subseteq> set sample_items" for xs
    using that rows by (simp add: list_all2_map1 list.rel_refl_strong subset_iff)
  with sub show "answers_pages (listing_env sample_items) no_filters sample_items"
    unfolding answers_pages_def listing_env_def by (simp add: given)
  show "wf_filters no_filters" by (simp add: wf_filters_def no_filters_def)
  show "canonical_bounds no_filters" by (simp add: canonical_bounds_def no_filters_def)
  show "listed sample_items"
    by (simp add: listed_def sample_items_def sample_item_def item_position_def wf_position_def sample_times
        sample_uuid position_less_def position_instant_def instant_def)
  show "length sample_items < 3" by (simp add: sample_items_def)
qed simp_all

text \<open>
  Every request to the listing is answered safely: a response has at most the asked number
  of well-formed items and a cursor only when the page is full, which is the cursor of its last
  item; a rejected query or cursor never reaches the database; and any database failure or
  malformed row is one of the two database errors.
\<close>

theorem list_logs_safe:
  assumes "wf_object input"
  shows "case list_logs (findPage E) input tr of
      (Ret resp, tr') \<Rightarrow> \<exists>p. parseLogListQuery input = Inr p \<and> good_response p resp
    | (Exn e, tr') \<Rightarrow> e \<in> database_errors \<or> (\<exists>m. e = BadRequestError m) \<and> tr' = tr
    | (Unfinished, tr') \<Rightarrow> False"
proof (rule pg_pages.list_outcome)
  fix p
  assume "parseLogListQuery input = Inr p"
  then show "1 \<le> query_limit p"
    using parseLimit_bounds by (fastforce simp: parseLogListQuery_def split: sum.splits if_splits)
qed

theorem list_logs_safe_witness:
  "\<exists>m. fst (list_logs (findPage (quiet_env 0 (\<lambda>sql. Inr JUndef))) (plain [(js ''limit'', JStr (js ''0''))]) []) =
     Exn (BadRequestError m)"
proof -
  let ?q = "plain [(js ''limit'', JStr (js ''0''))]"
  have "wf_object ?q" by code_simp
  note safe = list_logs_safe [OF this, where E = "quiet_env 0 (\<lambda>sql. Inr JUndef)" and tr = "[]"]
  have "parseLogListQuery ?q = Inl (ERRORS LimitValue)" by code_simp
  with safe show ?thesis by (simp add: list_logs_def raise_def)
qed

end
