(* ===== verification/Aggregation.thy ===== *)
theory Aggregation
  imports LogQuery Ingestion
begin

section \<open>Aggregation (\<open>src/modules/aggregation\<close>)\<close>

text \<open>
  The parameter parser, the two queries, over the minute aggregates or over the logs, the mapping
  of the rows and the service. The lemmas show that an accepted request always builds a query,
  that the query text depends on the shape of the request only, which counts are accepted, and
  when the minute aggregates answer as the logs would.
\<close>

subsection \<open>Parameters\<close>

definition AGGREGATION_BUCKETS :: "jsstr list" where
  "AGGREGATION_BUCKETS = map js [''1m'', ''5m'', ''1h'', ''1d'']"

definition AGGREGATION_GROUPS :: "jsstr list" where
  "AGGREGATION_GROUPS = map js [''service'', ''level'']"

record ParsedLogAggregationQuery =
  agg_filters :: LogFilters
  agg_bucket :: jsstr
  agg_group_by :: "jsstr option"

datatype aggregation_error =
    SinceRequired | UntilRequired | BucketRequired | BucketDuplicate | BucketValue
  | GroupByDuplicate | GroupByValue

fun AGGREGATION_ERRORS :: "aggregation_error \<Rightarrow> jsstr" where
  "AGGREGATION_ERRORS SinceRequired = js ''Query parameter 'since' is required.''"
| "AGGREGATION_ERRORS UntilRequired = js ''Query parameter 'until' is required.''"
| "AGGREGATION_ERRORS BucketRequired = js ''Query parameter 'bucket' is required.''"
| "AGGREGATION_ERRORS BucketDuplicate = js ''Query parameter 'bucket' must appear at most once.''"
| "AGGREGATION_ERRORS BucketValue = js ''Query parameter 'bucket' must be one of 1m, 5m, 1h, or 1d.''"
| "AGGREGATION_ERRORS GroupByDuplicate = js ''Query parameter 'group_by' must appear at most once.''"
| "AGGREGATION_ERRORS GroupByValue = js ''Query parameter 'group_by' must be one of service or level.''"

definition readAggregationScalar ::
    "jsval \<Rightarrow> jsstr \<Rightarrow> aggregation_error \<Rightarrow> aggregation_error \<Rightarrow> ScalarReadResult" where
  "readAggregationScalar input key duplicateMessage invalidMessage =
     (if \<not> is_record input then Inl (AGGREGATION_ERRORS invalidMessage)
      else case own_descriptor input key of
          None \<Rightarrow> Inr None
        | Some p \<Rightarrow>
            if \<not> enumerable p then Inr None
            else case p of
                AccProp v e \<Rightarrow> Inl (AGGREGATION_ERRORS invalidMessage)
              | DataProp v e \<Rightarrow>
                  (case v of JArr vs \<Rightarrow> Inl (AGGREGATION_ERRORS duplicateMessage)
                   | JStr s \<Rightarrow> Inr (Some s)
                   | _ \<Rightarrow> Inl (AGGREGATION_ERRORS invalidMessage)))"

definition isAggregationBucket :: "jsstr \<Rightarrow> bool" where
  "isAggregationBucket v \<longleftrightarrow> list_ex (\<lambda>bucket. bucket = v) AGGREGATION_BUCKETS"

definition isAggregationGroupBy :: "jsstr \<Rightarrow> bool" where
  "isAggregationGroupBy v \<longleftrightarrow> list_ex (\<lambda>g. g = v) AGGREGATION_GROUPS"

definition parseLogAggregationQuery :: "jsval \<Rightarrow> ParsedLogAggregationQuery QueryParseResult" where
  "parseLogAggregationQuery input =
     (case parseLogFilters input of Inl e \<Rightarrow> Inl e
      | Inr filters \<Rightarrow>
        if filter_since filters = None then Inl (AGGREGATION_ERRORS SinceRequired)
        else if filter_until filters = None then Inl (AGGREGATION_ERRORS UntilRequired)
        else (case readAggregationScalar input (js ''bucket'') BucketDuplicate BucketValue of
          Inl e \<Rightarrow> Inl e
        | Inr None \<Rightarrow> Inl (AGGREGATION_ERRORS BucketRequired)
        | Inr (Some bucket) \<Rightarrow>
          if \<not> isAggregationBucket bucket then Inl (AGGREGATION_ERRORS BucketValue)
          else (case readAggregationScalar input (js ''group_by'') GroupByDuplicate GroupByValue of
              Inl e \<Rightarrow> Inl e
            | Inr groupBy \<Rightarrow>
                if option_any (\<lambda>g. \<not> isAggregationGroupBy g) groupBy
                then Inl (AGGREGATION_ERRORS GroupByValue)
                else Inr \<lparr>agg_filters = filters, agg_bucket = bucket, agg_group_by = groupBy\<rparr>)))"

subsection \<open>The queries\<close>

definition BUCKET_INTERVAL_SQL :: "(jsstr \<times> jsstr) list" where
  "BUCKET_INTERVAL_SQL = map (\<lambda>(k, i). (js k, js ''INTERVAL '' @ single_quoted i))
     [(''1m'', ''1 minute''), (''5m'', ''5 minutes''), (''1h'', ''1 hour''), (''1d'', ''1 day'')]"

definition GROUP_EXPRESSION_SQL :: "(jsstr \<times> jsstr) list" where
  "GROUP_EXPRESSION_SQL = [(js ''service'', js ''logs.service''), (js ''level'', js ''logs.level'')]"

definition FIXED_EPOCH_ORIGIN_SQL :: jsstr where
  "FIXED_EPOCH_ORIGIN_SQL = js ''TIMESTAMPTZ '' @ single_quoted ''1970-01-01 00:00:00+00''"

definition readBucketInterval :: "jsstr \<Rightarrow> throw + jsstr" where
  "readBucketInterval bucket =
     (case map_of BUCKET_INTERVAL_SQL bucket of None \<Rightarrow> Inl InternalDatabaseError | Some i \<Rightarrow> Inr i)"

definition readGroupExpression :: "jsstr \<Rightarrow> throw + jsstr" where
  "readGroupExpression groupBy =
     (case map_of GROUP_EXPRESSION_SQL groupBy of None \<Rightarrow> Inl InternalDatabaseError | Some e \<Rightarrow> Inr e)"

text \<open>The expression for an optional group: none without one.\<close>

definition read_group :: "jsstr option \<Rightarrow> throw + jsstr option" where
  "read_group groupBy =
     (case groupBy of None \<Rightarrow> Inr None | Some g \<Rightarrow> map_sum id Some (readGroupExpression g))"

definition canUseRollup :: "LogFilters \<Rightarrow> bool" where
  "canUseRollup filters \<longleftrightarrow> filter_q filters = None \<and> filter_attributes filters = []"

definition aggregation_text :: "jsstr \<Rightarrow> jsstr \<Rightarrow> jsstr \<Rightarrow> jsstr \<Rightarrow> jsstr \<Rightarrow> jsstr option \<Rightarrow> jsstr" where
  "aggregation_text interval column counted table condition groupExpression =
     sql_lines
       [js ''SELECT'',
        js ''  to_char('',
        js ''    aggregation.bucket_start AT TIME ZONE 'UTC','',
        utc_format,
        js ''  ) AS start,'',
        js ''  aggregation.group_value AS '' @ quoted ''group'' @ js '','',
        js ''  aggregation.count::text AS count'',
        js ''FROM ('',
        js ''  SELECT'',
        js ''    date_bin('',
        js ''      '' @ interval @ js '','',
        js ''      '' @ column @ js '','',
        js ''      '' @ FIXED_EPOCH_ORIGIN_SQL,
        js ''    ) AS bucket_start,'',
        js ''    '' @ (case groupExpression of None \<Rightarrow> js ''NULL::text'' | Some e \<Rightarrow> e) @ js '' AS group_value,'',
        js ''    '' @ counted @ js '' AS count'',
        js ''  FROM logstream.'' @ table @ js '' AS logs'',
        js ''  WHERE '' @ condition,
        js ''  '' @ (if groupExpression = None then js ''GROUP BY 1'' else js ''GROUP BY 1, 2''),
        js '') AS aggregation'',
        js ''ORDER BY aggregation.bucket_start ASC'' @
          (if groupExpression = None then [] else js '', aggregation.group_value ASC''),
        []]"

definition required_value :: "jsstr option \<Rightarrow> jsval" where
  "required_value v = (case v of None \<Rightarrow> JUndef | Some s \<Rightarrow> JStr s)"

definition rollup_clauses :: "LogFilters \<Rightarrow> clauses" where
  "rollup_clauses filters =
     bind_optional (\<lambda>p. js ''logs.level = '' @ p) JStr (filter_level filters)
       (bind_optional (\<lambda>p. js ''logs.service = '' @ p) JStr (filter_service filters)
         ([js ''logs.bucket_start >= $1::timestamptz'', js ''logs.bucket_start < $2::timestamptz''],
          [required_value (filter_since filters), required_value (filter_until filters)]))"

definition buildRollupAggregationQuery :: "ParsedLogAggregationQuery \<Rightarrow> throw + jsstr \<times> jsval list" where
  "buildRollupAggregationQuery request =
     (case readBucketInterval (agg_bucket request) of Inl e \<Rightarrow> Inl e
      | Inr interval \<Rightarrow>
        (case read_group (agg_group_by request) of Inl e \<Rightarrow> Inl e
         | Inr groupExpression \<Rightarrow>
             (let (clauses, values) = rollup_clauses (agg_filters request)
              in Inr (aggregation_text interval (js ''logs.bucket_start'') (js ''SUM(logs.count)'')
                   (js ''log_minute_aggregates'') (intersperse_join (js '' AND '') clauses) groupExpression,
                 values))))"

definition buildRawAggregationQuery :: "ParsedLogAggregationQuery \<Rightarrow> throw + jsstr \<times> jsval list" where
  "buildRawAggregationQuery request =
     (case readBucketInterval (agg_bucket request) of Inl e \<Rightarrow> Inl e
      | Inr interval \<Rightarrow>
        (case read_group (agg_group_by request) of Inl e \<Rightarrow> Inl e
         | Inr groupExpression \<Rightarrow>
             (let predicate = buildLogPredicate (agg_filters request)
              in Inr (aggregation_text interval (js ''logs.'' @ quoted ''timestamp'') (js ''COUNT(*)'')
                   (js ''logs'') (predicate_text predicate) groupExpression,
                 predicate_values predicate))))"

subsection \<open>The rows\<close>

record LogAggregationBucket =
  bucket_start :: jsstr
  bucket_group :: "jsstr option"
  bucket_count :: int

definition readOwnDataProperty :: "jsval \<Rightarrow> jsstr \<Rightarrow> throw + jsval" where
  "readOwnDataProperty row key =
     (case own_descriptor row key of
        Some (DataProp v True) \<Rightarrow> Inr v
      | _ \<Rightarrow> Inl InternalDatabaseError)"

text \<open>\<open>/^[1-9][0-9]*$/u\<close>.\<close>

definition positive_integer_pattern :: "jsstr \<Rightarrow> bool" where
  "positive_integer_pattern s \<longleftrightarrow> s \<noteq> [] \<and> all_digits s \<and> hd s \<noteq> cu CHR ''0''"

definition MAX_SAFE_COUNT_DIGITS :: nat where
  "MAX_SAFE_COUNT_DIGITS = length (show_int max_safe_integer)"

definition mapCount :: "jsval \<Rightarrow> throw + int" where
  "mapCount v =
     (case v of
        JStr s \<Rightarrow>
          if MAX_SAFE_COUNT_DIGITS < length s \<or> \<not> positive_integer_pattern s then Inl InternalDatabaseError
          else (let count = int (read_dec s)
            in if max_safe_integer < count then Inl InternalDatabaseError
               else if \<not> safe_int count then Inl InternalDatabaseError
               else Inr count)
      | _ \<Rightarrow> Inl InternalDatabaseError)"

definition mapGroup :: "jsval \<Rightarrow> jsstr option \<Rightarrow> throw + jsstr option" where
  "mapGroup v groupBy =
     (case groupBy of
        None \<Rightarrow> if v \<noteq> JNull then Inl InternalDatabaseError else Inr None
      | Some g \<Rightarrow>
          (case v of
             JStr s \<Rightarrow>
               if g = js ''level'' \<and> \<not> isLogLevel s then Inl InternalDatabaseError else Inr (Some s)
           | _ \<Rightarrow> Inl InternalDatabaseError))"

definition map_bucket_row :: "jsstr option \<Rightarrow> jsval \<Rightarrow> throw + LogAggregationBucket" where
  "map_bucket_row groupBy v =
     (if \<not> is_record v then Inl InternalDatabaseError
      else case readOwnDataProperty v (js ''start'') of Inl e \<Rightarrow> Inl e
      | Inr start \<Rightarrow>
        (case readOwnDataProperty v (js ''group'') of Inl e \<Rightarrow> Inl e
         | Inr grp \<Rightarrow>
           (case readOwnDataProperty v (js ''count'') of Inl e \<Rightarrow> Inl e
            | Inr cnt \<Rightarrow>
              (case start of
                 JStr t \<Rightarrow>
                   (case parseCanonicalTimestamp t of
                      Inl k \<Rightarrow> Inl InternalDatabaseError
                    | Inr ts \<Rightarrow>
                      (case mapGroup grp groupBy of Inl e \<Rightarrow> Inl e
                       | Inr g \<Rightarrow>
                         (case mapCount cnt of Inl e \<Rightarrow> Inl e
                          | Inr n \<Rightarrow>
                              Inr \<lparr>bucket_start = canonical ts, bucket_group = g, bucket_count = n\<rparr>)))
               | _ \<Rightarrow> Inl InternalDatabaseError))))"

definition read_buckets :: "ParsedLogAggregationQuery \<Rightarrow> jsval \<Rightarrow> throw + LogAggregationBucket list" where
  "read_buckets request result =
     (case get_prop result (js ''rows'') of
        JArr rows \<Rightarrow> traverse (map_bucket_row (agg_group_by request)) rows
      | _ \<Rightarrow> Inl InternalDatabaseError)"

definition aggregation_query :: "ParsedLogAggregationQuery \<Rightarrow> throw + jsstr \<times> jsval list" where
  "aggregation_query request =
     (if canUseRollup (agg_filters request) then buildRollupAggregationQuery request
      else buildRawAggregationQuery request)"

definition aggregate_logs :: "env \<Rightarrow> ParsedLogAggregationQuery \<Rightarrow> LogAggregationBucket list io" where
  "aggregate_logs E request =
     seq (lift_sum (aggregation_query request)) (\<lambda>(sql, values).
     seq (handle (query E sql values) (\<lambda>e. raise (translateDatabaseError (error_value e)))) (\<lambda>result.
       lift_sum (read_buckets request result)))"

definition aggregate_service ::
    "(ParsedLogAggregationQuery \<Rightarrow> LogAggregationBucket list io) \<Rightarrow> jsval \<Rightarrow> LogAggregationBucket list io" where
  "aggregate_service aggregate input =
     (case parseLogAggregationQuery input of
        Inl m \<Rightarrow> raise (BadRequestError m)
      | Inr request \<Rightarrow> aggregate request)"

subsection \<open>Accepted requests\<close>

definition wf_aggregation :: "ParsedLogAggregationQuery \<Rightarrow> bool" where
  "wf_aggregation q \<longleftrightarrow>
     wf_filters (agg_filters q) \<and> filter_since (agg_filters q) \<noteq> None \<and> filter_until (agg_filters q) \<noteq> None \<and>
     agg_bucket q \<in> set AGGREGATION_BUCKETS \<and>
     (case agg_group_by q of None \<Rightarrow> True | Some g \<Rightarrow> g \<in> set AGGREGATION_GROUPS)"

lemma list_ex_eq: "list_ex (\<lambda>x. x = v) xs \<longleftrightarrow> v \<in> set xs"
  by (auto simp: list_ex_iff)

lemma parse_aggregation_wf:
  assumes "parseLogAggregationQuery input = Inr q" "wf_object input"
  shows "wf_aggregation q"
  using assms parseLogFilters_wf [of input]
  by (auto simp: parseLogAggregationQuery_def wf_aggregation_def isAggregationBucket_def isAggregationGroupBy_def
      list_ex_eq option_any_def split: sum.splits option.splits if_splits)

lemma bucket_known: "b \<in> set AGGREGATION_BUCKETS \<Longrightarrow> \<exists>i. readBucketInterval b = Inr i"
  by (auto simp: AGGREGATION_BUCKETS_def readBucketInterval_def BUCKET_INTERVAL_SQL_def)

lemma group_known: "g \<in> set AGGREGATION_GROUPS \<Longrightarrow> \<exists>e. readGroupExpression g = Inr e"
  by (auto simp: AGGREGATION_GROUPS_def readGroupExpression_def GROUP_EXPRESSION_SQL_def)

lemma aggregation_query_total:
  assumes "wf_aggregation q"
  shows "\<exists>sql values. aggregation_query q = Inr (sql, values)"
proof -
  obtain i where i: "readBucketInterval (agg_bucket q) = Inr i"
    using assms bucket_known by (auto simp: wf_aggregation_def)
  obtain g where g: "read_group (agg_group_by q) = Inr g"
    using assms group_known
    by (auto simp: wf_aggregation_def read_group_def split: option.splits dest!: group_known)
  from i g show ?thesis
    by (simp add: aggregation_query_def buildRollupAggregationQuery_def buildRawAggregationQuery_def Let_def
        split: prod.splits)
qed

subsection \<open>Counts\<close>

lemma show_nat_read_dec:
  "all_digits s \<Longrightarrow> s \<noteq> [] \<Longrightarrow> hd s \<noteq> digit_cu 0 \<Longrightarrow> show_nat (read_dec s) = s \<and> 0 < read_dec s"
proof (induction s rule: rev_induct)
  case (snoc c s)
  then have c: "is_digit c" by simp
  show ?case
  proof (cases "s = []")
    case True
    with snoc c have "0 < digit_val c" using digit_cu_val [of c] by (cases "digit_val c") auto
    with True c digit_val_less [OF c] show ?thesis
      by (subst show_nat.simps) (simp add: read_dec_def digit_cu_val)
  next
    case False
    with snoc have "show_nat (read_dec s) = s" "0 < read_dec s" by simp_all
    with c digit_val_less [OF c] show ?thesis
      by (subst show_nat.simps) (simp add: read_dec_snoc digit_cu_val)
  qed
qed simp

lemma length_show_nat: "n < 10 ^ k \<Longrightarrow> 0 < k \<Longrightarrow> length (show_nat n) \<le> k"
  using pad_start_show_nat [of n k] length_pad_start [of k "digit_cu 0" "show_nat n"]
  by (metis length_fix_digits max.cobounded2)

lemma hd_show_nat: "0 < n \<Longrightarrow> hd (show_nat n) \<noteq> digit_cu 0"
proof (induction n rule: show_nat.induct)
  case (1 n)
  then show ?case
    by (subst show_nat.simps) (auto simp: digit_cu_inject hd_append)
qed

lemma count_digits: "MAX_SAFE_COUNT_DIGITS = 16"
  by code_simp

lemma mapCount_iff: "mapCount v = Inr n \<longleftrightarrow> v = JStr (show_int n) \<and> 1 \<le> n \<and> n \<le> max_safe_integer"
proof
  assume "mapCount v = Inr n"
  then obtain s where s: "v = JStr s" "positive_integer_pattern s" "n = int (read_dec s)" "n \<le> max_safe_integer"
    by (auto simp: mapCount_def Let_def split: jsval.splits if_splits)
  then have "show_nat (read_dec s) = s" "0 < read_dec s"
    using show_nat_read_dec by (auto simp: positive_integer_pattern_def cu_zero)
  with s show "v = JStr (show_int n) \<and> 1 \<le> n \<and> n \<le> max_safe_integer"
    by (simp add: show_int_def show_pos_nat)
next
  assume n: "v = JStr (show_int n) \<and> 1 \<le> n \<and> n \<le> max_safe_integer"
  then have s: "show_int n = show_nat (nat n)" by (simp add: show_int_def show_pos_nat)
  have "nat n < 10 ^ 16" using n by (simp add: max_safe_integer_def nat_less_iff)
  then have "length (show_nat (nat n)) \<le> 16" by (rule length_show_nat) simp
  moreover have "positive_integer_pattern (show_nat (nat n))"
    using n hd_show_nat by (simp add: positive_integer_pattern_def cu_zero)
  ultimately show "mapCount v = Inr n"
    using n by (simp add: mapCount_def s count_digits safe_int_def)
qed

subsection \<open>Outcomes\<close>

definition wf_bucket :: "jsstr option \<Rightarrow> LogAggregationBucket \<Rightarrow> bool" where
  "wf_bucket groupBy b \<longleftrightarrow>
     1 \<le> bucket_count b \<and> bucket_count b \<le> max_safe_integer \<and>
     (bucket_group b = None \<longleftrightarrow> groupBy = None) \<and>
     (groupBy = Some (js ''level'') \<longrightarrow> option_any isLogLevel (bucket_group b)) \<and>
     (\<exists>t ts. parseCanonicalTimestamp t = Inr ts \<and> bucket_start b = canonical ts)"

lemma mapGroup_Inr: "mapGroup v groupBy = Inr g \<Longrightarrow>
    (g = None \<longleftrightarrow> groupBy = None) \<and> (groupBy = Some (js ''level'') \<longrightarrow> option_any isLogLevel g)"
  by (auto simp: mapGroup_def option_any_def split: option.splits jsval.splits if_splits)

lemma map_bucket_row_Inr: "map_bucket_row groupBy v = Inr b \<Longrightarrow> wf_bucket groupBy b"
  by (auto simp: map_bucket_row_def wf_bucket_def mapCount_iff dest!: mapGroup_Inr
      split: if_splits sum.splits jsval.splits) blast+

lemma readOwnDataProperty_Inl: "readOwnDataProperty v k = Inl e \<Longrightarrow> e = InternalDatabaseError"
  by (auto simp: readOwnDataProperty_def split: option.splits jsprop.splits bool.splits)

lemma mapGroup_Inl: "mapGroup v g = Inl e \<Longrightarrow> e = InternalDatabaseError"
  by (auto simp: mapGroup_def split: option.splits jsval.splits if_splits)

lemma mapCount_Inl: "mapCount v = Inl e \<Longrightarrow> e = InternalDatabaseError"
  by (auto simp: mapCount_def Let_def split: jsval.splits if_splits)

lemma map_bucket_row_Inl: "map_bucket_row g v = Inl e \<Longrightarrow> e = InternalDatabaseError"
  by (auto simp: map_bucket_row_def dest: readOwnDataProperty_Inl mapGroup_Inl mapCount_Inl
      split: if_splits sum.splits jsval.splits)

lemma read_buckets_Inl: "read_buckets q result = Inl e \<Longrightarrow> e \<in> database_errors"
  by (auto simp: read_buckets_def database_errors_def split: jsval.splits dest!: traverse_Inl map_bucket_row_Inl)

lemma read_buckets_Inr: "read_buckets q result = Inr bs \<Longrightarrow> list_all (wf_bucket (agg_group_by q)) bs"
proof -
  assume "read_buckets q result = Inr bs"
  then obtain rows where "list_all2 (\<lambda>v b. map_bucket_row (agg_group_by q) v = Inr b) rows bs"
    by (auto simp: read_buckets_def traverse_Inr_iff split: jsval.splits)
  then show ?thesis by (induction rule: list_all2_induct) (simp_all add: map_bucket_row_Inr)
qed

lemma aggregate_logs_outcome:
  assumes "wf_aggregation q"
  shows "case aggregate_logs E q tr of
      (Ret bs, tr') \<Rightarrow> list_all (wf_bucket (agg_group_by q)) bs
    | (Exn e, tr') \<Rightarrow> e \<in> database_errors
    | (Unfinished, tr') \<Rightarrow> False"
proof -
  obtain sql params where "aggregation_query q = Inr (sql, params)"
    using aggregation_query_total [OF assms] by blast
  then show ?thesis
    using translated_error
    by (cases "env_query E tr sql params")
      (auto simp: aggregate_logs_def seq_def handle_def query_def call_def lift_sum_def raise_def ret_def Let_def
        dest: read_buckets_Inl read_buckets_Inr split: sum.splits)
qed

subsection \<open>The time window of the minute aggregates\<close>

text \<open>
  The meaning of the two bounds in the queries' conditions, for the text \<open>t\<close> of a timestamp:
  the log's own in the raw query, its minute's start in the query on the aggregates.
\<close>

definition in_window :: "jsstr \<Rightarrow> jsstr \<Rightarrow> jsstr \<Rightarrow> bool" where
  "in_window since until t \<longleftrightarrow>
     (case (parseCanonicalTimestamp since, parseCanonicalTimestamp until, parseCanonicalTimestamp t) of
        (Inr s, Inr u, Inr x) \<Rightarrow> compareParsedTimestamps s x \<le> 0 \<and> compareParsedTimestamps x u < 0
      | _ \<Rightarrow> False)"

definition in_rollup_window :: "jsstr \<Rightarrow> jsstr \<Rightarrow> jsstr \<Rightarrow> bool" where
  "in_rollup_window since until t \<longleftrightarrow>
     (case toMinuteBucketIso t of Inl e \<Rightarrow> False | Inr bucket \<Rightarrow> in_window since until bucket)"


lemma compare_le: "wf_timestamp l \<Longrightarrow> wf_timestamp r \<Longrightarrow>
    (compareParsedTimestamps l r \<le> 0 \<longleftrightarrow> instant l \<le> instant r) \<and>
    (compareParsedTimestamps l r < 0 \<longleftrightarrow> instant l < instant r)"
proof -
  assume "wf_timestamp l" "wf_timestamp r"
  note c = compare_sgn [OF this]
  have "(of_int (compareParsedTimestamps l r) :: rat) \<le> 0 \<longleftrightarrow> instant l \<le> instant r"
    "(of_int (compareParsedTimestamps l r) :: rat) < 0 \<longleftrightarrow> instant l < instant r"
    unfolding c by (auto simp: sgn_if)
  then show ?thesis by simp
qed

lemma parse_minute_start:
  assumes "four_digit_year (k * 60000)"
  shows "\<exists>b. parseCanonicalTimestamp (toISOString (k * 60000)) = Inr b \<and> instant b = of_int (60 * k)"
proof -
  have "k * 60000 = k * 60 * 1000" by simp
  then have mod: "k * 60000 mod 1000 = 0" by (simp only: mod_mult_self2_is_0)
  have "frac_val (js ''000'') = 0" by (simp add: frac_val_def read_dec_def js_def cu_def digit_val_def)
  with iso_timestamp(2) [OF assms mod] show ?thesis by (simp add: instant_def)
qed

lemma minute_start_year:
  assumes "four_digit_year t"
  shows "four_digit_year (t div 60000 * 60000)"
proof -
  have "t div 60000 * 60000 div ms_per_day = t div ms_per_day"
  proof -
    have "ms_per_day = 60000 * 1440" "(0 :: int) < 60000" by simp_all
    then show ?thesis by (simp add: zdiv_zmult2_eq)
  qed
  with assms show ?thesis by (simp add: four_digit_year_def year_of_def)
qed

lemma rollup_window_instants:
  assumes ts: "parseCanonicalTimestamp v = Inr ts" and yr: "four_digit_year (wholeSecondMs ts)"
    and s: "parseCanonicalTimestamp since = Inr s" and u: "parseCanonicalTimestamp until = Inr u"
  shows "in_window since until (canonical ts) \<longleftrightarrow> instant s \<le> instant ts \<and> instant ts < instant u"
    "in_rollup_window since until (canonical ts) \<longleftrightarrow>
       instant s \<le> of_int (60 * \<lfloor>instant ts / 60\<rfloor>) \<and> of_int (60 * \<lfloor>instant ts / 60\<rfloor>) < instant u"
proof -
  note wf = parse_wf [OF ts] parse_wf [OF s] parse_wf [OF u]
  let ?ts = "ts\<lparr>fraction := formatCanonicalFraction (fraction ts)\<rparr>"
  have p: "parseCanonicalTimestamp (canonical ts) = Inr ?ts" by (rule reparse_canonical [OF wf(1) yr])
  note wf' = parse_wf [OF p]
  have "instant ?ts = instant ts" by (simp add: instant_def)
  then show "in_window since until (canonical ts) \<longleftrightarrow> instant s \<le> instant ts \<and> instant ts < instant u"
    using compare_le [OF wf(2) wf'] compare_le [OF wf' wf(3)] by (simp add: in_window_def p s u)
  define k where "k = \<lfloor>instant ts / 60\<rfloor>"
  have "k = wholeSecondMs ts div 60000"
  proof -
    define a where "a = wholeSecondMs ts div 1000"
    have w: "wholeSecondMs ts = a * 1000" using whole_second_split [OF wf(1)] by (simp add: a_def)
    have "all_digits (fraction ts)" using wf(1) by (simp add: wf_timestamp_def)
    then have "k = a div 60"
      using floor_div_split [of "frac_val (fraction ts)" a] frac_val_bounds by (simp add: k_def instant_def w)
    also have "\<dots> = wholeSecondMs ts div 60000" using minute_of_ms [of 0 a] by (simp add: w)
    finally show ?thesis .
  qed
  then have "four_digit_year (k * 60000)" using minute_start_year [OF yr] by simp
  then obtain b where b: "parseCanonicalTimestamp (toISOString (k * 60000)) = Inr b" "instant b = of_int (60 * k)"
    using parse_minute_start by blast
  have "toMinuteBucketIso (canonical ts) = Inr (toISOString (k * 60000))"
    using minute_bucket [OF wf(1) yr] by (simp add: k_def)
  with b compare_le [OF wf(2) parse_wf [OF b(1)]] compare_le [OF parse_wf [OF b(1)] wf(3)]
  show "in_rollup_window since until (canonical ts) \<longleftrightarrow>
       instant s \<le> of_int (60 * \<lfloor>instant ts / 60\<rfloor>) \<and> of_int (60 * \<lfloor>instant ts / 60\<rfloor>) < instant u"
    by (simp add: in_rollup_window_def in_window_def s u k_def)
qed


subsection \<open>Properties\<close>

text \<open>
  Every aggregation request is answered safely: an accepted one always builds a query, its
  buckets have canonical starts, a group exactly when one was asked for, and counts that are safe
  integers; a rejected one never reaches the database; and a failing database or a malformed row
  is one of the two database errors.
\<close>

theorem aggregate_safe:
  assumes "wf_object input"
  shows "case aggregate_service (aggregate_logs E) input tr of
      (Ret bs, tr') \<Rightarrow> \<exists>q. parseLogAggregationQuery input = Inr q \<and> list_all (wf_bucket (agg_group_by q)) bs
    | (Exn e, tr') \<Rightarrow> e \<in> database_errors \<or> (\<exists>m. e = BadRequestError m) \<and> tr' = tr
    | (Unfinished, tr') \<Rightarrow> False"
proof (cases "parseLogAggregationQuery input")
  case (Inl m)
  then show ?thesis by (simp add: aggregate_service_def raise_def)
next
  case (Inr q)
  from aggregate_logs_outcome [OF parse_aggregation_wf [OF this assms], of E tr] Inr show ?thesis
    by (simp add: aggregate_service_def split: prod.splits outcome.splits)
qed

definition sample_aggregation :: jsval where
  "sample_aggregation = plain [(js ''since'', JStr (js ''2026-08-13T12:00:00Z'')),
     (js ''until'', JStr (js ''2026-08-13T13:00:00Z'')), (js ''bucket'', JStr (js ''5m'')),
     (js ''group_by'', JStr (js ''level''))]"

theorem aggregate_safe_witness:
  "fst (aggregate_service (aggregate_logs (quiet_env 0 (\<lambda>sql. Inr JUndef))) sample_aggregation []) =
     Exn InternalDatabaseError"
proof -
  let ?E = "quiet_env 0 (\<lambda>sql. Inr JUndef)"
  have wf: "wf_object sample_aggregation" by code_simp
  obtain q where q: "parseLogAggregationQuery sample_aggregation = Inr q"
  proof -
    have "case parseLogAggregationQuery sample_aggregation of Inl e \<Rightarrow> False | Inr q \<Rightarrow> True" by code_simp
    then show thesis using that by (auto split: sum.splits)
  qed
  obtain sql params where s: "aggregation_query q = Inr (sql, params)"
    using aggregation_query_total [OF parse_aggregation_wf [OF q wf]] by blast
  have "get_prop JUndef k = JUndef" for k by (simp add: get_prop_def own_descriptor_def)
  with q s aggregate_safe [OF wf, where E = ?E and tr = "[]"] show ?thesis
    by (simp add: aggregate_service_def aggregate_logs_def seq_def lift_sum_def ret_def handle_def query_def
        call_def quiet_env_def read_buckets_def raise_def)
qed

text \<open>
  A count is accepted exactly when it is the decimal text of a positive safe integer, and
  then it is that integer: no sign, leading zero, exponent or precision loss.
\<close>

theorem mapCount_exact:
  "mapCount v = Inr n \<longleftrightarrow> v = JStr (show_int n) \<and> 1 \<le> n \<and> n \<le> max_safe_integer"
  by (rule mapCount_iff)


lemma example_times:
  "parseCanonicalTimestamp (js ''2026-08-13T12:34:56.000Z'') =
     Inr \<lparr>canonical = js ''2026-08-13T12:34:56.000Z'', wholeSecondMs = 1786624496000, fraction = js ''000''\<rparr>"
  "parseCanonicalTimestamp (js ''2026-08-13T12:34:00.000Z'') =
     Inr \<lparr>canonical = js ''2026-08-13T12:34:00.000Z'', wholeSecondMs = 1786624440000, fraction = js ''000''\<rparr>"
  "parseCanonicalTimestamp (js ''2026-08-13T12:35:00.000Z'') =
     Inr \<lparr>canonical = js ''2026-08-13T12:35:00.000Z'', wholeSecondMs = 1786624500000, fraction = js ''000''\<rparr>"
  "parseCanonicalTimestamp (js ''2026-08-13T12:34:30.000Z'') =
     Inr \<lparr>canonical = js ''2026-08-13T12:34:30.000Z'', wholeSecondMs = 1786624470000, fraction = js ''000''\<rparr>"
  using example_time_parses [of "''34''" "''56''"] example_time_parses [of "''34''" "''00''"]
    example_time_parses [of "''35''" "''00''"] example_time_parses [of "''34''" "''30''"]
  by (simp_all add: example_time_def num_def read_dec_def digit_val_def cu_def js_Cons is_digit_def)

lemma example_fraction: "frac_val (js ''000'') = 0"
  by (simp add: frac_val_def read_dec_def js_def cu_def digit_val_def)

lemma example_year: "four_digit_year 1786624496000"
  by code_simp


text \<open>
  With a bound inside a minute the two queries differ: from 12:34:30, a log of 12:34:56 is
  in the window of the query on the logs and not in that of the query on the aggregates, so adding
  a search text or an attribute filter can add logs to a result.
\<close>

theorem rollup_window_differs:
  "in_window (js ''2026-08-13T12:34:30.000Z'') (js ''2026-08-13T12:35:00.000Z'') (js ''2026-08-13T12:34:56.000Z'') \<and>
   \<not> in_rollup_window (js ''2026-08-13T12:34:30.000Z'') (js ''2026-08-13T12:35:00.000Z'') (js ''2026-08-13T12:34:56.000Z'')"
proof -
  have "\<lfloor>(446656124 :: rat) / 15\<rfloor> = 29777074" by (simp add: floor_eq_iff)
  then show ?thesis
    using rollup_window_instants [OF example_times(1) _ example_times(4) example_times(3)] example_year
    by (simp add: instant_def example_fraction)
qed

text \<open>
  No value of a request reaches the text of an aggregation query: two requests for the same
  bucket and group with the same filters present have the same text, whichever of the two
  queries answers them.
\<close>

theorem aggregation_text_from_shape:
  assumes "agg_bucket q = agg_bucket r" "agg_group_by q = agg_group_by r"
    "same_shape (agg_filters q) (agg_filters r)"
  shows "map_sum id fst (aggregation_query q) = map_sum id fst (aggregation_query r)"
proof -
  have roll: "fst (rollup_clauses (agg_filters q)) = fst (rollup_clauses (agg_filters r))"
    using assms(3) by (auto simp: same_shape_def rollup_clauses_def bind_optional_def bind_clause_def
        split: option.splits)
  have raw: "predicate_text (buildLogPredicate (agg_filters q)) = predicate_text (buildLogPredicate (agg_filters r))"
    using number_clauses_shape [OF same_shape_clauses [OF assms(3)]]
    by (simp add: buildLogPredicate_def filter_clauses_bound bound_def)
  have use: "canUseRollup (agg_filters q) \<longleftrightarrow> canUseRollup (agg_filters r)"
    using assms(3) by (auto simp: canUseRollup_def same_shape_def)
  show ?thesis
    using roll by (auto simp: aggregation_query_def use buildRollupAggregationQuery_def buildRawAggregationQuery_def
        assms(1,2) raw Let_def split: sum.splits prod.splits)
qed

theorem aggregation_text_from_shape_witness:
  "map_sum id fst (aggregation_query \<lparr>agg_filters = sample_filters (js ''a''), agg_bucket = js ''1h'', agg_group_by = None\<rparr>) =
   map_sum id fst (aggregation_query \<lparr>agg_filters = sample_filters (js ''b; --''), agg_bucket = js ''1h'', agg_group_by = None\<rparr>)"
  by (rule aggregation_text_from_shape) (simp_all add: same_shape_def sample_filters_def)

end
