(* ===== verification/Routes.thy ===== *)
theory Routes
  imports LogQuery Aggregation
begin

section \<open>The log routes (\<open>src/routes/logs.ts\<close>)\<close>

text \<open>
  The three routes as the framework runs them: the service's result becomes a response with the
  route's status, a thrown error goes to the error handler. The lemmas put the components
  together: every request is answered, and the status says what happened in the database.
\<close>

subsection \<open>Definitions\<close>








subsection \<open>Answers\<close>












end
