(* ===== verification/MigrationLoader.thy ===== *)
theory MigrationLoader
  imports Effects Sha256 JsArray Json
begin

section \<open>Migration files (\<open>src/database/migrations/migration-loader.ts\<close>)\<close>

text \<open>
  A migration is a file \<open>NNNN_name.sql\<close>. Its text is searched for statements that control
  transactions after strings and comments have been blanked out; the plan is sorted by version
  and carries the SHA-256 checksum of each file. The lemmas characterise the accepted sets of
  files and the plan, and show what the search does and does not find.
\<close>

subsection \<open>Names\<close>

record MigrationFile =
  mig_version :: int
  mig_filename :: jsstr
  mig_checksum :: jsstr
  mig_sql :: jsstr

record MigrationSource =
  source_filename :: jsstr
  source_bytes :: "byte list"

definition lower_alnum :: "code_unit \<Rightarrow> bool" where
  "lower_alnum c \<longleftrightarrow> is_digit c \<or> cu CHR ''a'' \<le> c \<and> c \<le> cu CHR ''z''"

text \<open>\<open>[a-z0-9]+(?:_[a-z0-9]+)*\<close>.\<close>

fun name_words :: "jsstr \<Rightarrow> bool" where
  "name_words [] = False"
| "name_words [c] = lower_alnum c"
| "name_words (c # d # r) =
     (lower_alnum c \<and> (if d = cu CHR ''_'' then name_words r else name_words (d # r)))"

text \<open>\<open>/^(\d{4})_([a-z0-9]+(?:_[a-z0-9]+)*)\.sql$/\<close>.\<close>

definition migration_filename_pattern :: "jsstr \<Rightarrow> bool" where
  "migration_filename_pattern s \<longleftrightarrow>
     length (take 4 s) = 4 \<and> all_digits (take 4 s) \<and> take 1 (drop 4 s) = js ''_'' \<and>
     (let body = drop 5 s
      in 4 \<le> length body \<and> drop (length body - 4) body = js ''.sql'' \<and>
         name_words (take (length body - 4) body))"

definition parseVersion :: "jsstr \<Rightarrow> throw + int" where
  "parseVersion filename =
     (if \<not> migration_filename_pattern filename then Inl (MigrationError InvalidMigrationFilenameError)
      else
        (let version = int (read_dec (take 4 filename))
         in if version < 1 then Inl (MigrationError InvalidMigrationFilenameError) else Inr version))"

subsection \<open>Blanking strings and comments\<close>

definition space_unit :: code_unit where "space_unit = 32"
definition newline_unit :: code_unit where "newline_unit = 10"

text \<open>\<open>sql.charAt(i)\<close>, empty out of range.\<close>

definition char_at :: "jsstr \<Rightarrow> nat \<Rightarrow> jsstr" where
  "char_at sql i = take 1 (drop i sql)"

text \<open>\<open>sql.indexOf(part, start)\<close>.\<close>

definition index_of :: "jsstr \<Rightarrow> jsstr \<Rightarrow> nat \<Rightarrow> nat option" where
  "index_of sql part start =
     find (\<lambda>i. starts_with part (drop i sql)) [start..<length sql + 1]"

text \<open>\<open>text.replaceAll(/[^\n]/gu, " ")\<close>: a surrogate pair is one character.\<close>

fun blank :: "jsstr \<Rightarrow> jsstr" where
  "blank [] = []"
| "blank [c] = [if c = newline_unit then c else space_unit]"
| "blank (c # d # r) =
     (if is_high_surrogate c \<and> is_low_surrogate d then space_unit # blank r
      else (if c = newline_unit then c else space_unit) # blank (d # r))"

definition spaces :: "nat \<Rightarrow> jsstr" where
  "spaces n = replicate n space_unit"

text \<open>The end of a comment that starts before \<open>cursor\<close>, and the depth reached there.\<close>

function comment_end :: "jsstr \<Rightarrow> nat \<Rightarrow> nat \<Rightarrow> nat \<times> nat" where
  "comment_end sql cursor depth =
     (if length sql \<le> cursor \<or> depth = 0 then (cursor, depth)
      else if char_at sql cursor = js ''/'' \<and> char_at sql (cursor + 1) = js ''*'' then comment_end sql (cursor + 2) (depth + 1)
      else if char_at sql cursor = js ''*'' \<and> char_at sql (cursor + 1) = js ''/'' then comment_end sql (cursor + 2) (depth - 1)
      else comment_end sql (cursor + 1) depth)"
  by pat_completeness auto
termination by (relation "measure (\<lambda>(sql, cursor, depth). length sql - cursor)") auto

declare comment_end.simps [simp del]

text \<open>The rest of a quoted text from inside it: its blanks and where it ends.\<close>

function quoted_end :: "jsstr \<Rightarrow> nat \<Rightarrow> jsstr \<Rightarrow> bool \<Rightarrow> jsstr \<times> nat" where
  "quoted_end sql index quote escapes =
     (if length sql \<le> index then ([], index)
      else if escapes \<and> char_at sql index = js [CHR 0x5C]
        then (let (m, stop) = quoted_end sql (index + 2) quote escapes
              in (spaces (min 2 (length sql - index)) @ m, stop))
      else if char_at sql index = quote
        then (if char_at sql (index + 1) = quote
              then (let (m, stop) = quoted_end sql (index + 2) quote escapes in (spaces 2 @ m, stop))
              else (spaces 1, index + 1))
      else (let (m, stop) = quoted_end sql (index + 1) quote escapes
            in ((if char_at sql index = [newline_unit] then [newline_unit] else [space_unit]) @ m, stop)))"
  by pat_completeness auto
termination by (relation "measure (\<lambda>(sql, index, quote, escapes). length sql - index)") auto

declare quoted_end.simps [simp del]

definition tag_start :: "code_unit \<Rightarrow> bool" where
  "tag_start c \<longleftrightarrow> cu CHR ''A'' \<le> c \<and> c \<le> cu CHR ''Z'' \<or> cu CHR ''a'' \<le> c \<and> c \<le> cu CHR ''z'' \<or> c = cu CHR ''_''"

definition tag_part :: "code_unit \<Rightarrow> bool" where
  "tag_part c \<longleftrightarrow> tag_start c \<or> is_digit c"

definition dollar :: code_unit where "dollar = cu CHR ''$''"

text \<open>\<open>/^\$[A-Za-z_][A-Za-z0-9_]*\$|^\$\$/\<close>, the matched text.\<close>

definition dollar_tag :: "jsstr \<Rightarrow> jsstr option" where
  "dollar_tag s =
     (case s of
        c # d # r \<Rightarrow>
          if c \<noteq> dollar then None
          else if tag_start d
            then (let name = takeWhile tag_part (d # r); after = dropWhile tag_part (d # r)
                  in if after \<noteq> [] \<and> hd after = dollar then Some (dollar # name @ [dollar]) else None)
          else if d = dollar then Some [dollar, dollar]
          else None
      | _ \<Rightarrow> None)"

text \<open>\<open>/[A-Za-z0-9_$]/u.test(c)\<close> for at most one unit.\<close>

definition identifier_unit :: "jsstr \<Rightarrow> bool" where
  "identifier_unit s \<longleftrightarrow> list_ex (\<lambda>c. tag_part c \<or> c = dollar) s"

definition backslash_escapes :: "jsstr \<Rightarrow> nat \<Rightarrow> bool" where
  "backslash_escapes sql index \<longleftrightarrow>
     char_at sql index = js [CHR 0x27] \<and>
     1 \<le> index \<and> char_at sql (index - 1) \<in> {js ''E'', js ''e''} \<and>
     \<not> (2 \<le> index \<and> identifier_unit (char_at sql (index - 2)))"

lemma index_of_bound: "index_of sql part start = Some i \<Longrightarrow> start \<le> i"
proof -
  assume "index_of sql part start = Some i"
  then have "i \<in> set [start..<length sql + 1]" unfolding index_of_def find_Some_iff by (metis nth_mem)
  then show "start \<le> i" by auto
qed

lemma comment_end_bound: "cursor \<le> fst (comment_end sql cursor depth)"
proof (induction sql cursor depth rule: comment_end.induct)
  case (1 sql cursor depth)
  then show ?case by (subst comment_end.simps) (auto intro: le_trans [rotated])
qed

lemma quoted_end_bound: "index \<le> snd (quoted_end sql index quote escapes)"
proof (induction sql index quote escapes rule: quoted_end.induct)
  case (1 sql index quote escapes)
  then show ?case by (subst quoted_end.simps) (auto split: prod.splits)
qed

text \<open>The blanked text of \<open>sql\<close> from \<open>index\<close> on.\<close>

function mask_from :: "jsstr \<Rightarrow> nat \<Rightarrow> jsstr" where
  "mask_from sql index =
     (if length sql \<le> index then []
      else
        let current = char_at sql index; after = char_at sql (index + 1)
        in if current = js ''-'' \<and> after = js ''-''
           then (case index_of sql [newline_unit] (index + 2) of
                   None \<Rightarrow> spaces (length sql - index)
                 | Some stop \<Rightarrow> spaces (stop - index) @ mask_from sql stop)
           else if current = js ''/'' \<and> after = js ''*''
           then (let (cursor, depth) = comment_end sql (index + 2) 1
                 in if 0 < depth then spaces (length sql - index)
                    else blank (take (cursor - index) (drop index sql)) @ mask_from sql cursor)
           else if current = js [CHR 0x27] \<or> current = js [CHR 0x22]
           then (let (m, stop) = quoted_end sql (index + 1) current (backslash_escapes sql index)
                 in spaces 1 @ m @ mask_from sql stop)
           else (case (if current = [dollar] then dollar_tag (drop index sql) else None) of
                   Some tag \<Rightarrow>
                     (case index_of sql tag (index + length tag) of
                        None \<Rightarrow> spaces (length sql - index)
                      | Some stop \<Rightarrow>
                          (let size = stop + length tag - index
                           in blank (take size (drop index sql)) @ mask_from sql (index + size)))
                 | None \<Rightarrow> current @ mask_from sql (index + 1)))"
  by pat_completeness auto
termination
proof (relation "measure (\<lambda>(sql, index). length sql - index)", goal_cases)
  case (2 sql index current after stop)
  then show ?case using index_of_bound [of sql "[newline_unit]" "index + 2" stop] by simp
next
  case (3 sql index current after x cursor depth)
  then show ?case using comment_end_bound [of "index + 2" sql 1] by (auto dest: sym)
next
  case (4 sql index current after x m stop)
  then show ?case using quoted_end_bound [of "index + 1" sql current "backslash_escapes sql index"] by (auto dest: sym)
next
  case 5
  then show ?case by simp
next
  case (6 sql index current after tag stop size)
  then have "0 < length tag" by (auto simp: dollar_tag_def Let_def split: list.splits if_splits)
  with 6 show ?case using index_of_bound [of sql tag "index + length tag" stop]
    by (simp del: length_greater_0_conv)
qed auto

declare mask_from.simps [simp del]

definition maskSqlStringsAndComments :: "jsstr \<Rightarrow> jsstr" where
  "maskSqlStringsAndComments sql = mask_from sql 0"

subsection \<open>Transaction control\<close>

text \<open>
  Regular expressions as data, matched with every possible rest. Words are compared as the flags
  \<open>i\<close> and \<open>u\<close> do: the two characters outside ASCII that fold to ASCII letters are U+017F and
  U+212A.
\<close>

datatype pattern = Word string | Spaces | Then pattern pattern | Or pattern pattern | Optional pattern

definition fold_case :: "code_unit \<Rightarrow> code_unit" where
  "fold_case c =
     (if cu CHR ''A'' \<le> c \<and> c \<le> cu CHR ''Z'' then c + 32
      else if c = 0x17F then cu CHR ''s'' else if c = 0x212A then cu CHR ''k'' else c)"

text \<open>\<open>\s\<close>, \<open>\w\<close> and the line terminators of \<open>^\<close> with the flag \<open>m\<close>.\<close>

definition space_class :: "code_unit \<Rightarrow> bool" where
  "space_class c \<longleftrightarrow>
     9 \<le> c \<and> c \<le> 13 \<or> c = 32 \<or> c = 0xA0 \<or> c = 0x1680 \<or> 0x2000 \<le> c \<and> c \<le> 0x200A \<or>
     c = 0x2028 \<or> c = 0x2029 \<or> c = 0x202F \<or> c = 0x205F \<or> c = 0x3000 \<or> c = 0xFEFF"

definition word_class :: "code_unit \<Rightarrow> bool" where
  "word_class c \<longleftrightarrow> tag_part c \<or> c = 0x17F \<or> c = 0x212A"

definition line_terminator :: "code_unit \<Rightarrow> bool" where
  "line_terminator c \<longleftrightarrow> c = 10 \<or> c = 13 \<or> c = 0x2028 \<or> c = 0x2029"

text \<open>\<open>\s*\<close>: every rest after some leading spaces.\<close>

fun after_spaces :: "jsstr \<Rightarrow> jsstr list" where
  "after_spaces [] = [[]]"
| "after_spaces (c # r) = (c # r) # (if space_class c then after_spaces r else [])"

fun rests :: "pattern \<Rightarrow> jsstr \<Rightarrow> jsstr list" where
  "rests (Word w) s =
     (if map fold_case (take (length w) s) = map fold_case (js w) then [drop (length w) s] else [])"
| "rests Spaces s = (case s of [] \<Rightarrow> [] | c # r \<Rightarrow> if space_class c then after_spaces r else [])"
| "rests (Then p q) s = concat (map (rests q) (rests p s))"
| "rests (Or p q) s = rests p s @ rests q s"
| "rests (Optional p) s = rests p s @ [s]"

definition spaced :: "string \<Rightarrow> string \<Rightarrow> pattern" where
  "spaced a b = Then (Word a) (Then Spaces (Word b))"

definition with_optional :: "string \<Rightarrow> string list \<Rightarrow> pattern" where
  "with_optional a ws =
     Then (Word a) (Optional (Then Spaces (foldr Or (map Word (tl ws)) (Word (hd ws)))))"

definition TRANSACTION_CONTROL_PATTERN :: pattern where
  "TRANSACTION_CONTROL_PATTERN =
     foldr Or
       [with_optional ''BEGIN'' [''WORK'', ''TRANSACTION''],
        spaced ''START'' ''TRANSACTION'',
        with_optional ''END'' [''WORK'', ''TRANSACTION''],
        with_optional ''ABORT'' [''WORK'', ''TRANSACTION''],
        spaced ''PREPARE'' ''TRANSACTION'',
        with_optional ''COMMIT'' [''WORK'', ''TRANSACTION'', ''PREPARED''],
        with_optional ''ROLLBACK'' [''WORK'', ''TRANSACTION'', ''PREPARED''],
        Word ''SAVEPOINT'',
        spaced ''RELEASE'' ''SAVEPOINT'']
       (Then (Word ''SET'') (Then (Optional (Then Spaces (Word ''LOCAL''))) (Then Spaces (Word ''TRANSACTION''))))"

text \<open>\<open>\s*(?:\<dots>)\b\<close> at the start of a text; what precedes the boundary is a letter.\<close>

definition control_here :: "jsstr \<Rightarrow> bool" where
  "control_here s \<longleftrightarrow>
     list_ex (\<lambda>r. list_ex (\<lambda>rest. rest = [] \<or> \<not> word_class (hd rest)) (rests TRANSACTION_CONTROL_PATTERN r))
       (after_spaces s)"

text \<open>The search, from a position that is at the start of a line or not.\<close>

fun has_control :: "bool \<Rightarrow> jsstr \<Rightarrow> bool" where
  "has_control line_start [] = False"
| "has_control line_start (c # r) =
     (line_start \<and> control_here (c # r) \<or> c = cu CHR '';'' \<and> control_here r \<or>
      has_control (line_terminator c) r)"

definition transaction_control_found :: "jsstr \<Rightarrow> bool" where
  "transaction_control_found sql = has_control True (maskSqlStringsAndComments sql)"

subsection \<open>The plan\<close>

definition migration_file :: "int \<Rightarrow> MigrationSource \<Rightarrow> throw + MigrationFile" where
  "migration_file version source =
     (case utf8_decode (source_bytes source) of
        None \<Rightarrow> Inl (MigrationError MigrationFileReadError)
      | Some sql \<Rightarrow>
          if transaction_control_found sql then Inl (MigrationError (InvalidMigrationContentsError version))
          else Inr \<lparr>mig_version = version, mig_filename = source_filename source,
                    mig_checksum = sha256_hex (source_bytes source), mig_sql = sql\<rparr>)"

fun collect_files :: "MigrationSource list \<Rightarrow> int list \<Rightarrow> throw + MigrationFile list" where
  "collect_files [] versions = Inr []"
| "collect_files (source # rest) versions =
     (case parseVersion (source_filename source) of
        Inl e \<Rightarrow> Inl e
      | Inr version \<Rightarrow>
          if version \<in> set versions then Inl (MigrationError (DuplicateMigrationVersionError version))
          else
            (case migration_file version source of
               Inl e \<Rightarrow> Inl e
             | Inr file \<Rightarrow>
                 (case collect_files rest (version # versions) of Inl e \<Rightarrow> Inl e | Inr files \<Rightarrow> Inr (file # files))))"

definition compare_versions :: "MigrationFile \<Rightarrow> MigrationFile \<Rightarrow> int" where
  "compare_versions = compare_key mig_version"

definition buildMigrationPlan :: "MigrationSource list \<Rightarrow> throw + MigrationFile list" where
  "buildMigrationPlan sources =
     (case collect_files sources [] of Inl e \<Rightarrow> Inl e | Inr files \<Rightarrow> Inr (sort_with compare_versions files))"

text \<open>
  All reads are started before any is waited for. A directory entry that is not a file fails at
  once, before any read can; otherwise the first failed read fails the whole.
\<close>

primrec read_entries :: "env \<Rightarrow> jsstr \<Rightarrow> (jsstr \<times> bool) list \<Rightarrow> (throw + MigrationSource) list io" where
  "read_entries E directory [] = ret []"
| "read_entries E directory (entry # rest) =
     seq (if snd entry
          then seq (attempt (read_file E (directory @ js ''/'' @ fst entry)))
                 (\<lambda>r. ret (case r of Inl e \<Rightarrow> Inl e
                     | Inr bytes \<Rightarrow> Inr \<lparr>source_filename = fst entry, source_bytes = bytes\<rparr>))
          else ret (Inl (MigrationError InvalidMigrationFilenameError))) (\<lambda>r.
     seq (read_entries E directory rest) (\<lambda>rs. ret (r # rs)))"

definition all_sources :: "(jsstr \<times> bool) list \<Rightarrow> (throw + MigrationSource) list \<Rightarrow> throw + MigrationSource list" where
  "all_sources entries results =
     (if list_ex (\<lambda>entry. \<not> snd entry) entries then Inl (MigrationError InvalidMigrationFilenameError)
      else traverse (\<lambda>r. r) results)"

definition loadMigrations :: "env \<Rightarrow> jsstr \<Rightarrow> MigrationFile list io" where
  "loadMigrations E directory =
     handle
       (seq (read_directory E directory) (\<lambda>entries.
        seq (read_entries E directory entries) (\<lambda>results.
        seq (lift_sum (all_sources entries results)) (\<lambda>sources.
          lift_sum (buildMigrationPlan sources)))))
       (\<lambda>e. if is_migration_error e then raise e else raise (MigrationError MigrationFileReadError))"

subsection \<open>The accepted sets of files\<close>

text \<open>What a file is on its own: its version, its text, and whether it may be in a plan.\<close>

definition source_version :: "MigrationSource \<Rightarrow> int" where
  "source_version source = int (read_dec (take 4 (source_filename source)))"

definition source_file :: "MigrationSource \<Rightarrow> MigrationFile" where
  "source_file source =
     \<lparr>mig_version = source_version source, mig_filename = source_filename source,
      mig_checksum = sha256_hex (source_bytes source),
      mig_sql = (case utf8_decode (source_bytes source) of Some sql \<Rightarrow> sql | None \<Rightarrow> [])\<rparr>"

definition acceptable_source :: "MigrationSource \<Rightarrow> bool" where
  "acceptable_source source \<longleftrightarrow>
     migration_filename_pattern (source_filename source) \<and> 1 \<le> source_version source \<and>
     (case utf8_decode (source_bytes source) of Some sql \<Rightarrow> \<not> transaction_control_found sql | None \<Rightarrow> False)"

lemma acceptable_iff:
  "acceptable_source source \<longleftrightarrow>
     (\<exists>version file. parseVersion (source_filename source) = Inr version \<and> migration_file version source = Inr file)"
  by (auto simp: acceptable_source_def parseVersion_def source_version_def migration_file_def Let_def
      split: option.splits)

lemma acceptable_file:
  "parseVersion (source_filename source) = Inr version \<Longrightarrow> migration_file version source = Inr file \<Longrightarrow>
     version = source_version source \<and> file = source_file source"
  by (auto simp: parseVersion_def source_version_def source_file_def migration_file_def Let_def
      split: option.splits if_splits)

lemma collect_files_Inr:
  "collect_files sources versions = Inr files \<longleftrightarrow>
     list_all acceptable_source sources \<and> distinct (map source_version sources) \<and>
     set (map source_version sources) \<inter> set versions = {} \<and> files = map source_file sources"
proof (induction sources arbitrary: versions files)
  case (Cons source rest)
  show ?case
  proof (cases "acceptable_source source")
    case True
    then obtain version f where v: "parseVersion (source_filename source) = Inr version"
      "migration_file version source = Inr f" by (auto simp: acceptable_iff)
    note eq = acceptable_file [OF v]
    show ?thesis
    proof (cases "collect_files rest (version # versions)")
      case (Inl e)
      then have "\<not> (list_all acceptable_source rest \<and> distinct (map source_version rest) \<and>
          set (map source_version rest) \<inter> set (version # versions) = {})"
        using Cons.IH [of "version # versions" "map source_file rest"] by auto
      with v eq Inl True show ?thesis by auto
    next
      case (Inr fs)
      with Cons.IH [of "version # versions" fs] v eq True show ?thesis by auto
    qed
  next
    case False
    have "collect_files (source # rest) versions \<noteq> Inr files"
    proof
      assume run: "collect_files (source # rest) versions = Inr files"
      then obtain version where v: "parseVersion (source_filename source) = Inr version"
        by (auto split: sum.splits)
      then obtain f where "migration_file version source = Inr f"
        using run by (auto split: sum.splits if_splits)
      with v False show False by (auto simp: acceptable_iff)
    qed
    with False show ?thesis by simp
  qed
qed auto

lemma migration_plan_iff:
  "buildMigrationPlan sources = Inr plan \<longleftrightarrow>
     list_all acceptable_source sources \<and> distinct (map source_version sources) \<and>
     mset plan = mset (map source_file sources) \<and> sorted_wrt (<) (map mig_version plan)"
proof -
  let ?files = "map source_file sources" and ?plan = "sort_with compare_versions (map source_file sources)"
  have keys: "map mig_version ?files = map source_version sources" by (simp add: source_file_def)
  have s: "set ?plan = set ?files" by (rule set_sort_with)
  have sorted: "sorted (map mig_version ?plan)"
    using by_key.sorted_sort_with [of mig_version ?files]
    unfolding compare_versions_def sorted_map by (simp add: compare_key_def)
  have dist: "distinct (map mig_version ?plan) \<longleftrightarrow> distinct (map source_version sources)"
    unfolding distinct_map_sort_with keys ..
  have found: "buildMigrationPlan sources = Inr plan \<longleftrightarrow>
      list_all acceptable_source sources \<and> distinct (map source_version sources) \<and> plan = ?plan"
  proof (cases "collect_files sources []")
    case (Inl e)
    then have "\<not> (list_all acceptable_source sources \<and> distinct (map source_version sources))"
      using collect_files_Inr [of sources "[]" "map source_file sources"] by simp
    with Inl show ?thesis unfolding buildMigrationPlan_def by auto
  next
    case (Inr fs)
    then have "list_all acceptable_source sources \<and> distinct (map source_version sources) \<and> fs = map source_file sources"
      using collect_files_Inr [of sources "[]" fs] by simp
    with Inr show ?thesis by (auto simp: buildMigrationPlan_def)
  qed
  show ?thesis
  proof (cases "distinct (map source_version sources)")
    case True
    have "plan = ?plan" if p: "mset plan = mset ?files" "sorted_wrt (<) (map mig_version plan)"
    proof (rule map_sorted_distinct_set_unique [where f = mig_version])
      have p': "set plan = set ?files" using p(1) by (rule mset_eq_setD)
      have "inj_on mig_version (set ?files)" using True keys by (metis distinct_map)
      then show "inj_on mig_version (set plan \<union> set ?plan)" unfolding p' s by simp
      show "set plan = set ?plan" unfolding p' s ..
      show "sorted (map mig_version plan)" "distinct (map mig_version plan)"
        using p(2) by (simp_all add: strict_sorted_iff)
      show "sorted (map mig_version ?plan)" by (rule sorted)
      show "distinct (map mig_version ?plan)" unfolding dist by (rule True)
    qed
    moreover have "sorted_wrt (<) (map mig_version ?plan)"
      unfolding strict_sorted_iff dist using sorted True by blast
    moreover have "mset ?plan = mset ?files" by (rule mset_sort_with)
    ultimately show ?thesis unfolding found by blast
  next
    case False
    then show ?thesis unfolding found by blast
  qed
qed

text \<open>
  C24. The migration plan: a set of files is accepted exactly when every name has the form
  \<open>NNNN_words.sql\<close> with a version of at least one, no version occurs twice, every file is UTF-8
  and none is found to control transactions; the plan then holds each file with its text and the
  SHA-256 of its bytes, in strictly ascending order of version.
\<close>

theorem migration_plan_correct:
  "buildMigrationPlan sources = Inr plan \<longleftrightarrow>
     list_all acceptable_source sources \<and> distinct (map source_version sources) \<and>
     mset plan = mset (map source_file sources) \<and> sorted_wrt (<) (map mig_version plan)"
  by (rule migration_plan_iff)

text \<open>
  The search for transaction control can be evaded: a dollar sign inside an identifier is
  taken for the start of a dollar-quoted text, so a \<open>COMMIT\<close> between two such identifiers is
  blanked out and the file is accepted, while the same file with plain identifiers is refused.
\<close>

definition evading_migration :: "string \<Rightarrow> jsstr" where
  "evading_migration table = js (''DROP TABLE '' @ table @ '';COMMIT;DROP TABLE '' @ table)"

lemmas mask_defs = maskSqlStringsAndComments_def mask_from.simps char_at_def js_def cu_def dollar_def dollar_tag_def
  tag_start_def tag_part_def is_digit_def starts_with_def newline_unit_def

lemmas control_defs = control_here_def TRANSACTION_CONTROL_PATTERN_def with_optional_def spaced_def
  fold_case_def space_class_def word_class_def tag_part_def tag_start_def is_digit_def line_terminator_def

lemma evading_masked: "maskSqlStringsAndComments (evading_migration ''ab'') = evading_migration ''ab''"
  by (simp add: evading_migration_def mask_defs)

lemma evading_dollar:
  "index_of (js ''DROP TABLE a$b$;COMMIT;DROP TABLE a$b$'') (js ''$b$'') 15 = Some 35"
  by (simp add: index_of_def mask_defs upt_rec)

lemma evading_masked_dollar:
  "maskSqlStringsAndComments (evading_migration ''a$b$'') = js ''DROP TABLE a                          ''"
  using evading_dollar [simplified eval_nat_numeral BitM.simps One_nat_def]
  by (simp add: evading_migration_def mask_defs is_high_surrogate_def space_unit_def Let_def)

lemma evading_search:
  "\<not> transaction_control_found (evading_migration ''a$b$'')" "transaction_control_found (evading_migration ''ab'')"
proof -
  have "control_here (js ''COMMIT;DROP TABLE ab'')" "\<not> control_here (js ''DROP TABLE a                          '')"
    by (simp_all add: control_defs js_def cu_def)
  then show "\<not> transaction_control_found (evading_migration ''a$b$'')" "transaction_control_found (evading_migration ''ab'')"
    unfolding transaction_control_found_def evading_masked evading_masked_dollar
    by (simp_all add: evading_migration_def js_def cu_def line_terminator_def)
qed

theorem transaction_control_evaded:
  "(\<exists>plan. buildMigrationPlan [\<lparr>source_filename = js ''0001_a.sql'', source_bytes = utf8_encode (evading_migration ''a$b$'')\<rparr>] = Inr plan \<and>
     map mig_sql plan = [evading_migration ''a$b$'']) \<and>
   buildMigrationPlan [\<lparr>source_filename = js ''0001_a.sql'', source_bytes = utf8_encode (evading_migration ''ab'')\<rparr>] =
     Inl (MigrationError (InvalidMigrationContentsError 1))"
proof -
  have v: "parseVersion (js ''0001_a.sql'') = Inr 1" by code_simp
  have d: "utf8_decode (utf8_encode (evading_migration t)) = Some (evading_migration t)" if "t \<in> {''a$b$'', ''ab''}" for t
    using that by (intro utf8_roundtrip_ascii) (auto simp: evading_migration_def is_ascii_def js_def unat_cu)
  show ?thesis
    by (simp add: buildMigrationPlan_def v migration_file_def d evading_search)
qed

end
