(* ===== verification/Retry.thy ===== *)
theory Retry
  imports Effects
begin

section \<open>Retry loops, locked sections and transactions\<close>

text \<open>
  What the start-up and maintenance code shares: reading a driver result, the loop that repeats an
  attempt until a deadline, the section that runs under an advisory lock, and the transaction.
  Every retry loop of the program is \<open>poll\<close> with its own attempt, sleep and timeout error; a loop
  gets a number of rounds and is \<open>Unfinished\<close> when they do not suffice. The lemmas give a number
  of rounds that always suffices when the clock moves on, and say which events can occur while the
  lock is held.
\<close>

subsection \<open>Driver results\<close>

definition reading_undefined :: throw where
  "reading_undefined = ErrorMessage (js ''Cannot read properties of undefined'')"

text \<open>\<open>result.rows\<close>, which the driver promises to be an array.\<close>

definition result_rows :: "jsval \<Rightarrow> throw + jsval list" where
  "result_rows result =
     (case get_prop result (js ''rows'') of JArr rows \<Rightarrow> Inr rows | _ \<Rightarrow> Inl reading_undefined)"

text \<open>An object with a boolean under a name.\<close>

definition boolean_property :: "jsval \<Rightarrow> jsstr \<Rightarrow> bool option" where
  "boolean_property v k =
     (if is_record v then (case get_prop v k of JBool b \<Rightarrow> Some b | _ \<Rightarrow> None) else None)"

text \<open>The boolean of the only row.\<close>

definition only_boolean :: "jsval list \<Rightarrow> jsstr \<Rightarrow> bool option" where
  "only_boolean rows k = (case rows of [row] \<Rightarrow> boolean_property row k | _ \<Rightarrow> None)"

subsection \<open>Running a step\<close>

lemma seq_now: "seq (now E) f tr = f (env_now E tr) (tr @ [EvNow (env_now E tr)])"
  by (simp add: seq_def now_def call_def Let_def)

lemma seq_Ret: "m tr = (Ret a, tr') \<Longrightarrow> seq m f tr = f a tr'"
  and seq_Exn: "m tr = (Exn e, tr') \<Longrightarrow> seq m f tr = (Exn e, tr')"
  and seq_Unfinished: "m tr = (Unfinished, tr') \<Longrightarrow> seq m f tr = (Unfinished, tr')"
  by (simp_all add: seq_def)

lemmas seq_runs = seq_Ret seq_Exn seq_Unfinished

lemma spec_run:
  assumes "spec m Q"
  obtains r new where "m tr = (r, tr @ new)" "Q tr r new"
  using assms by (metis prod.collapse spec_def)

lemma attempt_run:
  assumes "m tr = (r, tr')" "r \<noteq> Unfinished"
  shows "attempt m tr = (Ret (case r of Ret a \<Rightarrow> Inr a | Exn e \<Rightarrow> Inl e), tr')"
  using assms by (cases r) (simp_all add: attempt_def)

lemma run_raise: "raise e tr = (Exn e, tr)" and run_ret: "ret a tr = (Ret a, tr)"
  by (simp_all add: raise_def ret_def)

subsection \<open>Retry loops\<close>

text \<open>
  Each round reads the clock, makes an attempt with the time that is left, and after an attempt
  without a result reads the clock again and sleeps.
\<close>

primrec poll ::
    "env \<Rightarrow> int \<Rightarrow> int \<Rightarrow> throw \<Rightarrow> (int \<Rightarrow> unit io) \<Rightarrow> (int \<Rightarrow> 'a option io) \<Rightarrow> nat \<Rightarrow> 'a io" where
  "poll E deadline delay late nap try_once 0 = unfinished"
| "poll E deadline delay late nap try_once (Suc n) =
     seq (now E) (\<lambda>t.
       if deadline - t \<le> 0 then raise late
       else seq (try_once (deadline - t)) (\<lambda>r.
         case r of
           Some a \<Rightarrow> ret a
         | None \<Rightarrow> seq (now E) (\<lambda>t.
             if deadline - t \<le> 0 then raise late
             else seq (nap (min delay (deadline - t))) (\<lambda>_. poll E deadline delay late nap try_once n))))"

text \<open>A clock that never goes back, and that has moved on by its time when a sleep is over.\<close>

definition progressing :: "env \<Rightarrow> bool" where
  "progressing E \<longleftrightarrow>
     (\<forall>tr ev. env_now E tr \<le> env_now E (tr @ [ev])) \<and>
     (\<forall>tr ms. env_now E tr + ms \<le> env_now E (tr @ [EvSleep ms (Inr ())]))"

lemma progressing_append: "progressing E \<Longrightarrow> env_now E tr \<le> env_now E (tr @ new)"
proof (induction new rule: rev_induct)
  case (snoc ev new)
  then have "env_now E (tr @ new) \<le> env_now E ((tr @ new) @ [ev])" by (simp only: progressing_def)
  with snoc show ?case by simp
qed simp

text \<open>A sleep that sleeps, or ends the loop.\<close>

definition sleeps :: "(int \<Rightarrow> unit io) \<Rightarrow> bool" where
  "sleeps nap \<longleftrightarrow> (\<forall>ms. spec (nap ms) (\<lambda>tr r new.
     r \<noteq> Unfinished \<and> (\<forall>u. r = Ret u \<longrightarrow> new = [EvSleep ms (Inr ())])))"

lemma sleeps_sleep: "sleeps (sleep E)"
  unfolding sleeps_def
proof (intro allI specI)
  fix ms tr
  show "\<exists>new. snd (sleep E ms tr) = tr @ new \<and> fst (sleep E ms tr) \<noteq> Unfinished \<and>
      (\<forall>u. fst (sleep E ms tr) = Ret u \<longrightarrow> new = [EvSleep ms (Inr ())])"
    by (cases "env_sleep E tr ms") (simp_all add: sleep_def call_def)
qed

lemma sleeps_handle: "sleeps (\<lambda>ms. handle (sleep E ms) (\<lambda>e. raise e'))"
  unfolding sleeps_def
proof (intro allI specI)
  fix ms tr
  show "\<exists>new. snd (handle (sleep E ms) (\<lambda>e. raise e') tr) = tr @ new \<and>
      fst (handle (sleep E ms) (\<lambda>e. raise e') tr) \<noteq> Unfinished \<and>
      (\<forall>u. fst (handle (sleep E ms) (\<lambda>e. raise e') tr) = Ret u \<longrightarrow> new = [EvSleep ms (Inr ())])"
    by (cases "env_sleep E tr ms") (simp_all add: sleep_def call_def handle_def raise_def)
qed

text \<open>A computation that ends and emits only certain events.\<close>

definition tame :: "'a io \<Rightarrow> (event \<Rightarrow> bool) \<Rightarrow> bool" where
  "tame m P \<longleftrightarrow> spec m (\<lambda>tr r new. r \<noteq> Unfinished \<and> list_all P new)"

lemma tame_ret: "tame (ret a) P" and tame_raise: "tame (raise e) P" and tame_lift_sum: "tame (lift_sum r) P"
  by (auto simp: tame_def intro!: spec_ret spec_raise spec_lift_sum)

lemma tame_call: "(\<And>r. P (ev r)) \<Longrightarrow> (\<And>r. res r \<noteq> Unfinished) \<Longrightarrow> tame (call ev ask res) P"
  by (auto simp: tame_def intro: spec_call)

lemma tame_seq: "tame m P \<Longrightarrow> (\<And>a. tame (f a) P) \<Longrightarrow> tame (seq m f) P"
  unfolding tame_def by (rule spec_seq, assumption) (rule spec_weaken, assumption, auto)

lemma tame_handle: "tame m P \<Longrightarrow> (\<And>e. tame (h e) P) \<Longrightarrow> tame (handle m h) P"
  unfolding tame_def by (rule spec_handle, assumption) (rule spec_weaken, assumption, auto)

lemma tame_attempt: "tame m P \<Longrightarrow> tame (attempt m) P"
  unfolding tame_def by (erule spec_attempt) auto

lemma tame_for_each: "(\<And>x. x \<in> set xs \<Longrightarrow> tame (f x) P) \<Longrightarrow> tame (for_each f xs) P"
  by (induction xs) (auto intro!: tame_ret tame_seq)

lemma tame_query: "(\<And>r. P (EvQuery sql ps r)) \<Longrightarrow> tame (query E sql ps) P"
  unfolding query_def by (rule tame_call) (auto elim: sum_outcome.elims)

lemma tame_if: "(b \<Longrightarrow> tame m P) \<Longrightarrow> (\<not> b \<Longrightarrow> tame n P) \<Longrightarrow> tame (if b then m else n) P"
  by simp

lemma tame_option:
  "(v = None \<Longrightarrow> tame m P) \<Longrightarrow> (\<And>a. v = Some a \<Longrightarrow> tame (f a) P) \<Longrightarrow>
   tame (case v of None \<Rightarrow> m | Some a \<Rightarrow> f a) P"
  by (cases v) simp_all

lemmas tame_rules = tame_ret tame_raise tame_lift_sum tame_seq tame_handle tame_attempt tame_for_each tame_query
  tame_if tame_option

lemma tame_emits: "tame m P \<Longrightarrow> emits m P"
  unfolding tame_def emits_def by (erule spec_weaken) auto

lemma tame_weaken: "tame m P \<Longrightarrow> (\<And>e. P e \<Longrightarrow> Q e) \<Longrightarrow> tame m Q"
  unfolding tame_def by (erule spec_weaken) (auto simp: list_all_iff)

definition finishes :: "'a io \<Rightarrow> bool" where
  "finishes m \<longleftrightarrow> tame m (\<lambda>e. True)"

lemma tame_finishes: "tame m P \<Longrightarrow> finishes m"
  unfolding finishes_def by (erule tame_weaken) auto

text \<open>With a clock that moves on, a loop takes at most one round per millisecond left.\<close>

lemma poll_finishes:
  assumes clock: "progressing E" and nap: "sleeps nap" and attempts: "\<And>t. finishes (try_once t)" and delay: "1 \<le> delay"
  shows "nat (deadline - env_now E tr) < n \<Longrightarrow> fst (poll E deadline delay late nap try_once n tr) \<noteq> Unfinished"
proof (induction n arbitrary: tr)
  case (Suc n)
  let ?t = "env_now E tr" and ?tr = "tr @ [EvNow (env_now E tr)]"
  obtain r a where r: "try_once (deadline - ?t) ?tr = (r, ?tr @ a)" "r \<noteq> Unfinished"
    using attempts [of "deadline - ?t"] unfolding finishes_def tame_def by (rule spec_run) blast
  let ?t2 = "env_now E (?tr @ a)" and ?tr3 = "(?tr @ a) @ [EvNow (env_now E (?tr @ a))]"
  let ?ms = "min delay (deadline - ?t2)"
  consider (stops) "deadline - ?t \<le> 0 \<or> r \<noteq> Ret None \<or> deadline - ?t2 \<le> 0"
    | (again) "\<not> deadline - ?t \<le> 0" "r = Ret None" "\<not> deadline - ?t2 \<le> 0" by blast
  then show ?case
  proof cases
    case stops
    with r show ?thesis
      by (cases r) (auto simp: seq_now seq_runs run_ret run_raise split: option.splits)
  next
    case again
    then have run: "poll E deadline delay late nap try_once (Suc n) tr =
        seq (nap ?ms) (\<lambda>_. poll E deadline delay late nap try_once n) ?tr3"
      using r by (simp add: seq_now seq_Ret)
    obtain q s where q: "nap ?ms ?tr3 = (q, ?tr3 @ s)" "q \<noteq> Unfinished"
        and s: "\<forall>u. q = Ret u \<longrightarrow> s = [EvSleep ?ms (Inr ())]"
      using nap [unfolded sleeps_def, rule_format, of ?ms] by (rule spec_run) blast
    show ?thesis
    proof (cases q)
      case (Ret u)
      let ?tr4 = "?tr3 @ [EvSleep ?ms (Inr ())]"
      have "nap ?ms ?tr3 = (Ret u, ?tr4)" using q(1) s Ret by simp
      then have run4: "poll E deadline delay late nap try_once (Suc n) tr = poll E deadline delay late nap try_once n ?tr4"
        unfolding run by (rule seq_Ret)
      have "?t \<le> env_now E ?tr3"
        using progressing_append [OF clock, of tr "[EvNow (env_now E tr)] @ a @ [EvNow (env_now E (?tr @ a))]"] by simp
      moreover have "env_now E ?tr3 + ?ms \<le> env_now E ?tr4" using clock unfolding progressing_def by blast
      moreover have "1 \<le> ?ms" using delay again by simp
      ultimately have "nat (deadline - env_now E ?tr4) < n" using Suc.prems again by linarith
      from Suc.IH [OF this] show ?thesis unfolding run4 .
    next
      case (Exn e)
      with q have "seq (nap ?ms) (\<lambda>_. poll E deadline delay late nap try_once n) ?tr3 = (Exn e, ?tr3 @ s)"
        by (simp add: seq_Exn)
      then show ?thesis unfolding run by simp
    qed (use q(2) in simp)
  qed
qed simp

text \<open>
  What a loop emits: rounds without a result, then the successful one, if it returns. \<open>holds\<close>
  singles out the event that makes an attempt succeed.
\<close>

definition first_holds :: "(event \<Rightarrow> bool) \<Rightarrow> 'a outcome \<Rightarrow> trace \<Rightarrow> bool" where
  "first_holds holds r new \<longleftrightarrow>
     (case r of
        Ret a \<Rightarrow> (\<exists>pre ev. new = pre @ [ev] \<and> holds ev \<and> list_all (\<lambda>e. \<not> holds e) pre)
      | _ \<Rightarrow> list_all (\<lambda>e. \<not> holds e) new)"

lemma first_holds_append:
  assumes "list_all (\<lambda>e. \<not> holds e) pre" "first_holds holds r new"
  shows "first_holds holds r (pre @ new)"
proof (cases r)
  case (Ret a)
  with assms(2) obtain p ev where "new = p @ [ev]" "holds ev" "list_all (\<lambda>e. \<not> holds e) p"
    by (auto simp: first_holds_def)
  with assms(1) Ret show ?thesis by (auto simp: first_holds_def intro!: exI [of _ "pre @ p"])
qed (use assms in \<open>auto simp: first_holds_def\<close>)

lemma poll_first_holds:
  assumes plain: "\<And>t. \<not> holds (EvNow t)" "\<And>ms r. \<not> holds (EvSleep ms r)"
    and nap: "\<And>ms. emits (nap ms) (\<lambda>e. \<not> holds e)"
    and attempts: "\<And>t. spec (try_once t) (\<lambda>tr r new.
      if \<exists>a. r = Ret (Some a) then \<exists>ev. new = [ev] \<and> holds ev else list_all (\<lambda>e. \<not> holds e) new)"
  shows "\<exists>new. snd (poll E deadline delay late nap try_once n tr) = tr @ new \<and>
    first_holds holds (fst (poll E deadline delay late nap try_once n tr)) new"
proof (induction n arbitrary: tr)
  case 0
  then show ?case by (simp add: unfinished_def first_holds_def)
next
  case (Suc n)
  let ?t = "env_now E tr" and ?tr = "tr @ [EvNow (env_now E tr)]"
  obtain r a where r: "try_once (deadline - ?t) ?tr = (r, ?tr @ a)"
    and a: "if \<exists>x. r = Ret (Some x) then \<exists>ev. a = [ev] \<and> holds ev else list_all (\<lambda>e. \<not> holds e) a"
    using attempts [of "deadline - ?t"] by (rule spec_run)
  consider (late) "deadline - ?t \<le> 0" | (found) x where "\<not> deadline - ?t \<le> 0" "r = Ret (Some x)"
    | (again) "\<not> deadline - ?t \<le> 0" "r = Ret None" | (failed) "\<not> deadline - ?t \<le> 0" "\<forall>x. r \<noteq> Ret x"
    by (cases r) auto
  then show ?case
  proof cases
    case late
    then show ?thesis by (simp add: seq_now run_raise first_holds_def plain)
  next
    case found
    then obtain ev where "a = [ev]" "holds ev" using a by auto
    with found r plain show ?thesis
      by (auto simp: seq_now seq_Ret run_ret first_holds_def intro!: exI [of _ "[EvNow _]"])
  next
    case failed
    with r a plain show ?thesis by (cases r) (auto simp: seq_now seq_runs first_holds_def)
  next
    case again
    then have free: "list_all (\<lambda>e. \<not> holds e) a" using a by simp
    let ?t2 = "env_now E (?tr @ a)" and ?tr3 = "(?tr @ a) @ [EvNow (env_now E (?tr @ a))]"
    let ?nap = "nap (min delay (deadline - ?t2))"
    have run: "poll E deadline delay late nap try_once (Suc n) tr =
        (if deadline - ?t2 \<le> 0 then raise late
         else seq ?nap (\<lambda>_. poll E deadline delay late nap try_once n)) ?tr3"
      using again r by (simp add: seq_now seq_Ret)
    obtain q s where q: "?nap ?tr3 = (q, ?tr3 @ s)" and s: "list_all (\<lambda>e. \<not> holds e) s"
      using nap unfolding emits_def by (rule spec_run)
    define pre where "pre = EvNow ?t # a @ EvNow ?t2 # s"
    have pre: "list_all (\<lambda>e. \<not> holds e) pre" "?tr3 @ s = tr @ pre"
      using free s plain by (simp_all add: pre_def)
    show ?thesis
    proof (cases "deadline - ?t2 \<le> 0")
      case True
      then have "poll E deadline delay late nap try_once (Suc n) tr = (Exn late, ?tr3)"
        unfolding run by (simp add: run_raise)
      then show ?thesis using free plain by (simp add: first_holds_def del: poll.simps)
    next
      case False
      note run' = run [unfolded if_not_P [OF False]]
      note q' = q [unfolded pre(2)]
      show ?thesis
      proof (cases q)
        case (Ret u)
        obtain new where new: "snd (poll E deadline delay late nap try_once n (tr @ pre)) = (tr @ pre) @ new"
          "first_holds holds (fst (poll E deadline delay late nap try_once n (tr @ pre))) new"
          using Suc.IH by blast
        have "poll E deadline delay late nap try_once (Suc n) tr = poll E deadline delay late nap try_once n (tr @ pre)"
          unfolding run' using q' Ret by (rule_tac seq_Ret) simp
        with new first_holds_append [OF pre(1) new(2)] show ?thesis
          by (intro exI [of _ "pre @ new"]) (simp del: poll.simps)
      next
        case (Exn e)
        then have "poll E deadline delay late nap try_once (Suc n) tr = (Exn e, tr @ pre)"
          unfolding run' using q' by (rule_tac seq_Exn) simp
        with pre show ?thesis by (simp add: first_holds_def del: poll.simps)
      next
        case Unfinished
        then have "poll E deadline delay late nap try_once (Suc n) tr = (Unfinished, tr @ pre)"
          unfolding run' using q' by (rule_tac seq_Unfinished) simp
        with pre show ?thesis by (simp add: first_holds_def del: poll.simps)
      qed
    qed
  qed
qed

lemma emits_poll:
  assumes "\<And>t. emits (try_once t) P" "\<And>ms. emits (nap ms) P" "\<And>t. P (EvNow t)"
  shows "emits (poll E deadline delay late nap try_once n) P"
proof (induction n)
  case (Suc n)
  have "emits (now E) P" unfolding now_def by (rule emits_call) (rule assms(3))
  then show ?case
    using assms Suc by (auto intro!: emits_rules split: option.splits)
qed (simp add: emits_unfinished)

lemma spec_conj: "spec m P \<Longrightarrow> spec m Q \<Longrightarrow> spec m (\<lambda>tr r new. P tr r new \<and> Q tr r new)"
  unfolding spec_def by (metis same_append_eq)

text \<open>A stretch of the appended events.\<close>

definition inside :: "(trace \<Rightarrow> bool) \<Rightarrow> trace \<Rightarrow> bool" where
  "inside P new \<longleftrightarrow> (\<exists>pre mid post. new = pre @ mid @ post \<and> P mid)"

lemma inside_self: "P new \<Longrightarrow> inside P new"
  unfolding inside_def by (intro exI [of _ "[]"] exI [of _ new]) simp

lemma inside_append: "inside P new \<Longrightarrow> inside P (a @ new @ b)"
  unfolding inside_def by (metis append.assoc)

lemma inside_appends: "inside P new \<Longrightarrow> inside P (a @ new)" "inside P new \<Longrightarrow> inside P (new @ b)"
  "inside P new \<Longrightarrow> inside P (x # new)"
  using inside_append [of P new a "[]"] inside_append [of P new "[]" b] inside_append [of P new "[x]" "[]"] by simp_all

subsection \<open>Locked sections\<close>

text \<open>
  Acquire the lock, run the body, release the lock whatever the body did, and combine the two
  outcomes.
\<close>

definition locked_section ::
    "unit io \<Rightarrow> 'a io \<Rightarrow> unit io \<Rightarrow> (throw + 'a \<Rightarrow> throw + unit \<Rightarrow> throw + 'b) \<Rightarrow> 'b io" where
  "locked_section acquire body release_lock combine =
     seq acquire (\<lambda>_. seq (attempt body) (\<lambda>r. seq (attempt release_lock) (\<lambda>u. lift_sum (combine r u))))"

text \<open>Either the lock is never held, or it is acquired once and the last event frees it.\<close>

definition lock_safe :: "(event \<Rightarrow> bool) \<Rightarrow> (event \<Rightarrow> bool) \<Rightarrow> trace \<Rightarrow> bool" where
  "lock_safe holds frees new \<longleftrightarrow>
     list_all (\<lambda>e. \<not> holds e \<and> \<not> frees e) new \<or>
     (\<exists>pre a mid b. new = pre @ [a] @ mid @ [b] \<and> holds a \<and> frees b \<and>
        list_all (\<lambda>e. \<not> holds e \<and> \<not> frees e) (pre @ mid))"

locale lock_user =
  fixes holds frees :: "event \<Rightarrow> bool"
    and acquire :: "nat \<Rightarrow> unit io" and body :: "'a io" and release_lock :: "unit io"
  assumes acquires: "spec (acquire n) (\<lambda>tr r new. first_holds holds r new \<and> list_all (\<lambda>e. \<not> frees e) new)"
    and body_quiet: "tame body (\<lambda>e. \<not> holds e \<and> \<not> frees e)"
    and releases: "spec release_lock (\<lambda>tr r new. r \<noteq> Unfinished \<and> (\<exists>ev. new = [ev] \<and> frees ev \<and> \<not> holds ev))"
begin

lemma section_run:
  "\<exists>new. snd (locked_section (acquire n) body release_lock combine tr) = tr @ new \<and> lock_safe holds frees new \<and>
     (fst (acquire n tr) \<noteq> Unfinished \<longrightarrow> fst (locked_section (acquire n) body release_lock combine tr) \<noteq> Unfinished)"
proof -
  obtain r a where r: "acquire n tr = (r, tr @ a)" and a: "first_holds holds r a" "list_all (\<lambda>e. \<not> frees e) a"
    using acquires [of n] by (rule spec_run) blast
  show ?thesis
  proof (cases r)
    case (Ret u)
    obtain q b where q: "body (tr @ a) = (q, (tr @ a) @ b)" "q \<noteq> Unfinished"
      and b: "list_all (\<lambda>e. \<not> holds e \<and> \<not> frees e) b"
      using body_quiet unfolding tame_def by (rule spec_run) blast
    obtain s c where s: "release_lock ((tr @ a) @ b) = (s, ((tr @ a) @ b) @ c)" "s \<noteq> Unfinished"
      and c: "\<exists>ev. c = [ev] \<and> frees ev \<and> \<not> holds ev"
      using releases by (rule spec_run) blast
    obtain q' s' where "locked_section (acquire n) body release_lock combine tr =
        lift_sum (combine q' s') (((tr @ a) @ b) @ c)"
      using r Ret attempt_run [of body, OF q] attempt_run [of release_lock, OF s]
      by (simp add: locked_section_def seq_Ret)
    moreover have "lock_safe holds frees (a @ b @ c)"
    proof -
      obtain pre ev where pre: "a = pre @ [ev]" "holds ev" "list_all (\<lambda>e. \<not> holds e) pre"
        using a(1) Ret by (auto simp: first_holds_def)
      obtain ev' where ev': "c = [ev']" "frees ev'" using c by blast
      have "a @ b @ c = pre @ [ev] @ b @ [ev']" by (simp add: pre(1) ev'(1))
      moreover have "list_all (\<lambda>e. \<not> holds e \<and> \<not> frees e) (pre @ b)"
        using pre(1,3) a(2) b by (auto simp: list_all_iff)
      ultimately show ?thesis unfolding lock_safe_def using pre(2) ev'(2) by blast
    qed
    ultimately show ?thesis
      by (intro exI [of _ "a @ b @ c"]) (cases "combine q' s'"; simp add: lift_sum_def raise_def ret_def)
  next
    case (Exn e)
    with a r show ?thesis
      by (intro exI [of _ a])
        (auto simp: locked_section_def seq_Exn first_holds_def lock_safe_def list_all_iff)
  next
    case Unfinished
    with a r show ?thesis
      by (intro exI [of _ a])
        (auto simp: locked_section_def seq_Unfinished first_holds_def lock_safe_def list_all_iff)
  qed
qed

end

lemma section_done:
  assumes acquire: "emits acquire (\<lambda>e. True)" and body: "spec body (\<lambda>tr r new. \<forall>a. r = Ret a \<longrightarrow> D a new)"
    and release_lock: "emits release_lock (\<lambda>e. True)"
    and combine: "\<And>r u b. combine r u = Inr b \<Longrightarrow> \<exists>a. r = Inr a"
  shows "spec (locked_section acquire body release_lock combine) (\<lambda>tr r new.
    \<forall>b. r = Ret b \<longrightarrow> (\<exists>a u. combine (Inr a) u = Inr b \<and> inside (D a) new))"
proof (rule specI)
  fix tr
  let ?run = "locked_section acquire body release_lock combine tr"
  have "emits body (\<lambda>e. True)" unfolding emits_def using body by (rule spec_weaken) (simp add: list_all_iff)
  then have "emits (locked_section acquire body release_lock combine) (\<lambda>e. True)"
    unfolding locked_section_def using acquire release_lock
    by (intro emits_seq emits_attempt emits_lift_sum)
  then obtain new where new: "snd ?run = tr @ new"
    unfolding emits_def by (rule specE)
  have "\<exists>a u. combine (Inr a) u = Inr b \<and> inside (D a) new" if ret: "fst ?run = Ret b" for b
  proof -
    obtain q c where q: "acquire tr = (q, tr @ c)" using acquire unfolding emits_def by (rule spec_run)
    obtain u where u: "q = Ret u" using ret q by (cases q) (simp_all add: locked_section_def seq_runs)
    obtain r d where r: "body (tr @ c) = (r, (tr @ c) @ d)" and d: "\<forall>a. r = Ret a \<longrightarrow> D a d"
      using body by (rule spec_run)
    have nu: "r \<noteq> Unfinished"
      using ret q u r by (cases r) (simp_all add: locked_section_def seq_def attempt_def)
    let ?v = "case r of Ret a \<Rightarrow> Inr a | Exn e \<Rightarrow> Inl e"
    obtain s f where s: "release_lock ((tr @ c) @ d) = (s, ((tr @ c) @ d) @ f)"
      using release_lock unfolding emits_def by (rule spec_run)
    have ns: "s \<noteq> Unfinished"
      using ret q u nu attempt_run [of body, OF r nu] s
      by (cases s) (simp_all add: locked_section_def seq_Ret seq_def attempt_def)
    have run: "?run = lift_sum (combine ?v (case s of Ret a \<Rightarrow> Inr a | Exn e \<Rightarrow> Inl e)) (((tr @ c) @ d) @ f)"
      using q u attempt_run [of body, OF r nu] attempt_run [of release_lock, OF s ns]
      by (simp add: locked_section_def seq_Ret)
    then have "snd ?run = ((tr @ c) @ d) @ f"
      by (cases "combine ?v (case s of Ret a \<Rightarrow> Inr a | Exn e \<Rightarrow> Inl e)") (simp_all add: lift_sum_def raise_def ret_def)
    moreover have comb: "combine ?v (case s of Ret a \<Rightarrow> Inr a | Exn e \<Rightarrow> Inl e) = Inr b"
      using ret run
      by (cases "combine ?v (case s of Ret a \<Rightarrow> Inr a | Exn e \<Rightarrow> Inl e)") (simp_all add: lift_sum_def raise_def ret_def)
    then obtain a where a: "?v = Inr a" using combine by blast
    then have "D a d" using d nu by (cases r) auto
    then have "inside (D a) (c @ d @ f)" unfolding inside_def by blast
    moreover have "new = c @ d @ f" using new \<open>snd ?run = ((tr @ c) @ d) @ f\<close> by simp
    ultimately show ?thesis using comb [unfolded a] by blast
  qed
  with new show "\<exists>new. snd ?run = tr @ new \<and>
      (\<forall>b. fst ?run = Ret b \<longrightarrow> (\<exists>a u. combine (Inr a) u = Inr b \<and> inside (D a) new))" by blast
qed

subsection \<open>Transactions\<close>

definition BEGIN_SQL :: jsstr where "BEGIN_SQL = js ''BEGIN''"
definition COMMIT_SQL :: jsstr where "COMMIT_SQL = js ''COMMIT''"
definition ROLLBACK_SQL :: jsstr where "ROLLBACK_SQL = js ''ROLLBACK''"

text \<open>
  \<open>BEGIN\<close>, the statements, \<open>COMMIT\<close>; after any failure \<open>ROLLBACK\<close>, whose own failure is
  ignored, and the caller's error.
\<close>

definition in_transaction :: "env \<Rightarrow> unit io \<Rightarrow> throw \<Rightarrow> unit io" where
  "in_transaction E body e =
     handle (seq (query E BEGIN_SQL []) (\<lambda>_. seq body (\<lambda>_. seq (query E COMMIT_SQL []) (\<lambda>_. ret ()))))
       (\<lambda>_. seq (attempt (query E ROLLBACK_SQL [])) (\<lambda>_. raise e))"

fun is_query :: "jsstr \<Rightarrow> event \<Rightarrow> bool" where
  "is_query sql (EvQuery text ps r) = (text = sql)"
| "is_query sql _ = False"

fun answered :: "jsstr \<Rightarrow> event \<Rightarrow> bool" where
  "answered sql (EvQuery text ps r) = (text = sql \<and> (\<exists>v. r = Inr v))"
| "answered sql _ = False"

fun transaction_control :: "event \<Rightarrow> bool" where
  "transaction_control (EvQuery text ps r) = (text \<in> {BEGIN_SQL, COMMIT_SQL, ROLLBACK_SQL})"
| "transaction_control _ = False"

text \<open>Committed with the body's events in between, or rolled back without an answered commit.\<close>

definition committed :: "(trace \<Rightarrow> bool) \<Rightarrow> trace \<Rightarrow> bool" where
  "committed done new \<longleftrightarrow>
     (\<exists>b mid c. new = b # mid @ [c] \<and> answered BEGIN_SQL b \<and> answered COMMIT_SQL c \<and>
        list_all (\<lambda>ev. \<not> transaction_control ev) mid \<and> done mid)"

definition transaction_events :: "(trace \<Rightarrow> bool) \<Rightarrow> throw \<Rightarrow> unit outcome \<Rightarrow> trace \<Rightarrow> bool" where
  "transaction_events done e r new \<longleftrightarrow>
     (r = Ret () \<and> committed done new) \<or>
     (r = Exn e \<and> (\<exists>pre c. new = pre @ [c] \<and> is_query ROLLBACK_SQL c \<and> list_all (\<lambda>ev. \<not> answered COMMIT_SQL ev) pre))"

lemma tame_in_transaction:
  assumes "tame body P" "\<And>r. P (EvQuery BEGIN_SQL [] r)" "\<And>r. P (EvQuery COMMIT_SQL [] r)" "\<And>r. P (EvQuery ROLLBACK_SQL [] r)"
  shows "tame (in_transaction E body e) P"
  unfolding in_transaction_def using assms by (intro tame_rules)

lemma run_query: "query E sql ps tr = (sum_outcome (env_query E tr sql ps), tr @ [EvQuery sql ps (env_query E tr sql ps)])"
  by (simp add: query_def call_def Let_def)

lemma sql_distinct: "BEGIN_SQL \<noteq> COMMIT_SQL" "COMMIT_SQL \<noteq> BEGIN_SQL" "BEGIN_SQL \<noteq> ROLLBACK_SQL"
  "ROLLBACK_SQL \<noteq> BEGIN_SQL" "COMMIT_SQL \<noteq> ROLLBACK_SQL" "ROLLBACK_SQL \<noteq> COMMIT_SQL"
  by (simp_all add: BEGIN_SQL_def COMMIT_SQL_def ROLLBACK_SQL_def)

lemma not_answered: "list_all (\<lambda>ev. \<not> transaction_control ev) xs \<Longrightarrow> list_all (\<lambda>ev. \<not> answered COMMIT_SQL ev) xs"
proof -
  have "\<not> answered COMMIT_SQL ev" if "\<not> transaction_control ev" for ev
    using that by (cases ev) auto
  then show "list_all (\<lambda>ev. \<not> transaction_control ev) xs \<Longrightarrow> ?thesis" by (auto simp: list_all_iff)
qed

lemma transaction_spec:
  assumes quiet: "tame body (\<lambda>ev. \<not> transaction_control ev)"
    and work: "spec body (\<lambda>tr r new. r = Ret () \<longrightarrow> done new)"
  shows "spec (in_transaction E body e) (\<lambda>tr r new. transaction_events done e r new)"
proof (rule specI)
  fix tr
  let ?main = "seq (query E BEGIN_SQL []) (\<lambda>_. seq body (\<lambda>_. seq (query E COMMIT_SQL []) (\<lambda>_. ret ())))"
  have roll: "\<exists>new. snd (in_transaction E body e tr) = tr @ new \<and> transaction_events done e (fst (in_transaction E body e tr)) new"
    if main: "?main tr = (Exn x, tr @ pre)" and pre: "list_all (\<lambda>ev. \<not> answered COMMIT_SQL ev) pre" for x pre
  proof -
    let ?r = "env_query E (tr @ pre) ROLLBACK_SQL []"
    have "in_transaction E body e tr = seq (attempt (query E ROLLBACK_SQL [])) (\<lambda>_. raise e) (tr @ pre)"
      unfolding in_transaction_def handle_def main by simp
    also have "\<dots> = (Exn e, (tr @ pre) @ [EvQuery ROLLBACK_SQL [] ?r])"
      by (cases ?r) (simp_all add: seq_def attempt_def run_query raise_def)
    finally have "in_transaction E body e tr = (Exn e, (tr @ pre) @ [EvQuery ROLLBACK_SQL [] ?r])" .
    with pre show ?thesis
      by (intro exI [of _ "pre @ [EvQuery ROLLBACK_SQL [] ?r]"])
        (auto simp: transaction_events_def intro!: exI [of _ pre])
  qed
  let ?b = "env_query E tr BEGIN_SQL []"
  let ?tr = "tr @ [EvQuery BEGIN_SQL [] ?b]"
  show "\<exists>new. snd (in_transaction E body e tr) = tr @ new \<and> transaction_events done e (fst (in_transaction E body e tr)) new"
  proof (cases ?b)
    case (Inl x)
    then have "?main tr = (Exn x, tr @ [EvQuery BEGIN_SQL [] ?b])" by (simp add: seq_def run_query)
    then show ?thesis by (rule roll) (simp add: sql_distinct)
  next
    case b: (Inr x)
    obtain r mid where r: "body ?tr = (r, ?tr @ mid)" and mid: "r \<noteq> Unfinished"
        "list_all (\<lambda>ev. \<not> transaction_control ev) mid" "r = Ret () \<longrightarrow> done mid"
      using spec_conj [OF quiet [unfolded tame_def] work] by (rule spec_run) blast
    note na = not_answered [OF mid(2)]
    show ?thesis
    proof (cases r)
      case (Exn y)
      then have "?main tr = (Exn y, tr @ EvQuery BEGIN_SQL [] ?b # mid)" using b r by (simp add: seq_def run_query)
      then show ?thesis by (rule roll) (simp add: sql_distinct na)
    next
      case (Ret u)
      let ?c = "env_query E (?tr @ mid) COMMIT_SQL []"
      have main: "?main tr = (case ?c of Inl y \<Rightarrow> (Exn y, tr @ EvQuery BEGIN_SQL [] ?b # mid @ [EvQuery COMMIT_SQL [] ?c])
          | Inr y \<Rightarrow> (Ret (), tr @ EvQuery BEGIN_SQL [] ?b # mid @ [EvQuery COMMIT_SQL [] ?c]))"
        using b r Ret by (simp add: seq_def run_query ret_def split: sum.splits)
      show ?thesis
      proof (cases ?c)
        case (Inl y)
        with main have "?main tr = (Exn y, tr @ EvQuery BEGIN_SQL [] ?b # mid @ [EvQuery COMMIT_SQL [] ?c])" by simp
        then show ?thesis by (rule roll) (use Inl na in \<open>simp add: sql_distinct\<close>)
      next
        case (Inr y)
        with main have "in_transaction E body e tr =
            (Ret (), tr @ EvQuery BEGIN_SQL [] ?b # mid @ [EvQuery COMMIT_SQL [] ?c])"
          by (simp add: in_transaction_def handle_def)
        with Inr b mid(2,3) Ret show ?thesis
          by (intro exI [of _ "EvQuery BEGIN_SQL [] ?b # mid @ [EvQuery COMMIT_SQL [] ?c]"])
            (auto simp: transaction_events_def committed_def)
      qed
    qed (use mid r in simp)
  qed
qed

text \<open>What every item of a loop has done when the loop returns.\<close>

lemma spec_for_each:
  assumes "\<And>x. x \<in> set xs \<Longrightarrow> spec (f x) (\<lambda>tr r new. r = Ret () \<longrightarrow> P x new)"
  shows "spec (for_each f xs) (\<lambda>tr r new. r = Ret () \<longrightarrow> (\<forall>x\<in>set xs. inside (P x) new))"
  using assms
proof (induction xs)
  case Nil
  then show ?case by (auto intro: spec_ret)
next
  case (Cons x xs)
  have rest: "spec (for_each f xs) (\<lambda>tr r new. r = Ret () \<longrightarrow> (\<forall>x\<in>set xs. inside (P x) new))"
    using Cons by simp
  show ?case
    unfolding for_each.simps
    by (rule spec_seq, rule Cons.prems, simp, rule spec_weaken, rule rest)
      (auto intro: inside_self inside_appends)
qed

text \<open>An event that has happened when the computation returns.\<close>

definition ensures :: "'a io \<Rightarrow> (event \<Rightarrow> bool) \<Rightarrow> bool" where
  "ensures m Q \<longleftrightarrow> spec m (\<lambda>tr r new. (\<exists>a. r = Ret a) \<longrightarrow> list_ex Q new)"

lemma ensures_query: "ensures (query E sql ps) (answered sql)"
  unfolding ensures_def
proof (rule specI)
  fix tr
  show "\<exists>new. snd (query E sql ps tr) = tr @ new \<and> ((\<exists>a. fst (query E sql ps tr) = Ret a) \<longrightarrow> list_ex (answered sql) new)"
    by (cases "env_query E tr sql ps") (simp_all add: run_query)
qed

lemma ensures_query_parameters: "ensures (query E sql ps) (\<lambda>e. \<exists>v. e = EvQuery sql ps (Inr v))"
  unfolding ensures_def
proof (rule specI)
  fix tr
  show "\<exists>new. snd (query E sql ps tr) = tr @ new \<and>
      ((\<exists>a. fst (query E sql ps tr) = Ret a) \<longrightarrow> list_ex (\<lambda>e. \<exists>v. e = EvQuery sql ps (Inr v)) new)"
    by (cases "env_query E tr sql ps") (simp_all add: run_query)
qed

lemma ensures_raise: "ensures (raise e) Q"
  unfolding ensures_def by (auto intro: spec_raise)

lemma ensures_first: "ensures m Q \<Longrightarrow> (\<And>a. emits (f a) (\<lambda>e. True)) \<Longrightarrow> ensures (seq m f) Q"
  unfolding ensures_def emits_def
  by (rule spec_seq, assumption) (rule spec_weaken, assumption, auto)

lemma ensures_next: "emits m (\<lambda>e. True) \<Longrightarrow> (\<And>a. ensures (f a) Q) \<Longrightarrow> ensures (seq m f) Q"
  unfolding ensures_def emits_def
  by (rule spec_seq, assumption) (rule spec_weaken, assumption, auto)

lemma ensures_option:
  "(v = None \<Longrightarrow> ensures m Q) \<Longrightarrow> (\<And>a. v = Some a \<Longrightarrow> ensures (f a) Q) \<Longrightarrow>
   ensures (case v of None \<Rightarrow> m | Some a \<Rightarrow> f a) Q"
  by (cases v) simp_all

lemma emits_query: "(\<And>r. P (EvQuery sql ps r)) \<Longrightarrow> emits (query E sql ps) P"
  unfolding query_def by (rule emits_call)

lemma emits_option:
  "(v = None \<Longrightarrow> emits m P) \<Longrightarrow> (\<And>a. v = Some a \<Longrightarrow> emits (f a) P) \<Longrightarrow>
   emits (case v of None \<Rightarrow> m | Some a \<Rightarrow> f a) P"
  by (cases v) simp_all

lemma emits_if: "(b \<Longrightarrow> emits m P) \<Longrightarrow> (\<not> b \<Longrightarrow> emits n P) \<Longrightarrow> emits (if b then m else n) P"
  by simp

lemmas append_rules = emits_ret emits_raise emits_lift_sum emits_seq emits_handle emits_attempt emits_for_each
  emits_query emits_option emits_if

subsection \<open>Counting events\<close>

text \<open>
  \<open>weighs m w g\<close>: when \<open>m\<close> ends with outcome \<open>r\<close>, the weights of its events add up to \<open>g r\<close>. With
  weight 1 for opening and -1 for closing this says that what is opened is closed.
\<close>

definition weighs :: "'a io \<Rightarrow> (event \<Rightarrow> int) \<Rightarrow> ('a outcome \<Rightarrow> int) \<Rightarrow> bool" where
  "weighs m w g \<longleftrightarrow> spec m (\<lambda>tr r new. r \<noteq> Unfinished \<longrightarrow> sum_list (map w new) = g r)"

lemma weightless: "list_all (\<lambda>e. w e = 0) new \<Longrightarrow> sum_list (map w new) = (0 :: int)"
  by (induction new) auto

lemma weighs_emits: "emits m (\<lambda>e. w e = 0) \<Longrightarrow> (\<And>r. g r = 0) \<Longrightarrow> weighs m w g"
  unfolding weighs_def emits_def by (erule spec_weaken) (auto simp: weightless)

lemma weighs_ret: "k (Ret a) = 0 \<Longrightarrow> weighs (ret a) w k"
  and weighs_raise: "k (Exn e) = 0 \<Longrightarrow> weighs (raise e) w k"
  by (auto simp: weighs_def intro!: spec_ret spec_raise)

lemma weighs_lift_sum:
  "(\<And>a. x = Inr a \<Longrightarrow> k (Ret a) = 0) \<Longrightarrow> (\<And>e. x = Inl e \<Longrightarrow> k (Exn e) = 0) \<Longrightarrow> weighs (lift_sum x) w k"
  by (auto simp: weighs_def intro!: spec_lift_sum)

lemma weighs_call: "(\<And>r. w (ev r) = k (res r)) \<Longrightarrow> weighs (call ev ask res) w k"
  by (auto simp: weighs_def intro!: spec_call)

lemma weighs_seq:
  "weighs m w g \<Longrightarrow> (\<And>a. weighs (f a) w (\<lambda>r. k r - g (Ret a))) \<Longrightarrow> (\<And>e. g (Exn e) = k (Exn e)) \<Longrightarrow> weighs (seq m f) w k"
  unfolding weighs_def by (rule spec_seq, assumption) (rule spec_weaken, assumption, auto)

lemma weighs_handle:
  "weighs m w g \<Longrightarrow> (\<And>e. weighs (h e) w (\<lambda>r. k r - g (Exn e))) \<Longrightarrow> (\<And>a. g (Ret a) = k (Ret a)) \<Longrightarrow> weighs (handle m h) w k"
  unfolding weighs_def by (rule spec_handle, assumption) (rule spec_weaken, assumption, auto)

lemma weighs_attempt:
  "weighs m w g \<Longrightarrow> (\<And>a. g (Ret a) = k (Ret (Inr a))) \<Longrightarrow> (\<And>e. g (Exn e) = k (Ret (Inl e))) \<Longrightarrow> weighs (attempt m) w k"
  unfolding weighs_def by (erule spec_attempt) auto

lemma weighs_seq_attempt:
  assumes "weighs m w g" "\<And>x. weighs (f x) w (\<lambda>r. k r - (case x of Inl e \<Rightarrow> g (Exn e) | Inr a \<Rightarrow> g (Ret a)))"
  shows "weighs (seq (attempt m) f) w k"
proof (rule weighs_seq)
  show "weighs (attempt m) w (\<lambda>r. case r of Ret (Inl e) \<Rightarrow> g (Exn e) | Ret (Inr a) \<Rightarrow> g (Ret a) | Exn e \<Rightarrow> k (Exn e) | Unfinished \<Rightarrow> 0)"
    by (rule weighs_attempt [OF assms(1)]) simp_all
  show "weighs (f x) w (\<lambda>r. k r - (case Ret x of Ret (Inl e) \<Rightarrow> g (Exn e) | Ret (Inr a) \<Rightarrow> g (Ret a) | Exn e \<Rightarrow> k (Exn e) | Unfinished \<Rightarrow> 0))" for x
    using assms(2) [of x] by (cases x) simp_all
qed simp

text \<open>A loop whose failed attempts and naps weigh nothing.\<close>

lemma weighs_poll:
  assumes clock: "\<And>t. w (EvNow t) = 0" and nap: "\<And>ms. emits (nap ms) (\<lambda>e. w e = 0)"
    and attempts: "\<And>t. weighs (try_once t) w (\<lambda>r. case r of Ret (Some a) \<Rightarrow> k (Ret a) | _ \<Rightarrow> 0)"
    and fails: "\<And>e. k (Exn e) = 0"
  shows "weighs (poll E deadline delay late nap try_once n) w k"
proof (induction n)
  case 0
  then show ?case by (auto simp: weighs_def intro: spec_unfinished)
next
  case (Suc n)
  have now: "weighs (now E) w (\<lambda>r. 0)" unfolding now_def by (intro weighs_call) (rule clock)
  have naps: "weighs (nap ms) w (\<lambda>r. 0)" for ms by (rule weighs_emits [OF nap]) simp
  show ?case
    unfolding poll.simps
    by (rule weighs_seq [OF now])
      (auto simp: fails intro!: weighs_raise weighs_ret weighs_seq [OF attempts] weighs_seq [OF now]
        weighs_seq [OF naps] Suc.IH split: option.splits)
qed

subsection \<open>An environment for examples\<close>

text \<open>Every call succeeds, and the clock shows the time slept.\<close>

definition slept :: "trace \<Rightarrow> int" where
  "slept tr = sum_list (map (\<lambda>ev. case ev of EvSleep ms r \<Rightarrow> max 0 ms | _ \<Rightarrow> 0) tr)"

definition waiting_env :: "(jsstr \<Rightarrow> throw + jsval) \<Rightarrow> env" where
  "waiting_env answer = (quiet_env 0 answer)\<lparr>env_now := slept\<rparr>"

lemma progressing_waiting: "progressing (waiting_env answer)"
  by (auto simp: progressing_def waiting_env_def slept_def split: event.splits)

end
