(* ===== verification/AdvisoryLock.thy ===== *)
theory AdvisoryLock
  imports Retry
begin

section \<open>Advisory locks\<close>

text \<open>
  The migration runner and the partition preparer take and free a session lock of the database in
  the same way: a statement answered with a row of one boolean, repeated until it is true or the
  deadline has passed, and a statement that frees it. The statements, their parameters and the
  errors are arguments. The lemmas give what a \<open>lock_user\<close> asks of its lock.
\<close>

subsection \<open>Operations\<close>

text \<open>One attempt: the lock, or nothing when another session holds it.\<close>

definition try_lock :: "env \<Rightarrow> jsstr \<Rightarrow> jsval list \<Rightarrow> throw \<Rightarrow> unit option io" where
  "try_lock E sql params e =
     seq (handle (query E sql params) (\<lambda>_. raise e)) (\<lambda>result.
     seq (lift_sum (result_rows result)) (\<lambda>rows.
       case only_boolean rows (js ''acquired'') of
         None \<Rightarrow> raise e
       | Some acquired \<Rightarrow> ret (if acquired then Some () else None)))"

text \<open>Errors of the caller's own class pass; every other one becomes the caller's error.\<close>

definition free_lock :: "env \<Rightarrow> jsstr \<Rightarrow> jsval list \<Rightarrow> throw \<Rightarrow> (throw \<Rightarrow> bool) \<Rightarrow> unit io" where
  "free_lock E sql params e own =
     handle
       (seq (query E sql params) (\<lambda>result.
        seq (lift_sum (result_rows result)) (\<lambda>rows.
          if only_boolean rows (js ''released'') = Some True then ret () else raise e)))
       (\<lambda>x. if own x then raise x else raise e)"

subsection \<open>Events\<close>

fun lock_held :: "jsstr \<Rightarrow> jsval list \<Rightarrow> event \<Rightarrow> bool" where
  "lock_held sql params (EvQuery s ps (Inr result)) =
     (s = sql \<and> ps = params \<and>
      (\<exists>rows. result_rows result = Inr rows \<and> only_boolean rows (js ''acquired'') = Some True))"
| "lock_held sql params _ = False"

fun lock_freed :: "jsstr \<Rightarrow> jsval list \<Rightarrow> event \<Rightarrow> bool" where
  "lock_freed sql params (EvQuery s ps r) = (s = sql \<and> ps = params)"
| "lock_freed sql params _ = False"

lemma lock_held_statement: "lock_held sql params ev \<Longrightarrow> is_query sql ev"
  by (cases "(sql, params, ev)" rule: lock_held.cases) auto

lemma lock_freed_statement: "lock_freed sql params ev \<Longrightarrow> is_query sql ev"
  by (cases "(sql, params, ev)" rule: lock_freed.cases) auto

text \<open>Events of other statements leave the lock alone.\<close>

definition lock_untouched :: "jsstr \<Rightarrow> jsstr \<Rightarrow> event \<Rightarrow> bool" where
  "lock_untouched try_sql free_sql ev \<longleftrightarrow> \<not> is_query try_sql ev \<and> \<not> is_query free_sql ev"

lemma lock_untouched_quiet:
  "lock_untouched try_sql free_sql ev \<Longrightarrow> \<not> lock_held try_sql params ev \<and> \<not> lock_freed free_sql params ev"
  using lock_held_statement lock_freed_statement unfolding lock_untouched_def by blast

subsection \<open>What the operations do\<close>

lemma try_lock_spec:
  "spec (try_lock E sql params e) (\<lambda>tr r new.
     if \<exists>a. r = Ret (Some a) then \<exists>ev. new = [ev] \<and> lock_held sql params ev
     else list_all (\<lambda>e. \<not> lock_held sql params e) new)"
proof (rule specI)
  fix tr
  let ?r = "env_query E tr sql params"
  let ?run = "try_lock E sql params e tr" and ?ev = "EvQuery sql params ?r"
  have "snd ?run = tr @ [?ev] \<and> ((\<exists>a. fst ?run = Ret (Some a)) \<longleftrightarrow> lock_held sql params ?ev)"
  proof (cases ?r)
    case (Inl e)
    then show ?thesis by (simp add: try_lock_def seq_def handle_def run_query raise_def)
  next
    case (Inr result)
    then show ?thesis
      by (cases "result_rows result")
        (auto simp: try_lock_def seq_def handle_def run_query lift_sum_def raise_def ret_def
          split: option.splits)
  qed
  then show "\<exists>new. snd ?run = tr @ new \<and>
      (if \<exists>a. fst ?run = Ret (Some a) then \<exists>ev. new = [ev] \<and> lock_held sql params ev
       else list_all (\<lambda>e. \<not> lock_held sql params e) new)"
    by (intro exI [of _ "[?ev]"]) auto
qed

lemma tame_try_lock: "(\<And>r. P (EvQuery sql params r)) \<Longrightarrow> tame (try_lock E sql params e) P"
  unfolding try_lock_def by (intro tame_rules) auto

lemma emits_sleep: "(\<And>r. P (EvSleep ms r)) \<Longrightarrow> emits (sleep E ms) P"
  unfolding sleep_def by (rule emits_call)

lemma free_lock_spec:
  assumes "free_sql \<noteq> try_sql"
  shows "spec (free_lock E free_sql params e own) (\<lambda>tr r new. r \<noteq> Unfinished \<and>
    (\<exists>ev. new = [ev] \<and> lock_freed free_sql params ev \<and> \<not> lock_held try_sql params ev))"
proof (rule specI)
  fix tr
  let ?r = "env_query E tr free_sql params"
  let ?run = "free_lock E free_sql params e own tr" and ?ev = "EvQuery free_sql params ?r"
  have "snd ?run = tr @ [?ev] \<and> fst ?run \<noteq> Unfinished"
  proof (cases ?r)
    case (Inl e)
    then show ?thesis by (simp add: free_lock_def seq_def handle_def run_query raise_def)
  next
    case (Inr result)
    then show ?thesis
      by (cases "result_rows result")
        (auto simp: free_lock_def seq_def handle_def run_query lift_sum_def raise_def ret_def)
  qed
  moreover have "\<not> lock_held try_sql params ?ev"
    using assms by (cases ?r) auto
  ultimately show "\<exists>new. snd ?run = tr @ new \<and> fst ?run \<noteq> Unfinished \<and>
      (\<exists>ev. new = [ev] \<and> lock_freed free_sql params ev \<and> \<not> lock_held try_sql params ev)"
    by (intro exI [of _ "[?ev]"]) auto
qed

lemma emits_free_lock: "emits (free_lock E sql params e own) (\<lambda>e. True)"
  unfolding free_lock_def by (intro append_rules) simp_all

text \<open>The waiting loop, with any way to sleep.\<close>

lemma acquiring:
  assumes "try_sql \<noteq> free_sql" and nap: "\<And>ms P. (\<And>r. P (EvSleep ms r)) \<Longrightarrow> emits (nap ms) P"
  shows "spec (poll E deadline delay late nap (\<lambda>_. try_lock E try_sql params e) n) (\<lambda>tr r new.
    first_holds (lock_held try_sql params) r new \<and> list_all (\<lambda>ev. \<not> lock_freed free_sql params ev) new)"
proof -
  let ?run = "poll E deadline delay late nap (\<lambda>_. try_lock E try_sql params e) n"
  have "spec ?run (\<lambda>tr r new. first_holds (lock_held try_sql params) r new)"
    by (rule specI, rule poll_first_holds [OF _ _ nap try_lock_spec]) simp_all
  moreover have "emits ?run (\<lambda>ev. \<not> lock_freed free_sql params ev)"
    using assms by (intro emits_poll nap tame_emits [OF tame_try_lock]) auto
  ultimately show ?thesis unfolding emits_def by (rule spec_conj)
qed

lemma acquiring_finishes:
  "progressing E \<Longrightarrow> sleeps nap \<Longrightarrow> 1 \<le> delay \<Longrightarrow> nat (deadline - env_now E tr) < n \<Longrightarrow>
   fst (poll E deadline delay late nap (\<lambda>_. try_lock E sql params e) n tr) \<noteq> Unfinished"
  by (rule poll_finishes) (auto intro: tame_finishes [OF tame_try_lock [of "\<lambda>e. True"]])

lemma lock_safe_prefix:
  "list_all (\<lambda>e. \<not> holds e \<and> \<not> frees e) pre \<Longrightarrow> lock_safe holds frees new \<Longrightarrow> lock_safe holds frees (pre @ new)"
  unfolding lock_safe_def
proof (elim disjE exE conjE)
  fix p a mid b
  assume "list_all (\<lambda>e. \<not> holds e \<and> \<not> frees e) pre" "new = p @ [a] @ mid @ [b]" "holds a" "frees b"
    "list_all (\<lambda>e. \<not> holds e \<and> \<not> frees e) (p @ mid)"
  then show "list_all (\<lambda>e. \<not> holds e \<and> \<not> frees e) (pre @ new) \<or>
      (\<exists>p a mid b. pre @ new = p @ [a] @ mid @ [b] \<and> holds a \<and> frees b \<and>
         list_all (\<lambda>e. \<not> holds e \<and> \<not> frees e) (p @ mid))"
    by (intro disjI2 exI [of _ "pre @ p"] exI [of _ a] exI [of _ mid] exI [of _ b]) simp
qed simp

end
