(* ===== verification/MigrationRunner.thy ===== *)
theory MigrationRunner
  imports AdvisoryLock MigrationLoader
begin

section \<open>Running migrations (\<open>src/database/migrations/migration-runner.ts\<close>)\<close>

text \<open>
  Under an advisory lock the history of applied migrations is read and compared with the local
  files, and every pending one is applied in a transaction of its own together with its history
  row. The owner's connection is opened before, with retries until a deadline, and closed after.
  The lemmas show that the lock is freed on every path, that the waiting ends, and what a return
  means for the database.
\<close>

subsection \<open>Statements\<close>

definition ADVISORY_LOCK_NAMESPACE :: int where "ADVISORY_LOCK_NAMESPACE = 1815642963"
definition ADVISORY_LOCK_ID :: int where "ADVISORY_LOCK_ID = 1"
definition DEFAULT_LOCK_TIMEOUT_MS :: int where "DEFAULT_LOCK_TIMEOUT_MS = 30000"
definition DEFAULT_LOCK_RETRY_DELAY_MS :: int where "DEFAULT_LOCK_RETRY_DELAY_MS = 100"

definition TRY_ACQUIRE_LOCK_SQL :: jsstr where
  "TRY_ACQUIRE_LOCK_SQL = js ''SELECT pg_try_advisory_lock($1, $2) AS acquired''"

definition RELEASE_LOCK_SQL :: jsstr where
  "RELEASE_LOCK_SQL = js ''SELECT pg_advisory_unlock($1, $2) AS released''"

definition INITIALIZE_HISTORY_SQL :: jsstr where
  "INITIALIZE_HISTORY_SQL = sql_lines
    [js ''CREATE SCHEMA IF NOT EXISTS logstream_migrations AUTHORIZATION logstream_owner;'',
     js ''ALTER SCHEMA logstream_migrations OWNER TO logstream_owner;'',
     js ''REVOKE ALL ON SCHEMA logstream_migrations FROM PUBLIC;'',
     js ''REVOKE ALL ON SCHEMA logstream_migrations FROM logstream_runtime;'',
     [],
     js ''CREATE TABLE IF NOT EXISTS logstream_migrations.schema_migrations ('',
     js ''  version integer PRIMARY KEY CHECK (version > 0),'',
     js ''  filename text NOT NULL UNIQUE,'',
     js ''  checksum text NOT NULL CHECK (checksum ~ '' @ single_quoted ''^[0-9a-f]{64}$'' @ js ''),'',
     js ''  applied_at timestamp with time zone NOT NULL DEFAULT CURRENT_TIMESTAMP'',
     js '');'',
     [],
     js ''ALTER TABLE logstream_migrations.schema_migrations OWNER TO logstream_owner;'',
     js ''REVOKE ALL ON TABLE logstream_migrations.schema_migrations FROM PUBLIC;'',
     js ''REVOKE ALL ON TABLE logstream_migrations.schema_migrations FROM logstream_runtime;'',
     []]"

definition READ_HISTORY_SQL :: jsstr where
  "READ_HISTORY_SQL = sql_text
    [''SELECT version, filename, checksum'',
     ''FROM logstream_migrations.schema_migrations'',
     ''ORDER BY version'']"

definition INSERT_HISTORY_SQL :: jsstr where
  "INSERT_HISTORY_SQL = sql_text
    [''INSERT INTO logstream_migrations.schema_migrations (version, filename, checksum)'',
     ''VALUES ($1, $2, $3)'']"

subsection \<open>The lock\<close>

definition migration_lock_parameters :: "jsval list" where
  "migration_lock_parameters = [jint ADVISORY_LOCK_NAMESPACE, jint ADVISORY_LOCK_ID]"

definition lock_error :: throw where "lock_error = MigrationError MigrationLockError"

definition acquireLock :: "env \<Rightarrow> int \<Rightarrow> int \<Rightarrow> nat \<Rightarrow> unit io" where
  "acquireLock E deadline retryDelayMs n =
     poll E deadline retryDelayMs (MigrationError MigrationLockTimeoutError)
       (\<lambda>ms. handle (sleep E ms) (\<lambda>e. raise lock_error))
       (\<lambda>_. try_lock E TRY_ACQUIRE_LOCK_SQL migration_lock_parameters lock_error) n"

definition releaseLock :: "env \<Rightarrow> unit io" where
  "releaseLock E = free_lock E RELEASE_LOCK_SQL migration_lock_parameters lock_error (\<lambda>e. e = lock_error)"

subsection \<open>The history\<close>

record AppliedMigration =
  applied_version :: int
  applied_filename :: jsstr
  applied_checksum :: jsstr

text \<open>A row of the history, when it has the three properties with their types.\<close>

definition isAppliedMigration :: "jsval \<Rightarrow> AppliedMigration option" where
  "isAppliedMigration v =
     (if \<not> is_record v then None
      else case (safe_integer_value (get_prop v (js ''version'')), get_prop v (js ''filename''), get_prop v (js ''checksum'')) of
          (Some version, JStr filename, JStr checksum) \<Rightarrow>
            Some \<lparr>applied_version = version, applied_filename = filename, applied_checksum = checksum\<rparr>
        | _ \<Rightarrow> None)"

definition initializeHistory :: "env \<Rightarrow> unit io" where
  "initializeHistory E =
     in_transaction E (seq (query E INITIALIZE_HISTORY_SQL []) (\<lambda>_. ret ())) (MigrationError MigrationInfrastructureError)"

definition history_rows :: "jsval list \<Rightarrow> throw + AppliedMigration list" where
  "history_rows rows =
     traverse (\<lambda>row. case isAppliedMigration row of None \<Rightarrow> Inl (MigrationError MigrationHistoryReadError)
        | Some applied \<Rightarrow> Inr applied) rows"

text \<open>Whatever fails, the error is the same.\<close>

definition readHistory :: "env \<Rightarrow> AppliedMigration list io" where
  "readHistory E =
     handle
       (seq (query E READ_HISTORY_SQL []) (\<lambda>result.
        seq (lift_sum (result_rows result)) (\<lambda>rows. lift_sum (history_rows rows))))
       (\<lambda>e. raise (MigrationError MigrationHistoryReadError))"

text \<open>\<open>new Map(migrations.map(\<dots>)).get(version)\<close>: the last migration with the version.\<close>

definition local_by_version :: "MigrationFile list \<Rightarrow> int \<Rightarrow> MigrationFile option" where
  "local_by_version migrations = map_of (rev (map (\<lambda>m. (mig_version m, m)) migrations))"

primrec check_history :: "MigrationFile list \<Rightarrow> AppliedMigration list \<Rightarrow> throw + unit" where
  "check_history migrations [] = Inr ()"
| "check_history migrations (applied # rest) =
     (case local_by_version migrations (applied_version applied) of
        None \<Rightarrow> Inl (MigrationError (MissingLocalMigrationError (applied_version applied)))
      | Some m \<Rightarrow>
          if mig_filename m \<noteq> applied_filename applied
          then Inl (MigrationError (MigrationFilenameMismatchError (applied_version applied)))
          else if mig_checksum m \<noteq> applied_checksum applied
          then Inl (MigrationError (MigrationChecksumMismatchError (applied_version applied)))
          else check_history migrations rest)"

definition findPendingMigrations :: "MigrationFile list \<Rightarrow> AppliedMigration list \<Rightarrow> throw + MigrationFile list" where
  "findPendingMigrations migrations appliedMigrations =
     (case check_history migrations appliedMigrations of
        Inl e \<Rightarrow> Inl e
      | Inr u \<Rightarrow> Inr (filter (\<lambda>m. mig_version m \<notin> set (map applied_version appliedMigrations)) migrations))"

subsection \<open>Applying\<close>

definition history_parameters :: "MigrationFile \<Rightarrow> jsval list" where
  "history_parameters m = [jint (mig_version m), JStr (mig_filename m), JStr (mig_checksum m)]"

definition migration_statements :: "env \<Rightarrow> MigrationFile \<Rightarrow> unit io" where
  "migration_statements E m =
     seq (query E (mig_sql m) []) (\<lambda>_. seq (query E INSERT_HISTORY_SQL (history_parameters m)) (\<lambda>_. ret ()))"

definition applyMigration :: "env \<Rightarrow> MigrationFile \<Rightarrow> unit io" where
  "applyMigration E m = in_transaction E (migration_statements E m) (MigrationError (MigrationExecutionError (mig_version m)))"

text \<open>What runs under the lock; the result lists the versions it applied.\<close>

definition migrate_locked :: "env \<Rightarrow> MigrationFile list io \<Rightarrow> int list io" where
  "migrate_locked E load =
     seq load (\<lambda>migrations.
     seq (initializeHistory E) (\<lambda>_.
     seq (readHistory E) (\<lambda>appliedMigrations.
     seq (lift_sum (findPendingMigrations migrations appliedMigrations)) (\<lambda>pending.
     seq (for_each (applyMigration E) pending) (\<lambda>_. ret (map mig_version pending))))))"

text \<open>The body's error comes first; \<open>??=\<close> lets a thrown \<open>undefined\<close> or \<open>null\<close> be replaced.\<close>

definition nullish :: "throw \<Rightarrow> bool" where
  "nullish e \<longleftrightarrow> e = Foreign JUndef \<or> e = Foreign JNull"

definition migration_outcome :: "throw + int list \<Rightarrow> throw + unit \<Rightarrow> throw + int list" where
  "migration_outcome body released =
     (let safe = (\<lambda>e. if is_migration_error e then e else MigrationError MigrationHistoryReadError)
      in case (body, released) of
          (Inl e, Inr u) \<Rightarrow> Inl (safe e)
        | (Inl e, Inl x) \<Rightarrow> Inl (safe (if nullish e then x else e))
        | (Inr versions, Inl x) \<Rightarrow> Inl (safe x)
        | (Inr versions, Inr u) \<Rightarrow> Inr versions)"

text \<open>\<open>lock\<close> is the deadline and the delay between attempts, when the caller gives them.\<close>

definition runMigrations :: "env \<Rightarrow> MigrationFile list io \<Rightarrow> (int \<times> int) option \<Rightarrow> nat \<Rightarrow> int list io" where
  "runMigrations E load lock n =
     seq (case lock of Some l \<Rightarrow> ret l
          | None \<Rightarrow> seq (now E) (\<lambda>t. ret (t + DEFAULT_LOCK_TIMEOUT_MS, DEFAULT_LOCK_RETRY_DELAY_MS))) (\<lambda>l.
       locked_section (acquireLock E (fst l) (snd l) n) (migrate_locked E load) (releaseLock E) migration_outcome)"

subsection \<open>The owner's connection\<close>

definition connection_error :: throw where "connection_error = MigrationError MigrationConnectionError"

definition owner_outcome :: "throw + int list \<Rightarrow> throw + unit \<Rightarrow> throw + int list" where
  "owner_outcome res ended =
     (case res of
        Inl e \<Rightarrow> Inl (if is_migration_error e then e else connection_error)
      | Inr versions \<Rightarrow> (case ended of Inl x \<Rightarrow> Inl connection_error | Inr u \<Rightarrow> Inr versions))"

definition runMigrationsWithOwner :: "env \<Rightarrow> MigrationFile list io \<Rightarrow> (int \<times> int) option \<Rightarrow> nat \<Rightarrow> int list io" where
  "runMigrationsWithOwner E load lock n =
     seq (attempt (seq (connect E) (\<lambda>_. runMigrations E load lock n))) (\<lambda>res.
     seq (attempt (end_connection E)) (\<lambda>ended. lift_sum (owner_outcome res ended)))"

definition RETRYABLE_CONNECTION_CODES :: "jsstr list" where
  "RETRYABLE_CONNECTION_CODES =
     map js [''EAI_AGAIN'', ''ECONNREFUSED'', ''ECONNRESET'', ''EHOSTUNREACH'', ''ENETUNREACH'', ''ENOTFOUND'',
       ''ETIMEDOUT'', ''53300'', ''57P03'']"

text \<open>
  An aggregate is as retryable as any of its errors, which the language keeps in an array. The
  depth bounds the nesting of aggregates; a value is nested less deeply than its size.
\<close>

primrec retryable_value :: "nat \<Rightarrow> jsval \<Rightarrow> bool" where
  "retryable_value 0 v = False"
| "retryable_value (Suc d) v =
     (case v of
        JObj AggregateErrorObject ps \<Rightarrow>
          (case get_prop v (js ''errors'') of JArr errors \<Rightarrow> list_ex (retryable_value d) errors | _ \<Rightarrow> False)
      | JObj c ps \<Rightarrow>
          (case get_prop v (js ''code'') of JStr code \<Rightarrow> code \<in> set RETRYABLE_CONNECTION_CODES | _ \<Rightarrow> False)
      | _ \<Rightarrow> False)"

lemma map_of_size: "map_of ps k = Some p \<Longrightarrow> size (prop_read p) < size (JObj c ps)"
proof (induction ps)
  case (Cons q ps)
  then show ?case by (cases q; cases p) (auto split: if_splits)
qed simp

lemma element_size: "x \<in> set vs \<Longrightarrow> size x < size (JArr vs)"
  by (induction vs) auto

lemma retryable_value_enough:
  "size v < d \<Longrightarrow> size v < d' \<Longrightarrow> retryable_value d v = retryable_value d' v"
proof (induction d arbitrary: v d')
  case (Suc d)
  then obtain k where d': "d' = Suc k" by (cases d') auto
  have "retryable_value d e = retryable_value k e"
    if "v = JObj AggregateErrorObject ps" "get_prop v (js ''errors'') = JArr errors" "e \<in> set errors" for ps errors e
  proof -
    have "size (JArr errors) < size v"
      using that(1,2) map_of_size [of ps "js ''errors''"] by (auto simp: get_prop_def own_descriptor_def split: option.splits)
    then have "size e < size v" using element_size [OF that(3)] by simp
    with Suc d' show ?thesis by (intro Suc.IH) auto
  qed
  then show ?case unfolding d' by (auto simp: list_ex_iff split: jsval.splits objclass.splits)
qed simp

definition isRetryableConnectionError :: "throw \<Rightarrow> bool" where
  "isRetryableConnectionError e = (case e of Foreign v \<Rightarrow> retryable_value (Suc (size v)) v | _ \<Rightarrow> False)"

definition closeAbandonedConnection :: "env \<Rightarrow> unit io" where
  "closeAbandonedConnection E = seq (attempt (end_connection E)) (\<lambda>_. ret ())"

text \<open>One attempt to open a connection with the time that is left.\<close>

definition open_connection :: "env \<Rightarrow> int \<Rightarrow> unit option io" where
  "open_connection E remaining =
     seq (handle (create_connection E) (\<lambda>e. raise connection_error)) (\<lambda>_.
     seq (attempt (timed E remaining)) (\<lambda>r.
       case r of
         Inr u \<Rightarrow> ret (Some ())
       | Inl e \<Rightarrow>
           seq (closeAbandonedConnection E) (\<lambda>_.
             if e = MigrationError MigrationOwnerStartupTimeoutError then raise e
             else if \<not> isRetryableConnectionError e then raise connection_error
             else ret None)))"

text \<open>\<open>after\<close> is \<open>afterMigrations\<close>, given the deadline and the delay.\<close>

definition run_connected ::
    "env \<Rightarrow> MigrationFile list io \<Rightarrow> (int \<Rightarrow> int \<Rightarrow> unit io) \<Rightarrow> int \<Rightarrow> int \<Rightarrow> nat \<Rightarrow> int list io" where
  "run_connected E load after deadline retryDelayMs n =
     seq (attempt (seq (runMigrations E load (Some (deadline, retryDelayMs)) n) (\<lambda>versions.
       seq (after deadline retryDelayMs) (\<lambda>_. ret versions)))) (\<lambda>res.
     seq (attempt (end_connection E)) (\<lambda>ended. lift_sum (owner_outcome res ended)))"

definition runMigrationsWithOwnerRetry ::
    "env \<Rightarrow> MigrationFile list io \<Rightarrow> (int \<Rightarrow> int \<Rightarrow> unit io) \<Rightarrow> int \<Rightarrow> int \<Rightarrow> nat \<Rightarrow> int list io" where
  "runMigrationsWithOwnerRetry E load after timeoutMs retryDelayMs n =
     seq (now E) (\<lambda>t.
       let deadline = t + timeoutMs
       in seq (poll E deadline retryDelayMs (MigrationError MigrationOwnerStartupTimeoutError)
            (\<lambda>ms. handle (sleep E ms) (\<lambda>e. raise connection_error)) (open_connection E) n) (\<lambda>_.
          run_connected E load after deadline retryDelayMs n))"

definition migrateBeforeRuntime :: "'a io \<Rightarrow> 'b io \<Rightarrow> 'b io" where
  "migrateBeforeRuntime migrate startRuntime = seq migrate (\<lambda>_. startRuntime)"

subsection \<open>The lock is freed\<close>

abbreviation migration_lock_held :: "event \<Rightarrow> bool" where
  "migration_lock_held \<equiv> lock_held TRY_ACQUIRE_LOCK_SQL migration_lock_parameters"

abbreviation migration_lock_freed :: "event \<Rightarrow> bool" where
  "migration_lock_freed \<equiv> lock_freed RELEASE_LOCK_SQL migration_lock_parameters"

text \<open>Only the lock's statements have the lock's parameters, whatever a migration's text is.\<close>

fun other_parameters :: "event \<Rightarrow> bool" where
  "other_parameters (EvQuery sql ps r) = (ps \<noteq> migration_lock_parameters)"
| "other_parameters _ = True"

lemma other_parameters_quiet: "other_parameters ev \<Longrightarrow> \<not> migration_lock_held ev \<and> \<not> migration_lock_freed ev"
  by (cases ev) (auto elim: lock_held.elims)

lemma parameters_differ: "[] \<noteq> migration_lock_parameters" "history_parameters m \<noteq> migration_lock_parameters"
  by (simp_all add: migration_lock_parameters_def history_parameters_def)

lemma tame_read_directory: "(\<And>r. P (EvReaddir d r)) \<Longrightarrow> tame (read_directory E d) P"
  and tame_read_file: "(\<And>r. P (EvReadFile f r)) \<Longrightarrow> tame (read_file E f) P"
  unfolding read_directory_def read_file_def by (rule tame_call; auto elim: sum_outcome.elims)+

lemma tame_read_entries:
  "(\<And>f r. P (EvReadFile f r)) \<Longrightarrow> tame (read_entries E directory entries) P"
  by (induction entries) (auto intro!: tame_rules tame_read_file)

lemma tame_load:
  "(\<And>d r. P (EvReaddir d r)) \<Longrightarrow> (\<And>f r. P (EvReadFile f r)) \<Longrightarrow> tame (loadMigrations E directory) P"
  unfolding loadMigrations_def by (intro tame_rules tame_read_directory tame_read_entries)

lemma tame_apply: "tame (applyMigration E m) other_parameters"
  unfolding applyMigration_def migration_statements_def
  using parameters_differ by (intro tame_in_transaction tame_rules) auto

lemma tame_locked: "tame (migrate_locked E (loadMigrations E directory)) other_parameters"
  unfolding migrate_locked_def initializeHistory_def readHistory_def
  using parameters_differ tame_apply by (intro tame_rules tame_in_transaction tame_load) auto

lemma migration_lock_statements: "TRY_ACQUIRE_LOCK_SQL \<noteq> RELEASE_LOCK_SQL" "RELEASE_LOCK_SQL \<noteq> TRY_ACQUIRE_LOCK_SQL"
  by (simp_all add: TRY_ACQUIRE_LOCK_SQL_def RELEASE_LOCK_SQL_def)

lemma emits_nap: "(\<And>r. P (EvSleep ms r)) \<Longrightarrow> emits (handle (sleep E ms) (\<lambda>e. raise e')) P"
  by (intro emits_handle emits_sleep emits_raise)

interpretation migrations: lock_user migration_lock_held migration_lock_freed
  "acquireLock E deadline delay" "migrate_locked E (loadMigrations E directory)" "releaseLock E"
  for E deadline delay directory
  unfolding acquireLock_def releaseLock_def
  by unfold_locales
    (rule acquiring [OF migration_lock_statements(1) emits_nap], assumption,
      rule tame_weaken [OF tame_locked other_parameters_quiet], assumption,
      rule free_lock_spec [OF migration_lock_statements(2)])

lemma acquireLock_finishes:
  "progressing E \<Longrightarrow> 1 \<le> delay \<Longrightarrow> nat (deadline - env_now E tr) < n \<Longrightarrow>
   fst (acquireLock E deadline delay n tr) \<noteq> Unfinished"
  unfolding acquireLock_def by (rule acquiring_finishes [OF _ sleeps_handle])

lemma runMigrations_run:
  "\<exists>clock deadline delay. list_all (\<lambda>e. \<exists>t. e = EvNow t) clock \<and>
     (case lock of Some l \<Rightarrow> (deadline, delay) = l
      | None \<Rightarrow> deadline = env_now E tr + DEFAULT_LOCK_TIMEOUT_MS \<and> delay = DEFAULT_LOCK_RETRY_DELAY_MS) \<and>
     runMigrations E load lock n tr =
       locked_section (acquireLock E deadline delay n) (migrate_locked E load) (releaseLock E) migration_outcome (tr @ clock)"
proof (cases lock)
  case None
  show ?thesis
    by (rule exI [of _ "[EvNow (env_now E tr)]"], rule exI [of _ "env_now E tr + DEFAULT_LOCK_TIMEOUT_MS"],
        rule exI [of _ DEFAULT_LOCK_RETRY_DELAY_MS])
      (simp add: None runMigrations_def seq_def now_def call_def ret_def Let_def)
next
  case (Some l)
  show ?thesis
    by (rule exI [of _ "[]"], rule exI [of _ "fst l"], rule exI [of _ "snd l"])
      (simp add: Some runMigrations_def seq_def ret_def)
qed

text \<open>
  C13. Running the migrations of a directory never leaves the advisory lock behind, whatever the
  database and the file system answer: either the lock was never held, or it was acquired once
  and the last thing done is to free it.
\<close>

theorem migrations_lock_safe:
  "\<exists>new. snd (runMigrations E (loadMigrations E directory) lock n tr) = tr @ new \<and>
     lock_safe migration_lock_held migration_lock_freed new"
proof -
  obtain clock deadline delay where clock: "list_all (\<lambda>e. \<exists>t. e = EvNow t) clock"
    and run: "runMigrations E (loadMigrations E directory) lock n tr =
       locked_section (acquireLock E deadline delay n) (migrate_locked E (loadMigrations E directory))
         (releaseLock E) migration_outcome (tr @ clock)"
    using runMigrations_run by blast
  obtain new where "snd (runMigrations E (loadMigrations E directory) lock n tr) = (tr @ clock) @ new"
    and safe: "lock_safe migration_lock_held migration_lock_freed new"
    unfolding run using migrations.section_run by blast
  moreover have "list_all (\<lambda>e. \<not> migration_lock_held e \<and> \<not> migration_lock_freed e) clock"
    using clock by (auto simp: list_all_iff)
  ultimately show ?thesis using lock_safe_prefix [OF _ safe] by auto
qed

subsection \<open>Every connection is closed\<close>

fun connections :: "event \<Rightarrow> int" where
  "connections (EvCreate (Inr u)) = 1"
| "connections (EvEnd r) = - 1"
| "connections _ = 0"

lemma weighs_end: "weighs (end_connection E) connections (\<lambda>r. - 1)"
  unfolding end_connection_def by (rule weighs_call) simp

lemma weighs_close: "k (Ret ()) = - 1 \<Longrightarrow> weighs (closeAbandonedConnection E) connections k"
  unfolding closeAbandonedConnection_def
  by (rule weighs_seq_attempt [OF weighs_end]) (auto intro!: weighs_ret split: sum.splits)

lemma weighs_create: "weighs (create_connection E) connections (\<lambda>r. case r of Ret u \<Rightarrow> 1 | _ \<Rightarrow> 0)"
  unfolding create_connection_def
proof (rule weighs_call)
  fix r :: "throw + unit"
  show "connections (EvCreate r) = (case sum_outcome r of Ret u \<Rightarrow> 1 | _ \<Rightarrow> 0)" by (cases r) simp_all
qed

lemma weighs_timed: "weighs (timed E ms) connections (\<lambda>r. 0)"
  unfolding timed_def by (rule weighs_call) simp

lemma weighs_open: "weighs (open_connection E remaining) connections (\<lambda>r. case r of Ret (Some a) \<Rightarrow> 1 | _ \<Rightarrow> 0)"
proof -
  have create: "weighs (handle (create_connection E) (\<lambda>e. raise connection_error)) connections (\<lambda>r. case r of Ret u \<Rightarrow> 1 | _ \<Rightarrow> 0)"
    by (rule weighs_handle [OF weighs_create]) (auto intro: weighs_raise)
  have close: "weighs (closeAbandonedConnection E) connections (\<lambda>r. - 1)"
    by (rule weighs_close) simp
  show ?thesis
    unfolding open_connection_def
    by (rule weighs_seq [OF create], rule weighs_seq_attempt [OF weighs_timed])
      (auto intro!: weighs_seq [OF close] weighs_ret weighs_raise split: sum.splits)
qed

text \<open>What happens under the lock opens and closes nothing.\<close>

lemma emits_migrations:
  assumes "\<And>sql ps r. P (EvQuery sql ps r)" "\<And>ms r. P (EvSleep ms r)" "\<And>t. P (EvNow t)"
    "\<And>d r. P (EvReaddir d r)" "\<And>f r. P (EvReadFile f r)"
  shows "emits (runMigrations E (loadMigrations E directory) lock n) P"
proof -
  have "emits (acquireLock E deadline delay n) P" for deadline delay
    unfolding acquireLock_def using assms by (intro emits_poll emits_nap tame_emits [OF tame_try_lock])
  moreover have "tame (migrate_locked E (loadMigrations E directory)) P"
    unfolding migrate_locked_def initializeHistory_def readHistory_def applyMigration_def migration_statements_def
    using assms by (intro tame_rules tame_in_transaction tame_load)
  then have "emits (migrate_locked E (loadMigrations E directory)) P" by (rule tame_emits)
  moreover have "emits (releaseLock E) P"
    unfolding releaseLock_def free_lock_def using assms by (intro append_rules)
  moreover have "emits (now E) P" unfolding now_def by (intro emits_call assms)
  ultimately show ?thesis
    unfolding runMigrations_def locked_section_def by (intro append_rules)
qed

lemma weighs_owner:
  assumes after: "\<And>d r. emits (after d r) (\<lambda>e. connections e = 0)"
  shows "weighs (runMigrationsWithOwnerRetry E (loadMigrations E directory) after timeoutMs retryDelayMs n) connections (\<lambda>r. 0)"
proof -
  have migrations: "weighs (runMigrations E (loadMigrations E directory) lock n) connections (\<lambda>r. 0)" for lock
    by (rule weighs_emits [OF emits_migrations]) simp_all
  have after': "weighs (after d r) connections (\<lambda>r. 0)" for d r by (rule weighs_emits [OF after]) simp
  have both: "weighs (seq (runMigrations E (loadMigrations E directory) lock n) (\<lambda>versions.
      seq (after d r) (\<lambda>_. ret versions))) connections (\<lambda>r. 0)" for lock d r
    by (rule weighs_seq [OF migrations]) (auto intro!: weighs_seq [OF after'] weighs_ret)
  have connected: "weighs (run_connected E (loadMigrations E directory) after d r n) connections (\<lambda>r. - 1)" for d r
    unfolding run_connected_def
    by (rule weighs_seq_attempt [OF both], rule weighs_seq_attempt [OF weighs_end])
      (auto intro!: weighs_lift_sum split: sum.splits)
  have waiting: "weighs (poll E d r (MigrationError MigrationOwnerStartupTimeoutError)
      (\<lambda>ms. handle (sleep E ms) (\<lambda>e. raise connection_error)) (open_connection E) n) connections
      (\<lambda>r. case r of Ret u \<Rightarrow> 1 | _ \<Rightarrow> 0)" for d r
  proof (rule weighs_poll)
    show "weighs (open_connection E t) connections
        (\<lambda>r. case r of Ret (Some a) \<Rightarrow> (case Ret a of Ret u \<Rightarrow> 1 | _ \<Rightarrow> 0) | _ \<Rightarrow> 0)" for t
      unfolding outcome.case by (rule weighs_open)
  qed (auto intro: emits_nap)
  have "weighs (now E) connections (\<lambda>r. 0)" unfolding now_def by (rule weighs_call) simp
  then show ?thesis
    unfolding runMigrationsWithOwnerRetry_def Let_def
    by (rule weighs_seq) (auto intro!: weighs_seq [OF waiting] connected)
qed

subsection \<open>The waiting ends\<close>

lemma tame_create: "(\<And>r. P (EvCreate r)) \<Longrightarrow> tame (create_connection E) P"
  and tame_timed: "(\<And>r. P (EvTimed ms r)) \<Longrightarrow> tame (timed E ms) P"
  and tame_end: "(\<And>r. P (EvEnd r)) \<Longrightarrow> tame (end_connection E) P"
  unfolding create_connection_def timed_def end_connection_def by (rule tame_call; auto elim: sum_outcome.elims)+

lemma tame_sum: "(\<And>e. tame (f e) P) \<Longrightarrow> (\<And>a. tame (g a) P) \<Longrightarrow> tame (case x of Inl e \<Rightarrow> f e | Inr a \<Rightarrow> g a) P"
  by (cases x) simp_all

lemma tame_open: "tame (open_connection E remaining) (\<lambda>e. True)"
  unfolding open_connection_def closeAbandonedConnection_def
  by (intro tame_rules tame_create tame_timed tame_end tame_sum) simp_all

lemma runMigrations_finishes:
  assumes "progressing E" "1 \<le> delay" "nat (deadline - env_now E tr) < n"
  shows "fst (runMigrations E (loadMigrations E directory) (Some (deadline, delay)) n tr) \<noteq> Unfinished"
  using acquireLock_finishes [OF assms]
    migrations.section_run [of E deadline delay n directory migration_outcome tr]
  by (auto simp: runMigrations_def seq_def ret_def)

lemma not_unfinished_seq: "fst (m tr) \<noteq> Unfinished \<Longrightarrow> (\<And>a tr'. m tr = (Ret a, tr') \<Longrightarrow> fst (f a tr') \<noteq> Unfinished) \<Longrightarrow>
  fst (seq m f tr) \<noteq> Unfinished"
  by (auto simp: seq_def split: outcome.splits prod.splits)

lemma not_unfinished_attempt: "fst (m tr) \<noteq> Unfinished \<Longrightarrow> fst (attempt m tr) \<noteq> Unfinished"
  by (auto simp: attempt_def split: outcome.splits prod.splits)

lemma tame_run: "tame m P \<Longrightarrow> fst (m tr) \<noteq> Unfinished"
  unfolding tame_def by (erule spec_run [where tr = tr]) simp

lemma emits_later:
  assumes "progressing E" "emits m P" "m tr = (r, tr')"
  shows "env_now E tr \<le> env_now E tr'"
proof -
  obtain new where "tr' = tr @ new" using emitsD [OF assms(2,3)] by blast
  then show ?thesis using progressing_append [OF assms(1)] by simp
qed

lemma owner_retry_finishes:
  assumes clock: "progressing E" and delay: "1 \<le> retryDelayMs" and rounds: "nat timeoutMs < n"
    and after: "\<And>tr'. env_now E tr \<le> env_now E tr' \<Longrightarrow> fst (after (env_now E tr + timeoutMs) retryDelayMs tr') \<noteq> Unfinished"
  shows "fst (runMigrationsWithOwnerRetry E (loadMigrations E directory) after timeoutMs retryDelayMs n tr) \<noteq> Unfinished"
proof -
  let ?tr = "tr @ [EvNow (env_now E tr)]" and ?d = "env_now E tr + timeoutMs"
  let ?wait = "poll E ?d retryDelayMs (MigrationError MigrationOwnerStartupTimeoutError)
      (\<lambda>ms. handle (sleep E ms) (\<lambda>e. raise connection_error)) (open_connection E) n"
  have t0: "env_now E tr \<le> env_now E ?tr" by (rule progressing_append [OF clock])
  have in_time: "nat (?d - env_now E tr') < n" if "env_now E tr \<le> env_now E tr'" for tr' using rounds that by linarith
  have wait: "fst (?wait ?tr) \<noteq> Unfinished"
    by (rule poll_finishes [OF clock sleeps_handle tame_finishes [OF tame_open] delay in_time [OF t0]])
  have later: "env_now E tr \<le> env_now E tr'" if "?wait ?tr = (r, tr')" for r tr'
  proof -
    have "emits ?wait (\<lambda>e. True)" by (intro emits_poll emits_nap tame_emits [OF tame_open]) simp_all
    from emits_later [OF clock this that] t0 show ?thesis by simp
  qed
  have connected: "fst (run_connected E (loadMigrations E directory) after ?d retryDelayMs n tr') \<noteq> Unfinished"
    if tr': "env_now E tr \<le> env_now E tr'" for tr'
    unfolding run_connected_def
  proof (intro not_unfinished_seq not_unfinished_attempt)
    show "fst (runMigrations E (loadMigrations E directory) (Some (?d, retryDelayMs)) n tr') \<noteq> Unfinished"
      by (rule runMigrations_finishes [OF clock delay in_time [OF tr']])
  next
    fix a tr2
    assume "runMigrations E (loadMigrations E directory) (Some (?d, retryDelayMs)) n tr' = (Ret a, tr2)"
    then have "env_now E tr' \<le> env_now E tr2"
      by (rule emits_later [OF clock, where P = "\<lambda>e. True", rotated]) (rule emits_migrations; simp)
    with tr' show "fst (after ?d retryDelayMs tr2) \<noteq> Unfinished" by (intro after) simp
  next
    fix tr2
    show "fst (end_connection E tr2) \<noteq> Unfinished" by (rule tame_run [OF tame_end [of "\<lambda>e. True"]]) simp
  qed (simp_all add: ret_def lift_sum_def raise_def split: sum.splits)
  have "fst (seq ?wait (\<lambda>_. run_connected E (loadMigrations E directory) after ?d retryDelayMs n) ?tr) \<noteq> Unfinished"
    using wait later connected by (intro not_unfinished_seq) blast+
  then show ?thesis by (simp add: runMigrationsWithOwnerRetry_def seq_now Let_def)
qed

subsection \<open>A return means migrated\<close>

lemma transaction_words_found:
  "transaction_control_found BEGIN_SQL" "transaction_control_found COMMIT_SQL" "transaction_control_found ROLLBACK_SQL"
proof -
  have "control_here (js ''BEGIN'')" "control_here (js ''COMMIT'')" "control_here (js ''ROLLBACK'')"
    by (simp_all add: control_defs js_def cu_def)
  moreover have "has_control True s" if "control_here s" "s \<noteq> []" for s
    using that by (cases s) simp_all
  moreover have "maskSqlStringsAndComments (js ''BEGIN'') = js ''BEGIN''"
    "maskSqlStringsAndComments (js ''COMMIT'') = js ''COMMIT''"
    "maskSqlStringsAndComments (js ''ROLLBACK'') = js ''ROLLBACK''"
    by (simp_all add: mask_defs)
  moreover have "js ''BEGIN'' \<noteq> []" "js ''COMMIT'' \<noteq> []" "js ''ROLLBACK'' \<noteq> []" by simp_all
  ultimately show "transaction_control_found BEGIN_SQL" "transaction_control_found COMMIT_SQL" "transaction_control_found ROLLBACK_SQL"
    by (simp_all add: transaction_control_found_def BEGIN_SQL_def COMMIT_SQL_def ROLLBACK_SQL_def del: js_simps)
qed

lemma plan_statement:
  assumes "buildMigrationPlan sources = Inr plan" "m \<in> set plan"
  shows "\<not> transaction_control (EvQuery (mig_sql m) ps r)"
proof -
  have "mset plan = mset (map source_file sources)" "list_all acceptable_source sources"
    using assms(1) unfolding migration_plan_iff by blast+
  then obtain source where "m = source_file source" "acceptable_source source"
    using assms(2) by (metis (no_types, lifting) imageE list.set_map list_all_iff mset_eq_setD)
  then have "\<not> transaction_control_found (mig_sql m)"
    by (auto simp: acceptable_source_def source_file_def split: option.splits)
  then show ?thesis using transaction_words_found by auto
qed

definition recorded :: "MigrationFile \<Rightarrow> event \<Rightarrow> bool" where
  "recorded m ev \<longleftrightarrow> (\<exists>v. ev = EvQuery INSERT_HISTORY_SQL (history_parameters m) (Inr v))"

text \<open>The statements of a migration and its history row, both answered.\<close>

definition migration_done :: "MigrationFile \<Rightarrow> trace \<Rightarrow> bool" where
  "migration_done m new \<longleftrightarrow> list_ex (answered (mig_sql m)) new \<and> list_ex (recorded m) new"

lemma statements_ensured:
  "ensures (migration_statements E m) (answered (mig_sql m))" "ensures (migration_statements E m) (recorded m)"
  unfolding migration_statements_def
  by (rule ensures_first, rule ensures_query, (intro append_rules; simp))
    (rule ensures_next, (intro append_rules; simp), rule ensures_first, unfold recorded_def, rule ensures_query_parameters,
      (intro append_rules; simp))

lemma apply_done:
  assumes "\<And>ps r. \<not> transaction_control (EvQuery (mig_sql m) ps r)"
  shows "spec (applyMigration E m) (\<lambda>tr r new. r = Ret () \<longrightarrow> committed (migration_done m) new)"
proof -
  have "tame (migration_statements E m) (\<lambda>ev. \<not> transaction_control ev)"
    unfolding migration_statements_def using assms
    by (intro tame_rules) (auto simp: INSERT_HISTORY_SQL_def BEGIN_SQL_def COMMIT_SQL_def ROLLBACK_SQL_def sql_text_def js_def cu_def)
  moreover have "spec (migration_statements E m) (\<lambda>tr r new. r = Ret () \<longrightarrow> migration_done m new)"
    using spec_conj [OF statements_ensured(1) [unfolded ensures_def, of E m] statements_ensured(2) [unfolded ensures_def, of E m]]
    by (rule spec_weaken) (auto simp: migration_done_def)
  ultimately show ?thesis
    unfolding applyMigration_def by (rule spec_weaken [OF transaction_spec]) (auto simp: transaction_events_def)
qed

lemma check_history_iff:
  "check_history migrations rows = Inr () \<longleftrightarrow>
     (\<forall>a\<in>set rows. \<exists>m. local_by_version migrations (applied_version a) = Some m \<and>
        mig_filename m = applied_filename a \<and> mig_checksum m = applied_checksum a)"
  by (induction rows) (auto split: option.splits)

lemma local_by_version_Some: "local_by_version migrations v = Some m \<Longrightarrow> m \<in> set migrations \<and> mig_version m = v"
  by (auto simp: local_by_version_def dest!: map_of_SomeD)

definition recorded_locally :: "MigrationFile list \<Rightarrow> AppliedMigration \<Rightarrow> bool" where
  "recorded_locally migrations a \<longleftrightarrow>
     (\<exists>m\<in>set migrations. mig_version m = applied_version a \<and> mig_filename m = applied_filename a \<and> mig_checksum m = applied_checksum a)"

lemma findPending_Inr:
  assumes "findPendingMigrations migrations rows = Inr pending"
  shows "pending = filter (\<lambda>m. mig_version m \<notin> set (map applied_version rows)) migrations"
    and "list_all (recorded_locally migrations) rows"
proof -
  have c: "check_history migrations rows = Inr ()" and p: "pending = filter (\<lambda>m. mig_version m \<notin> set (map applied_version rows)) migrations"
    using assms by (auto simp: findPendingMigrations_def split: sum.splits)
  show "pending = filter (\<lambda>m. mig_version m \<notin> set (map applied_version rows)) migrations" by (rule p)
  show "list_all (recorded_locally migrations) rows"
    using c [unfolded check_history_iff] local_by_version_Some unfolding list_all_iff recorded_locally_def by metis
qed

text \<open>
  What a return of the versions \<open>versions\<close> says: the history was read and agrees with the plan,
  the versions are those of the plan that it lacked, ascending, and each of these was committed.
\<close>

definition migrated :: "int list \<Rightarrow> trace \<Rightarrow> bool" where
  "migrated versions new \<longleftrightarrow>
     (\<exists>sources plan result rows history. buildMigrationPlan sources = Inr plan \<and>
        EvQuery READ_HISTORY_SQL [] (Inr result) \<in> set new \<and> result_rows result = Inr rows \<and>
        history_rows rows = Inr history \<and> list_all (recorded_locally plan) history \<and>
        versions = map mig_version (filter (\<lambda>m. mig_version m \<notin> set (map applied_version history)) plan) \<and>
        list_all (\<lambda>m. mig_version m \<in> set (map applied_version history) \<or> inside (committed (migration_done m)) new) plan)"

lemma seq_run:
  assumes "seq m f tr = (Ret b, tr')"
  obtains a tr2 where "m tr = (Ret a, tr2)" "f a tr2 = (Ret b, tr')"
  using assms by (auto simp: seq_def split: outcome.splits prod.splits)

lemma load_plan:
  assumes "loadMigrations E directory tr = (Ret plan, tr')"
  shows "\<exists>sources. buildMigrationPlan sources = Inr plan"
proof -
  let ?main = "seq (read_directory E directory) (\<lambda>entries. seq (read_entries E directory entries) (\<lambda>results.
    seq (lift_sum (all_sources entries results)) (\<lambda>sources. lift_sum (buildMigrationPlan sources))))"
  have "?main tr = (Ret plan, tr')"
    using assms by (auto simp: loadMigrations_def handle_def raise_def split: outcome.splits prod.splits if_splits)
  then obtain sources tr3 where "lift_sum (buildMigrationPlan sources) tr3 = (Ret plan, tr')"
    by (elim seq_run)
  then show ?thesis by (auto simp: lift_sum_def ret_def raise_def split: sum.splits)
qed

lemma history_run:
  assumes "readHistory E tr = (Ret history, tr')"
  shows "\<exists>result rows. tr' = tr @ [EvQuery READ_HISTORY_SQL [] (Inr result)] \<and> result_rows result = Inr rows \<and>
    history_rows rows = Inr history"
  using assms
  by (cases "env_query E tr READ_HISTORY_SQL []") (auto simp: readHistory_def handle_def seq_def run_query lift_sum_def ret_def raise_def
      split: outcome.splits prod.splits sum.splits)

lemma emits_run: "emits m (\<lambda>e. True) \<Longrightarrow> m tr = (r, tr') \<Longrightarrow> \<exists>new. tr' = tr @ new"
  using emitsD by blast

lemma locked_done:
  "spec (migrate_locked E (loadMigrations E directory)) (\<lambda>tr r new. \<forall>versions. r = Ret versions \<longrightarrow> migrated versions new)"
proof (rule specI)
  fix tr
  let ?run = "migrate_locked E (loadMigrations E directory) tr"
  obtain new where new: "snd ?run = tr @ new" using tame_locked unfolding tame_def by (rule specE)
  have "migrated versions new" if ret: "fst ?run = Ret versions" for versions
  proof -
    have "?run = (Ret versions, tr @ new)" using ret new by (metis prod.collapse)
    then obtain plan tr1 u tr2 history tr3 pending tr4 v tr5 where
      load: "loadMigrations E directory tr = (Ret plan, tr1)" and init: "initializeHistory E tr1 = (Ret u, tr2)" and
      history: "readHistory E tr2 = (Ret history, tr3)" and
      pending: "lift_sum (findPendingMigrations plan history) tr3 = (Ret pending, tr4)" and
      applied: "for_each (applyMigration E) pending tr4 = (Ret v, tr5)" and
      result: "ret (map mig_version pending) tr5 = (Ret versions, tr @ new)"
      unfolding migrate_locked_def by (elim seq_run)
    obtain sources where plan: "buildMigrationPlan sources = Inr plan" using load_plan [OF load] by blast
    obtain res rows where rows: "tr3 = tr2 @ [EvQuery READ_HISTORY_SQL [] (Inr res)]" "result_rows res = Inr rows"
      "history_rows rows = Inr history" using history_run [OF history] by blast
    have found: "findPendingMigrations plan history = Inr pending" "tr4 = tr3"
      using pending by (auto simp: lift_sum_def ret_def raise_def split: sum.splits)
    note pend = findPending_Inr [OF found(1)]
    have "spec (applyMigration E m) (\<lambda>tr r new. r = Ret () \<longrightarrow> committed (migration_done m) new)" if "m \<in> set pending" for m
      using that plan_statement [OF plan] pend(1) by (intro apply_done) auto
    then have "spec (for_each (applyMigration E) pending)
        (\<lambda>tr r new. r = Ret () \<longrightarrow> (\<forall>m\<in>set pending. inside (committed (migration_done m)) new))"
      by (rule spec_for_each)
    then obtain r d where "for_each (applyMigration E) pending tr4 = (r, tr4 @ d)"
      "r = Ret () \<longrightarrow> (\<forall>m\<in>set pending. inside (committed (migration_done m)) d)"
      by (rule spec_run)
    then have d: "tr5 = tr4 @ d" "\<forall>m\<in>set pending. inside (committed (migration_done m)) d"
      using applied by auto
    obtain a b where ab: "tr1 = tr @ a" "tr2 = tr1 @ b"
      using emits_run [OF tame_emits [OF tame_load [of "\<lambda>e. True"]] load]
        emits_run [OF tame_emits [OF tame_in_transaction [OF tame_seq [OF tame_query tame_ret], of "\<lambda>e. True"]] init [unfolded initializeHistory_def]]
      by auto
    have split: "new = (a @ b @ [EvQuery READ_HISTORY_SQL [] (Inr res)]) @ d" and versions: "versions = map mig_version pending"
      using result ab rows(1) found(2) d(1) by (simp_all add: ret_def)
    have each: "mig_version m \<in> set (map applied_version history) \<or> inside (committed (migration_done m)) new" if "m \<in> set plan" for m
    proof (cases "mig_version m \<in> set (map applied_version history)")
      case False
      then have "m \<in> set pending" using pend(1) that by simp
      then show ?thesis using d(2) unfolding split by (blast intro: inside_appends(1))
    qed simp
    show ?thesis
      unfolding migrated_def
    proof (intro exI conjI)
      show "list_all (\<lambda>m. mig_version m \<in> set (map applied_version history) \<or> inside (committed (migration_done m)) new) plan"
        using each unfolding list_all_iff by blast
    qed (use plan rows pend versions split in auto)
  qed
  with new show "\<exists>new. snd ?run = tr @ new \<and> (\<forall>versions. fst ?run = Ret versions \<longrightarrow> migrated versions new)" by blast
qed

lemma migrated_inside: "inside (migrated versions) new \<Longrightarrow> migrated versions new"
proof -
  assume "inside (migrated versions) new"
  then obtain a mid b where new: "new = a @ mid @ b" and "migrated versions mid" by (auto simp: inside_def)
  then obtain sources plan result rows history where
    "buildMigrationPlan sources = Inr plan" "EvQuery READ_HISTORY_SQL [] (Inr result) \<in> set mid"
    "result_rows result = Inr rows" "history_rows rows = Inr history" "list_all (recorded_locally plan) history"
    "versions = map mig_version (filter (\<lambda>m. mig_version m \<notin> set (map applied_version history)) plan)"
    and each: "list_all (\<lambda>m. mig_version m \<in> set (map applied_version history) \<or> inside (committed (migration_done m)) mid) plan"
    unfolding migrated_def by blast
  moreover have "list_all (\<lambda>m. mig_version m \<in> set (map applied_version history) \<or> inside (committed (migration_done m)) new) plan"
    using each unfolding list_all_iff new by (blast intro: inside_append)
  ultimately show ?thesis unfolding migrated_def new by (intro exI conjI) auto
qed

lemma emits_acquireLock: "emits (acquireLock E deadline delay n) (\<lambda>e. True)"
  unfolding acquireLock_def by (intro emits_poll emits_nap tame_emits [OF tame_try_lock]) simp_all

lemma run_migrated:
  assumes "runMigrations E (loadMigrations E directory) lock n tr = (Ret versions, tr')"
  shows "\<exists>new. tr' = tr @ new \<and> migrated versions new"
proof -
  obtain clock deadline delay where
    run: "runMigrations E (loadMigrations E directory) lock n tr =
       locked_section (acquireLock E deadline delay n) (migrate_locked E (loadMigrations E directory))
         (releaseLock E) migration_outcome (tr @ clock)"
    using runMigrations_run by blast
  let ?section = "locked_section (acquireLock E deadline delay n) (migrate_locked E (loadMigrations E directory))
         (releaseLock E) migration_outcome"
  have "spec ?section (\<lambda>tr r new. \<forall>b. r = Ret b \<longrightarrow>
      (\<exists>a u. migration_outcome (Inr a) u = Inr b \<and> inside (migrated a) new))"
  proof (rule section_done [OF emits_acquireLock locked_done])
    show "emits (releaseLock E) (\<lambda>e. True)" unfolding releaseLock_def by (rule emits_free_lock)
  qed (auto simp: migration_outcome_def Let_def split: sum.splits)
  then obtain r new where r: "?section (tr @ clock) = (r, (tr @ clock) @ new)"
    "\<forall>b. r = Ret b \<longrightarrow> (\<exists>a u. migration_outcome (Inr a) u = Inr b \<and> inside (migrated a) new)"
    by (rule spec_run)
  moreover have "a = b" if "migration_outcome (Inr a) u = Inr b" for a b u
    using that by (cases u) (auto simp: migration_outcome_def Let_def)
  ultimately have "inside (migrated versions) new" and tr': "tr' = tr @ clock @ new"
    using assms unfolding run by auto
  then have "migrated versions (clock @ new)" by (intro migrated_inside inside_appends(1))
  with tr' show ?thesis by blast
qed

text \<open>
  C12. When the migrations of a directory have run, the history was read and is a part of the plan
  made from the files, name and checksum included; the versions returned are those of the plan
  the history lacked, in ascending order; and each of these was applied, its statements and its
  history row both answered, in a transaction whose commit was answered.
\<close>

theorem return_means_migrated:
  assumes "fst (runMigrations E (loadMigrations E directory) lock n tr) = Ret versions"
  shows "\<exists>new. snd (runMigrations E (loadMigrations E directory) lock n tr) = tr @ new \<and> migrated versions new"
  using run_migrated [OF prod_eqI] assms by (metis prod.collapse run_migrated)

subsection \<open>Witnesses\<close>

definition migration_database :: "jsstr \<Rightarrow> throw + jsval" where
  "migration_database sql =
     (let one = (\<lambda>k. Inr (plain [(js ''rows'', JArr [plain [(js k, JBool True)]])]))
      in if sql = TRY_ACQUIRE_LOCK_SQL then one ''acquired''
         else if sql = RELEASE_LOCK_SQL then one ''released''
         else Inr (plain [(js ''rows'', JArr [])]))"

definition one_migration :: env where
  "one_migration = (waiting_env migration_database)
     \<lparr>env_readdir := (\<lambda>tr d. Inr [(js ''0001_a.sql'', True)]), env_readfile := (\<lambda>tr f. Inr (utf8_encode (js ''SELECT 1'')))\<rparr>"

lemma migration_answers:
  "migration_database TRY_ACQUIRE_LOCK_SQL = Inr (plain [(js ''rows'', JArr [plain [(js ''acquired'', JBool True)]])])"
  "migration_database RELEASE_LOCK_SQL = Inr (plain [(js ''rows'', JArr [plain [(js ''released'', JBool True)]])])"
  "length sql < 20 \<or> hd sql = 10 \<Longrightarrow> migration_database sql = Inr (plain [(js ''rows'', JArr [])])"
  by (auto simp: migration_database_def TRY_ACQUIRE_LOCK_SQL_def RELEASE_LOCK_SQL_def js_def cu_def)

lemma one_migration_query: "query one_migration sql ps tr =
    (sum_outcome (migration_database sql), tr @ [EvQuery sql ps (migration_database sql)])"
  by (simp add: run_query one_migration_def waiting_env_def quiet_env_def)

lemma one_migration_plan:
  "\<exists>m. buildMigrationPlan [\<lparr>source_filename = js ''0001_a.sql'', source_bytes = utf8_encode (js ''SELECT 1'')\<rparr>] = Inr [m] \<and>
     mig_version m = 1 \<and> mig_sql m = js ''SELECT 1''"
proof -
  have "\<not> transaction_control_found (js ''SELECT 1'')"
  proof -
    have m: "maskSqlStringsAndComments (js ''SELECT 1'') = js ''SELECT 1''" by (simp add: mask_defs)
    have "\<not> control_here (js ''SELECT 1'')" by (simp add: control_defs js_def cu_def)
    then show ?thesis unfolding transaction_control_found_def m by (simp add: js_def cu_def line_terminator_def)
  qed
  moreover have "parseVersion (js ''0001_a.sql'') = Inr 1" by code_simp
  moreover have "utf8_decode (utf8_encode (js ''SELECT 1'')) = Some (js ''SELECT 1'')"
    by (rule utf8_roundtrip_ascii) (simp add: is_ascii_def js_def unat_cu)
  ultimately show ?thesis by (simp add: buildMigrationPlan_def migration_file_def)
qed

lemma one_migration_run:
  "fst (runMigrations one_migration (loadMigrations one_migration d) None 1 []) = Ret [1]"
proof -
  obtain m where load: "\<And>tr. loadMigrations one_migration d tr =
     (Ret [m], tr @ [EvReaddir d (Inr [(js ''0001_a.sql'', True)]), EvReadFile (d @ js ''/'' @ js ''0001_a.sql'') (Inr (utf8_encode (js ''SELECT 1'')))])"
    and m: "mig_version m = 1" "mig_sql m = js ''SELECT 1''"
    using one_migration_plan
    by (auto simp: loadMigrations_def one_migration_def handle_def seq_def attempt_def ret_def read_directory_def
        read_file_def call_def lift_sum_def all_sources_def)
  have others: "migration_database BEGIN_SQL = Inr (plain [(js ''rows'', JArr [])])"
    "migration_database COMMIT_SQL = Inr (plain [(js ''rows'', JArr [])])"
    "migration_database (js ''SELECT 1'') = Inr (plain [(js ''rows'', JArr [])])"
    "migration_database INITIALIZE_HISTORY_SQL = Inr (plain [(js ''rows'', JArr [])])"
    "migration_database READ_HISTORY_SQL = Inr (plain [(js ''rows'', JArr [])])"
    "migration_database INSERT_HISTORY_SQL = Inr (plain [(js ''rows'', JArr [])])"
    by (rule migration_answers(3), simp add: BEGIN_SQL_def COMMIT_SQL_def js_def INITIALIZE_HISTORY_SQL_def
        READ_HISTORY_SQL_def INSERT_HISTORY_SQL_def sql_text_def sql_lines_def)+
  have clock: "env_now one_migration tr = slept tr" for tr by (simp add: one_migration_def waiting_env_def)
  show ?thesis
    by (simp add: runMigrations_def acquireLock_def locked_section_def try_lock_def free_lock_def releaseLock_def
        migrate_locked_def initializeHistory_def readHistory_def findPendingMigrations_def applyMigration_def
        migration_statements_def in_transaction_def migration_outcome_def history_rows_def
        Let_def seq_def attempt_def handle_def lift_sum_def ret_def raise_def now_def call_def slept_def clock
        DEFAULT_LOCK_TIMEOUT_MS_def one_migration_query migration_answers(1,2) others load m
        result_rows_def only_boolean_def boolean_property_def)
qed

theorem return_means_migrated_witness:
  "\<exists>new. snd (runMigrations one_migration (loadMigrations one_migration (js ''m'')) None 1 []) = [] @ new \<and> migrated [1] new"
  by (rule return_means_migrated [OF one_migration_run])

end
