(* ===== verification/PartitionPlan.thy ===== *)
theory PartitionPlan
  imports Ingestion
begin

section \<open>The partition plan (\<open>src/database/partitions/partition-plan.ts\<close>)\<close>

text \<open>
  The daily partitions that must exist for a clock reading and a retention period, and the check
  every consumer makes of a partition. The plan is shown to be the consecutive days from the
  first retained one to the day after tomorrow, each passing the check.
\<close>

subsection \<open>Definitions\<close>

definition MILLISECONDS_PER_DAY :: int where "MILLISECONDS_PER_DAY = 86400000"

record DailyPartition =
  partition_name :: jsstr
  partition_start :: jsstr
  partition_end :: jsstr

text \<open>\<open>/^logs_[0-9]{8}$/\<close> and \<open>/^[0-9]{4}-[0-9]{2}-[0-9]{2}T00:00:00\.000Z$/\<close>.\<close>

definition partition_name_pattern :: "jsstr \<Rightarrow> bool" where
  "partition_name_pattern s \<longleftrightarrow> starts_with (js ''logs_'') s \<and> length (drop 5 s) = 8 \<and> all_digits (drop 5 s)"

definition utc_boundary_pattern :: "jsstr \<Rightarrow> bool" where
  "utc_boundary_pattern s \<longleftrightarrow>
     (case match_date_time s of None \<Rightarrow> False
      | Some (dt, r) \<Rightarrow>
          t_hour dt = js ''00'' \<and> t_minute dt = js ''00'' \<and> t_second dt = js ''00'' \<and> r = js ''.000Z'')"

definition assertUtcBoundary :: "jsstr \<Rightarrow> throw + unit" where
  "assertUtcBoundary v =
     (if \<not> utc_boundary_pattern v then Inl InvalidPartitionPlanError
      else case date_parse v of
          None \<Rightarrow> Inl InvalidPartitionPlanError
        | Some t \<Rightarrow> if toISOString t \<noteq> v then Inl InvalidPartitionPlanError else Inr ())"

text \<open>\<open>`logs_${start.slice(0, 10).replaceAll("-", "")}`\<close>.\<close>

definition expected_name :: "jsstr \<Rightarrow> jsstr" where
  "expected_name start = js ''logs_'' @ filter (\<lambda>c. c \<noteq> cu CHR ''-'') (take 10 start)"

definition assertDailyPartition :: "DailyPartition \<Rightarrow> throw + unit" where
  "assertDailyPartition p =
     (if \<not> partition_name_pattern (partition_name p) then Inl InvalidPartitionPlanError
      else case assertUtcBoundary (partition_start p) of Inl e \<Rightarrow> Inl e
      | Inr u \<Rightarrow>
        (case assertUtcBoundary (partition_end p) of Inl e \<Rightarrow> Inl e
         | Inr u \<Rightarrow>
             if partition_name p \<noteq> expected_name (partition_start p) \<or>
                (case (date_parse (partition_start p), date_parse (partition_end p)) of
                   (Some s, Some e) \<Rightarrow> e - s \<noteq> MILLISECONDS_PER_DAY | _ \<Rightarrow> True)
             then Inl InvalidPartitionPlanError else Inr ()))"

definition partitionForTimestamp :: "int \<Rightarrow> throw + DailyPartition" where
  "partitionForTimestamp t =
     (case date_to_iso (Some t) of Inl e \<Rightarrow> Inl e
      | Inr start \<Rightarrow>
        (case date_to_iso (Some (t + MILLISECONDS_PER_DAY)) of Inl e \<Rightarrow> Inl e
         | Inr stop \<Rightarrow>
             (let p = \<lparr>partition_name = expected_name start, partition_start = start, partition_end = stop\<rparr>
              in case assertDailyPartition p of Inl e \<Rightarrow> Inl e | Inr u \<Rightarrow> Inr p)))"

text \<open>\<open>currentTime\<close> is the time value of a \<open>Date\<close>, \<open>None\<close> for an invalid one.\<close>

definition buildPartitionPlan :: "int option \<Rightarrow> jsnum \<Rightarrow> throw + DailyPartition list" where
  "buildPartitionPlan currentTime retentionDays =
     (case (currentTime, safe_integer_value (JNum retentionDays)) of
        (Some current, Some days) \<Rightarrow>
          if days < 1 \<or> 3650 < days then Inl InvalidPartitionPlanError
          else
            (let currentUtcDay = current div MILLISECONDS_PER_DAY * MILLISECONDS_PER_DAY;
                 firstDay = currentUtcDay - days * MILLISECONDS_PER_DAY
             in traverse (\<lambda>offset. partitionForTimestamp (firstDay + offset * MILLISECONDS_PER_DAY)) [0..days + 2])
      | _ \<Rightarrow> Inl InvalidPartitionPlanError)"

subsection \<open>The partition of a day\<close>

definition day_partition :: "int \<Rightarrow> DailyPartition" where
  "day_partition n =
     \<lparr>partition_name = expected_name (toISOString (n * ms_per_day)),
      partition_start = toISOString (n * ms_per_day), partition_end = toISOString ((n + 1) * ms_per_day)\<rparr>"

text \<open>A day of the years 0 to 9999.\<close>

definition four_digit_day :: "int \<Rightarrow> bool" where
  "four_digit_day n \<longleftrightarrow> - 719528 \<le> n \<and> n \<le> 2932896"

lemma day_iso:
  assumes "four_digit_day n"
  defines "v \<equiv> toISOString (n * ms_per_day)"
  shows "assertUtcBoundary v = Inr ()" "date_parse v = Some (n * ms_per_day)"
    "date_to_iso (Some (n * ms_per_day)) = Inr v"
    "partition_name_pattern (expected_name v)"
proof -
  have yr: "four_digit_year (n * ms_per_day)" using assms by (simp add: four_digit_year_iff four_digit_day_def)
  have "n * ms_per_day = n * 86400 * 1000" by simp
  then have mod: "n * ms_per_day mod 1000 = 0" by (simp only: mod_mult_self2_is_0)
  note iso = iso_timestamp [OF yr mod, folded v_def]
  show "date_parse v = Some (n * ms_per_day)" by (rule iso)
  have dt: "dt_of (n * ms_per_day) = \<lparr>t_year = t_year (dt_of (n * ms_per_day)), t_month = t_month (dt_of (n * ms_per_day)),
      t_day = t_day (dt_of (n * ms_per_day)), t_hour = js ''00'', t_minute = js ''00'', t_second = js ''00''\<rparr>"
  proof -
    have "fix_digits 2 0 = js ''00''" by (simp add: fix_digits_zero js_def cu_zero numeral_2_eq_2)
    moreover have "n * ms_per_day mod ms_per_day = 0" by simp
    ultimately show ?thesis by (simp add: dt_of_def Let_def split: prod.splits)
  qed
  have "match_date_time v = Some (dt_of (n * ms_per_day), js ''.000Z'')"
    unfolding match_date_time_iff using iso(4) by simp
  then have "utc_boundary_pattern v" using dt by (simp add: utc_boundary_pattern_def) (metis date_time_text.select_convs(4-6))
  then show "assertUtcBoundary v = Inr ()" by (simp add: assertUtcBoundary_def iso(3)) (simp add: v_def)
  have "\<bar>n * ms_per_day\<bar> \<le> 8640000000000000" using four_digit_year_bounds [OF yr] .
  then show "date_to_iso (Some (n * ms_per_day)) = Inr v" by (simp add: date_to_iso_def time_clip_def v_def)
  let ?dt = "dt_of (n * ms_per_day)"
  have wf: "wf_dt ?dt" by simp
  have ten: "take 10 v = t_year ?dt @ js ''-'' @ t_month ?dt @ js ''-'' @ t_day ?dt"
    using wf by (simp add: iso(4) dt_text_def wf_dt_def)
  have keep: "filter (\<lambda>c. c \<noteq> cu CHR ''-'') s = s" if "all_digits s" for s
    using that by (auto simp: filter_id_conv all_digits_def list_all_iff)
  have "expected_name v = js ''logs_'' @ t_year ?dt @ t_month ?dt @ t_day ?dt"
    using wf by (simp add: expected_name_def ten wf_dt_def keep js_def)
  then show "partition_name_pattern (expected_name v)"
    using wf by (simp add: partition_name_pattern_def wf_dt_def)
qed

lemma day_partition_ok:
  assumes "four_digit_day n" "four_digit_day (n + 1)"
  shows "assertDailyPartition (day_partition n) = Inr ()" "partitionForTimestamp (n * ms_per_day) = Inr (day_partition n)"
proof -
  define m where "m = n + 1"
  have p: "day_partition n = \<lparr>partition_name = expected_name (toISOString (n * ms_per_day)),
      partition_start = toISOString (n * ms_per_day), partition_end = toISOString (m * ms_per_day)\<rparr>"
    and e: "n * ms_per_day + MILLISECONDS_PER_DAY = m * ms_per_day"
    and d: "m * ms_per_day - n * ms_per_day = MILLISECONDS_PER_DAY"
    by (simp_all add: day_partition_def m_def MILLISECONDS_PER_DAY_def)
  note start = day_iso [OF assms(1)] and stop = day_iso [OF assms(2), folded m_def]
  show a: "assertDailyPartition (day_partition n) = Inr ()"
    by (simp add: assertDailyPartition_def p start stop d)
  then show "partitionForTimestamp (n * ms_per_day) = Inr (day_partition n)"
    unfolding partitionForTimestamp_def e by (simp add: start(3) stop(3) flip: p)
qed

lemma upto_map: "map (\<lambda>i. f (a + i)) [0..k] = map f [a..a + (k :: int)]"
proof (rule nth_equalityI)
  fix i
  assume "i < length (map (\<lambda>i. f (a + i)) [0..k])"
  then have "int i \<le> k" "nth [0..k] i = int i" "nth [a..a + k] i = a + int i" by (simp_all add: nth_upto)
  then show "map (\<lambda>i. f (a + i)) [0..k] ! i = map f [a..a + k] ! i" by simp
qed simp

lemma plan_days:
  assumes days: "1 \<le> days" "days \<le> 3650" and first: "four_digit_day (t div ms_per_day - days)"
    and last: "four_digit_day (t div ms_per_day + 3)"
  shows "buildPartitionPlan (Some t) (JFin (of_int days)) =
    Inr (map day_partition [t div ms_per_day - days..t div ms_per_day + 2])"
proof -
  define today where "today = t div ms_per_day"
  have "safe_integer_value (JNum (JFin (of_int days))) = Some days"
    using safe_integer_value_jint [of days] days by (simp add: jint_def safe_int_def max_safe_integer_def)
  then have "buildPartitionPlan (Some t) (JFin (of_int days)) =
      traverse (\<lambda>offset. partitionForTimestamp (today * MILLISECONDS_PER_DAY - days * MILLISECONDS_PER_DAY +
        offset * MILLISECONDS_PER_DAY)) [0..days + 2]"
    using days by (simp add: buildPartitionPlan_def MILLISECONDS_PER_DAY_def today_def del: safe_integer_value.simps)
  also have "\<dots> = Inr (map (\<lambda>offset. day_partition (today - days + offset)) [0..days + 2])"
  proof (rule traverse_total)
    fix k
    assume k: "k \<in> set [0..days + 2]"
    have "today * MILLISECONDS_PER_DAY - days * MILLISECONDS_PER_DAY + k * MILLISECONDS_PER_DAY =
        (today - days + k) * ms_per_day"
      by (simp add: MILLISECONDS_PER_DAY_def algebra_simps)
    moreover have "four_digit_day (today - days + k)" "four_digit_day (today - days + k + 1)"
      using k first last by (auto simp: four_digit_day_def today_def)
    ultimately show "partitionForTimestamp (today * MILLISECONDS_PER_DAY - days * MILLISECONDS_PER_DAY +
        k * MILLISECONDS_PER_DAY) = Inr (day_partition (today - days + k))"
      by (simp only: day_partition_ok(2))
  qed
  also have "map (\<lambda>offset. day_partition (today - days + offset)) [0..days + 2] =
      map day_partition [today - days..today + 2]"
    using upto_map [of day_partition "today - days" "days + 2"] by (simp add: algebra_simps)
  finally show ?thesis by (simp add: today_def)
qed

text \<open>A plan without gaps: each partition ends where the next one starts.\<close>

fun contiguous :: "DailyPartition list \<Rightarrow> bool" where
  "contiguous (p # q # ps) = (partition_end p = partition_start q \<and> contiguous (q # ps))"
| "contiguous _ = True"

lemma contiguous_days: "contiguous (map day_partition [a..b])"
proof (induction "nat (b - a)" arbitrary: a)
  case (Suc k)
  then have "a < b" by simp
  then have up: "[a..b] = a # (a + 1) # [a + 2..b]" using upto_rec1 [of a b] upto_rec1 [of "a + 1" b] by (simp add: add.commute)
  have "contiguous (map day_partition [a + 1..b])" using Suc by simp
  with \<open>a < b\<close> show ?case
    unfolding up using upto_rec1 [of "a + 1" b] by (simp add: day_partition_def add.commute)
next
  case 0
  then have "[a..b] = [] \<or> [a..b] = [a]" by (cases "b = a") auto
  then show ?case by auto
qed

lemma day_partition_inject:
  assumes "four_digit_day m" "four_digit_day n" "partition_name (day_partition m) = partition_name (day_partition n)"
  shows "m = n"
proof -
  have yr: "four_digit_year (k * ms_per_day)" "k * ms_per_day mod 1000 = 0" if "four_digit_day k" for k
  proof -
    show "four_digit_year (k * ms_per_day)" using that by (simp add: four_digit_year_iff four_digit_day_def)
    have "k * ms_per_day = k * 86400 * 1000" by simp
    then show "k * ms_per_day mod 1000 = 0" by (simp only: mod_mult_self2_is_0)
  qed
  have name: "partition_name (day_partition k) = js ''logs_'' @ t_year (dt_of (k * ms_per_day)) @
      t_month (dt_of (k * ms_per_day)) @ t_day (dt_of (k * ms_per_day))" if "four_digit_day k" for k
  proof -
    let ?dt = "dt_of (k * ms_per_day)"
    have wf: "wf_dt ?dt" by simp
    have "take 10 (toISOString (k * ms_per_day)) = t_year ?dt @ js ''-'' @ t_month ?dt @ js ''-'' @ t_day ?dt"
      using wf by (simp add: iso_timestamp(4) [OF yr [OF that]] dt_text_def wf_dt_def)
    moreover have "filter (\<lambda>c. c \<noteq> cu CHR ''-'') s = s" if "all_digits s" for s
      using that by (auto simp: filter_id_conv all_digits_def list_all_iff)
    ultimately show ?thesis using wf by (simp add: day_partition_def expected_name_def wf_dt_def js_def)
  qed
  let ?a = "dt_of (m * ms_per_day)" and ?b = "dt_of (n * ms_per_day)"
  have wf: "wf_dt ?a" "wf_dt ?b" by simp_all
  have "t_year ?a = t_year ?b \<and> t_month ?a = t_month ?b \<and> t_day ?a = t_day ?b"
    using assms(3) wf unfolding name [OF assms(1)] name [OF assms(2)] by (simp add: wf_dt_def)
  then have "make_day (num (t_year ?a)) (num (t_month ?a)) (num (t_day ?a)) =
      make_day (num (t_year ?b)) (num (t_month ?b)) (num (t_day ?b))" by simp
  moreover have "make_day (num (t_year (dt_of (k * ms_per_day)))) (num (t_month (dt_of (k * ms_per_day))))
      (num (t_day (dt_of (k * ms_per_day)))) = k" if "four_digit_day k" for k
  proof -
    have "time_value (dt_of (k * ms_per_day)) = k * ms_per_day"
      using dt_of_values [OF yr(1) [OF that]] yr(2) [OF that] by simp
    moreover have "num (t_hour (dt_of (k * ms_per_day))) = 0 \<and> num (t_minute (dt_of (k * ms_per_day))) = 0 \<and>
        num (t_second (dt_of (k * ms_per_day))) = 0"
      by (simp add: dt_of_def Let_def num_def fix_digits_zero split: prod.splits)
    ultimately show ?thesis by (simp add: time_value_def make_time_def)
  qed
  ultimately show "m = n" using assms(1,2) by simp
qed

subsection \<open>Properties\<close>

text \<open>
  C23. The plan is complete and exact: for any clock reading and retention period that stay in
  the years 0 to 9999 it has one partition per day from the first retained day to two days after
  today, without gaps, each passing the check, under pairwise different names, and today is among
  them.
\<close>

theorem partition_plan_covers:
  assumes "1 \<le> days" "days \<le> 3650" "four_digit_day (t div ms_per_day - days)" "four_digit_day (t div ms_per_day + 3)"
  shows "\<exists>plan. buildPartitionPlan (Some t) (JFin (of_int days)) = Inr plan \<and>
    length plan = nat (days + 3) \<and> contiguous plan \<and> distinct (map partition_name plan) \<and>
    list_all (\<lambda>p. assertDailyPartition p = Inr ()) plan \<and>
    partition_start (hd plan) = toISOString ((t div ms_per_day - days) * ms_per_day) \<and>
    partition_start (plan ! nat days) = toISOString (t div ms_per_day * ms_per_day)"
proof (intro exI conjI)
  let ?today = "t div ms_per_day"
  let ?plan = "map day_partition [?today - days..?today + 2]"
  have fd: "four_digit_day k" if "?today - days \<le> k" "k \<le> ?today + 3" for k
    using that assms(3,4) by (auto simp: four_digit_day_def)
  show "buildPartitionPlan (Some t) (JFin (of_int days)) = Inr ?plan" using assms by (rule plan_days)
  show "length ?plan = nat (days + 3)" by simp
  show "contiguous ?plan" by (rule contiguous_days)
  show "distinct (map partition_name ?plan)"
    by (auto simp: distinct_map inj_on_def intro!: day_partition_inject fd)
  show "list_all (\<lambda>p. assertDailyPartition p = Inr ()) ?plan"
    by (auto simp: list_all_iff intro!: day_partition_ok(1) fd)
  have "[?today - days..?today + 2] = (?today - days) # [?today - days + 1..?today + 2]"
    using assms(1) by (intro upto_rec1) simp
  then show "partition_start (hd ?plan) = toISOString ((?today - days) * ms_per_day)"
    by (simp add: day_partition_def)
  have "[?today - days..?today + 2] ! nat days = ?today" using assms(1) by (subst nth_upto) auto
  then show "partition_start (?plan ! nat days) = toISOString (?today * ms_per_day)"
    using assms(1) by (simp add: day_partition_def)
qed

theorem partition_plan_covers_witness:
  "\<exists>plan. buildPartitionPlan (Some 1786624496789) (JFin 30) = Inr plan \<and> length plan = 33 \<and> contiguous plan"
  using partition_plan_covers [of 30 1786624496789] by (auto simp: four_digit_day_def)

end
