(* ===== verification/PartitionPreparer.thy ===== *)
theory PartitionPreparer
  imports PartitionPlan AdvisoryLock
begin

section \<open>Preparing partitions (\<open>src/database/partitions/partition-preparer.ts\<close>)\<close>

text \<open>
  Under an advisory lock, every planned partition that does not exist is created, filled from the
  default partition and attached, each in its own transaction. The comparison of strings by locale
  is a parameter. The lemmas show that the lock is freed on every path, that the wait for it ends,
  and that a return means every partition exists.
\<close>

subsection \<open>Statements\<close>

definition PARTITION_LOCK_NAMESPACE :: int where "PARTITION_LOCK_NAMESPACE = 1815642963"
definition PARTITION_LOCK_ID :: int where "PARTITION_LOCK_ID = 2"
definition PARTITION_LOCK_TIMEOUT_MS :: int where "PARTITION_LOCK_TIMEOUT_MS = 30000"
definition PARTITION_RETRY_DELAY_MS :: int where "PARTITION_RETRY_DELAY_MS = 100"

definition TRY_LOCK_SQL :: jsstr where
  "TRY_LOCK_SQL = js ''SELECT pg_try_advisory_lock($1, $2) AS acquired''"

definition UNLOCK_SQL :: jsstr where
  "UNLOCK_SQL = js ''SELECT pg_advisory_unlock($1, $2) AS released''"

definition READ_PARTITIONS_SQL :: jsstr where
  "READ_PARTITIONS_SQL = sql_lines
    [js ''SELECT child.relname AS name'',
     js ''FROM pg_inherits AS inheritance'',
     js ''JOIN pg_class AS parent ON parent.oid = inheritance.inhparent'',
     js ''JOIN pg_namespace AS parent_namespace ON parent_namespace.oid = parent.relnamespace'',
     js ''JOIN pg_class AS child ON child.oid = inheritance.inhrelid'',
     js ''WHERE parent_namespace.nspname = '' @ single_quoted ''logstream'',
     js ''  AND parent.relname = '' @ single_quoted ''logs'',
     []]"

definition OVERLAP_SQL :: jsstr where
  "OVERLAP_SQL = sql_text
    [''SELECT EXISTS ('',
     ''  SELECT 1'',
     ''  FROM logstream.logs_default'',
     ''  WHERE timestamp >= $1::timestamptz'',
     ''    AND timestamp < $2::timestamptz'',
     '') AS has_overlap'']"

definition MOVE_OVERLAP_SQL_PREFIX :: jsstr where
  "MOVE_OVERLAP_SQL_PREFIX = sql_lines
    [js ''WITH moved_rows AS ('',
     js ''  DELETE FROM logstream.logs_default'',
     js ''  WHERE timestamp >= $1::timestamptz'',
     js ''    AND timestamp < $2::timestamptz'',
     js ''  RETURNING timestamp, id, level, service, message, attributes, attributes_search, created_at'',
     js '')'',
     js ''INSERT INTO logstream.'']"

definition MOVE_OVERLAP_SQL_SUFFIX :: jsstr where
  "MOVE_OVERLAP_SQL_SUFFIX = sql_text
    [''  (timestamp, id, level, service, message, attributes, attributes_search, created_at)'',
     ''SELECT timestamp, id, level, service, message, attributes, attributes_search, created_at'',
     ''FROM moved_rows'']"

definition LOCK_DEFAULT_SQL :: jsstr where
  "LOCK_DEFAULT_SQL = js ''LOCK TABLE logstream.logs_default IN ACCESS EXCLUSIVE MODE''"

record PartitionStructuralSql =
  create_sql :: jsstr
  attach_sql :: jsstr

definition buildPartitionStructuralSql :: "DailyPartition \<Rightarrow> throw + PartitionStructuralSql" where
  "buildPartitionStructuralSql p =
     (case assertDailyPartition p of Inl e \<Rightarrow> Inl e
      | Inr u \<Rightarrow>
        (let name = partition_name p; constraint = name @ js ''_timestamp_bounds'';
             instant_of = (\<lambda>t. js ''TIMESTAMPTZ '' @ js [CHR 0x27] @ t @ js [CHR 0x27])
         in Inr
          \<lparr>create_sql = sql_lines
             [js ''CREATE TABLE logstream.'' @ name @ js '' ('',
              js ''  LIKE logstream.logs INCLUDING DEFAULTS INCLUDING CONSTRAINTS'',
              js '');'',
              js ''ALTER TABLE logstream.'' @ name @ js '' OWNER TO logstream_owner;'',
              js ''ALTER TABLE logstream.'' @ name,
              js ''  ADD CONSTRAINT '' @ constraint,
              js ''  CHECK ('',
              js ''    timestamp >= '' @ instant_of (partition_start p),
              js ''    AND timestamp < '' @ instant_of (partition_end p),
              js ''  ) NOT VALID;'',
              js ''ALTER TABLE logstream.'' @ name @ js '' VALIDATE CONSTRAINT '' @ constraint @ js '';'',
              js ''REVOKE ALL ON TABLE logstream.'' @ name @ js '' FROM PUBLIC;'',
              js ''REVOKE ALL ON TABLE logstream.'' @ name @ js '' FROM logstream_runtime;'',
              []],
           attach_sql = js ''ALTER TABLE logstream.logs ATTACH PARTITION logstream.'' @ name @
             js '' FOR VALUES FROM ('' @ instant_of (partition_start p) @ js '') TO ('' @
             instant_of (partition_end p) @ js '')''\<rparr>))"

subsection \<open>The lock\<close>

definition lock_parameters :: "jsval list" where
  "lock_parameters = [jint PARTITION_LOCK_NAMESPACE, jint PARTITION_LOCK_ID]"

definition try_partition_lock :: "env \<Rightarrow> unit option io" where
  "try_partition_lock E = try_lock E TRY_LOCK_SQL lock_parameters PartitionPreparationError"

definition acquire_partition_lock :: "env \<Rightarrow> int \<Rightarrow> int \<Rightarrow> nat \<Rightarrow> unit io" where
  "acquire_partition_lock E deadline retryDelayMs n =
     poll E deadline retryDelayMs PartitionLockTimeoutError (sleep E) (\<lambda>_. try_partition_lock E) n"

definition release_partition_lock :: "env \<Rightarrow> unit io" where
  "release_partition_lock E =
     free_lock E UNLOCK_SQL lock_parameters PartitionPreparationError is_partition_preparation_error"

subsection \<open>One partition\<close>

definition readPartitionName :: "jsval \<Rightarrow> jsstr option" where
  "readPartitionName v =
     (if is_record v then (case get_prop v (js ''name'') of JStr s \<Rightarrow> Some s | _ \<Rightarrow> None) else None)"

definition partition_statements :: "env \<Rightarrow> DailyPartition \<Rightarrow> PartitionStructuralSql \<Rightarrow> unit io" where
  "partition_statements E p structural =
     (let bounds = [JStr (partition_start p), JStr (partition_end p)]
      in seq (query E LOCK_DEFAULT_SQL []) (\<lambda>_.
         seq (query E (create_sql structural) []) (\<lambda>_.
         seq (query E OVERLAP_SQL bounds) (\<lambda>overlap.
         seq (lift_sum (result_rows overlap)) (\<lambda>rows.
           case only_boolean rows (js ''has_overlap'') of
             None \<Rightarrow> raise PartitionPreparationError
           | Some has_overlap \<Rightarrow>
               seq (if has_overlap
                    then seq (query E (MOVE_OVERLAP_SQL_PREFIX @ partition_name p @ MOVE_OVERLAP_SQL_SUFFIX) bounds)
                           (\<lambda>_. ret ())
                    else ret ()) (\<lambda>_.
               seq (query E (attach_sql structural) []) (\<lambda>_. ret ())))))))"

definition preparePartition :: "env \<Rightarrow> DailyPartition \<Rightarrow> unit io" where
  "preparePartition E p =
     seq (lift_sum (buildPartitionStructuralSql p)) (\<lambda>structural.
       in_transaction E (partition_statements E p structural) PartitionPreparationError)"

subsection \<open>All partitions\<close>

primrec check_partitions :: "DailyPartition list \<Rightarrow> jsstr list \<Rightarrow> throw + unit" where
  "check_partitions [] names = Inr ()"
| "check_partitions (p # ps) names =
     (case assertDailyPartition p of Inl e \<Rightarrow> Inl e
      | Inr u \<Rightarrow>
          if partition_name p \<in> set names then Inl InvalidPartitionPlanError
          else check_partitions ps (partition_name p # names))"

definition read_existing :: "jsval list \<Rightarrow> throw + jsstr list" where
  "read_existing rows =
     traverse (\<lambda>row. case readPartitionName row of None \<Rightarrow> Inl PartitionPreparationError | Some s \<Rightarrow> Inr s) rows"

definition prepare_missing :: "env \<Rightarrow> DailyPartition list \<Rightarrow> unit io" where
  "prepare_missing E partitions =
     seq (query E READ_PARTITIONS_SQL []) (\<lambda>result.
     seq (lift_sum (result_rows result)) (\<lambda>rows.
     seq (lift_sum (read_existing rows)) (\<lambda>existing.
       for_each (\<lambda>p. if partition_name p \<in> set existing then ret () else preparePartition E p) partitions)))"

text \<open>The body's error comes first, and an unexpected one is replaced.\<close>

definition preparation_outcome :: "throw + unit \<Rightarrow> throw + unit \<Rightarrow> throw + unit" where
  "preparation_outcome body released =
     (case body of
        Inl e \<Rightarrow> Inl (if is_partition_preparation_error e \<or> e = InvalidPartitionPlanError then e
                      else PartitionPreparationError)
      | Inr u \<Rightarrow> released)"

definition preparePartitions ::
    "(jsstr \<Rightarrow> jsstr \<Rightarrow> int) \<Rightarrow> env \<Rightarrow> DailyPartition list \<Rightarrow> int option \<Rightarrow> int option \<Rightarrow> nat \<Rightarrow> unit io" where
  "preparePartitions localeCompare E partitions deadline retryDelayMs n =
     seq (case deadline of Some d \<Rightarrow> ret d | None \<Rightarrow> seq (now E) (\<lambda>t. ret (t + PARTITION_LOCK_TIMEOUT_MS))) (\<lambda>deadline.
       let retryDelayMs = (case retryDelayMs of Some d \<Rightarrow> d | None \<Rightarrow> PARTITION_RETRY_DELAY_MS);
           partitions = sort_with (\<lambda>l r. localeCompare (partition_start l) (partition_start r)) partitions
       in seq (lift_sum (check_partitions partitions [])) (\<lambda>_.
          locked_section (acquire_partition_lock E deadline retryDelayMs n) (prepare_missing E partitions)
            (release_partition_lock E) preparation_outcome))"

subsection \<open>The lock is freed\<close>

abbreviation partition_lock_held :: "event \<Rightarrow> bool" where
  "partition_lock_held \<equiv> lock_held TRY_LOCK_SQL lock_parameters"

abbreviation partition_lock_freed :: "event \<Rightarrow> bool" where
  "partition_lock_freed \<equiv> lock_freed UNLOCK_SQL lock_parameters"

text \<open>No statement of the body starts like the two lock statements.\<close>

definition other_statement :: "event \<Rightarrow> bool" where
  "other_statement ev \<longleftrightarrow> (case ev of EvQuery sql ps r \<Rightarrow> sql \<noteq> [] \<and> hd sql \<noteq> cu CHR ''S'' | _ \<Rightarrow> True)"

lemma other_statement_lock: "other_statement ev \<Longrightarrow> \<not> partition_lock_held ev \<and> \<not> partition_lock_freed ev"
  by (rule lock_untouched_quiet)
    (cases ev; auto simp: lock_untouched_def other_statement_def TRY_LOCK_SQL_def UNLOCK_SQL_def js_def)

lemma statement_starts:
  "other_statement (EvQuery BEGIN_SQL ps r)" "other_statement (EvQuery COMMIT_SQL ps r)"
  "other_statement (EvQuery ROLLBACK_SQL ps r)" "other_statement (EvQuery LOCK_DEFAULT_SQL ps r)"
  "other_statement (EvQuery READ_PARTITIONS_SQL ps r)" "other_statement (EvQuery OVERLAP_SQL ps r)"
  "other_statement (EvQuery (MOVE_OVERLAP_SQL_PREFIX @ t) ps r)"
  by (simp_all add: other_statement_def BEGIN_SQL_def COMMIT_SQL_def ROLLBACK_SQL_def LOCK_DEFAULT_SQL_def
      READ_PARTITIONS_SQL_def OVERLAP_SQL_def MOVE_OVERLAP_SQL_PREFIX_def sql_lines_def sql_text_def js_def cu_def)

text \<open>The statements of a transaction start differently from the transaction's own, too.\<close>

definition inner_statement :: "event \<Rightarrow> bool" where
  "inner_statement ev \<longleftrightarrow>
     (case ev of EvQuery sql ps r \<Rightarrow> sql \<noteq> [] \<and> hd sql \<in> {10, cu CHR ''L'', cu CHR ''A''} | _ \<Rightarrow> True)"

lemma inner_statement_other: "inner_statement ev \<Longrightarrow> other_statement ev"
  by (auto simp: inner_statement_def other_statement_def cu_def split: event.splits)

lemma inner_statement_plain: "inner_statement ev \<Longrightarrow> \<not> transaction_control ev"
  by (cases ev) (auto simp: inner_statement_def BEGIN_SQL_def COMMIT_SQL_def ROLLBACK_SQL_def js_def cu_def)

lemma inner_starts:
  "inner_statement (EvQuery LOCK_DEFAULT_SQL ps r)" "inner_statement (EvQuery OVERLAP_SQL ps r)"
  "inner_statement (EvQuery (MOVE_OVERLAP_SQL_PREFIX @ t) ps r)"
  by (simp_all add: inner_statement_def LOCK_DEFAULT_SQL_def OVERLAP_SQL_def MOVE_OVERLAP_SQL_PREFIX_def
      sql_lines_def sql_text_def js_def cu_def)

lemma structural_starts:
  "buildPartitionStructuralSql p = Inr structural \<Longrightarrow>
     inner_statement (EvQuery (create_sql structural) ps r) \<and> inner_statement (EvQuery (attach_sql structural) ps r)"
  by (auto simp: buildPartitionStructuralSql_def Let_def inner_statement_def sql_lines_def js_def cu_def
      split: sum.splits)

lemma tame_statements:
  assumes "buildPartitionStructuralSql p = Inr structural"
  shows "tame (partition_statements E p structural) inner_statement"
  unfolding partition_statements_def Let_def
  using structural_starts [OF assms] inner_starts by (intro tame_rules) auto

lemma tame_prepare: "tame (preparePartition E p) other_statement"
proof (cases "buildPartitionStructuralSql p")
  case (Inl e)
  then show ?thesis unfolding preparePartition_def by (simp add: lift_sum_def seq_def raise_def tame_raise [unfolded raise_def])
next
  case (Inr structural)
  have "tame (in_transaction E (partition_statements E p structural) PartitionPreparationError) other_statement"
    using tame_weaken [OF tame_statements [OF Inr] inner_statement_other] statement_starts
    by (intro tame_in_transaction)
  with Inr show ?thesis by (simp add: preparePartition_def lift_sum_def seq_def ret_def)
qed

lemma tame_missing: "tame (prepare_missing E partitions) other_statement"
  unfolding prepare_missing_def using statement_starts tame_prepare by (intro tame_rules) auto

lemma lock_statements_differ: "TRY_LOCK_SQL \<noteq> UNLOCK_SQL" "UNLOCK_SQL \<noteq> TRY_LOCK_SQL"
  by (simp_all add: TRY_LOCK_SQL_def UNLOCK_SQL_def)

interpretation preparation: lock_user partition_lock_held partition_lock_freed
  "acquire_partition_lock E deadline delay" "prepare_missing E partitions" "release_partition_lock E"
  for E deadline delay partitions
  unfolding acquire_partition_lock_def try_partition_lock_def release_partition_lock_def
  by unfold_locales
    (rule acquiring [OF lock_statements_differ(1) emits_sleep], assumption,
      rule tame_weaken [OF tame_missing other_statement_lock], assumption,
      rule free_lock_spec [OF lock_statements_differ(2)])

lemma acquire_finishes:
  "progressing E \<Longrightarrow> 1 \<le> delay \<Longrightarrow> nat (deadline - env_now E tr) < n \<Longrightarrow>
   fst (acquire_partition_lock E deadline delay n tr) \<noteq> Unfinished"
  unfolding acquire_partition_lock_def try_partition_lock_def
  by (rule acquiring_finishes [OF _ sleeps_sleep])

text \<open>The deadline and delay in force, and the trace when they are known.\<close>

definition effective_deadline :: "env \<Rightarrow> trace \<Rightarrow> int option \<Rightarrow> int" where
  "effective_deadline E tr deadline = (case deadline of Some d \<Rightarrow> d | None \<Rightarrow> env_now E tr + PARTITION_LOCK_TIMEOUT_MS)"

definition effective_delay :: "int option \<Rightarrow> int" where
  "effective_delay delay = (case delay of Some d \<Rightarrow> d | None \<Rightarrow> PARTITION_RETRY_DELAY_MS)"

lemma preparePartitions_run:
  "\<exists>clock ps. list_all (\<lambda>e. \<exists>t. e = EvNow t) clock \<and>
     preparePartitions localeCompare E partitions deadline delay n tr =
       seq (lift_sum (check_partitions ps [])) (\<lambda>_.
         locked_section (acquire_partition_lock E (effective_deadline E tr deadline) (effective_delay delay) n)
           (prepare_missing E ps) (release_partition_lock E) preparation_outcome) (tr @ clock) \<and>
     set ps = set partitions"
proof -
  define ps where "ps = sort_with (\<lambda>l r. localeCompare (partition_start l) (partition_start r)) partitions"
  show ?thesis
  proof (cases deadline)
    case None
    then show ?thesis
      by (intro exI [of _ "[EvNow (env_now E tr)]"] exI [of _ ps])
        (simp add: preparePartitions_def effective_deadline_def effective_delay_def ps_def seq_def now_def call_def ret_def Let_def)
  next
    case (Some d)
    then show ?thesis
      by (intro exI [of _ "[]"] exI [of _ ps])
        (simp add: preparePartitions_def effective_deadline_def effective_delay_def ps_def seq_def ret_def Let_def)
  qed
qed

subsection \<open>Properties\<close>

text \<open>
  Preparing partitions never leaves the advisory lock behind: whatever the database answers,
  either the lock was never held, or it was acquired once and the last thing done is to free it,
  with nothing touching the lock in between.
\<close>

theorem preparation_lock_safe:
  "\<exists>new. snd (preparePartitions localeCompare E partitions deadline delay n tr) = tr @ new \<and>
     lock_safe partition_lock_held partition_lock_freed new"
proof -
  obtain clock ps where clock: "list_all (\<lambda>e. \<exists>t. e = EvNow t) clock"
    and run: "preparePartitions localeCompare E partitions deadline delay n tr =
       seq (lift_sum (check_partitions ps [])) (\<lambda>_.
         locked_section (acquire_partition_lock E (effective_deadline E tr deadline) (effective_delay delay) n)
           (prepare_missing E ps) (release_partition_lock E) preparation_outcome) (tr @ clock)"
    using preparePartitions_run by blast
  have quiet: "list_all (\<lambda>e. \<not> partition_lock_held e \<and> \<not> partition_lock_freed e) clock"
    using clock by (auto simp: list_all_iff)
  show ?thesis
  proof (cases "check_partitions ps []")
    case (Inl e)
    with quiet show ?thesis unfolding run by (auto simp: lift_sum_def seq_def raise_def lock_safe_def)
  next
    case (Inr u)
    obtain new where new: "snd (locked_section (acquire_partition_lock E (effective_deadline E tr deadline) (effective_delay delay) n)
           (prepare_missing E ps) (release_partition_lock E) preparation_outcome (tr @ clock)) = (tr @ clock) @ new"
      "lock_safe partition_lock_held partition_lock_freed new"
      using preparation.section_run by blast
    with Inr lock_safe_prefix [OF quiet new(2)] show ?thesis
      unfolding run by (auto simp: lift_sum_def seq_def ret_def)
  qed
qed

text \<open>
  With a clock that moves on, the wait for the lock ends: a round per millisecond of the
  timeout suffices, and the preparation returns or throws.
\<close>

theorem preparation_terminates:
  assumes "progressing E" "1 \<le> effective_delay delay" "nat (effective_deadline E tr deadline - env_now E tr) < n"
  shows "fst (preparePartitions localeCompare E partitions deadline delay n tr) \<noteq> Unfinished"
proof -
  obtain clock ps where run: "preparePartitions localeCompare E partitions deadline delay n tr =
       seq (lift_sum (check_partitions ps [])) (\<lambda>_.
         locked_section (acquire_partition_lock E (effective_deadline E tr deadline) (effective_delay delay) n)
           (prepare_missing E ps) (release_partition_lock E) preparation_outcome) (tr @ clock)"
    using preparePartitions_run by blast
  have "env_now E tr \<le> env_now E (tr @ clock)" by (rule progressing_append [OF assms(1)])
  then have "nat (effective_deadline E tr deadline - env_now E (tr @ clock)) < n" using assms(3) by linarith
  from acquire_finishes [OF assms(1,2) this] show ?thesis
    unfolding run
    using preparation.section_run [of E "effective_deadline E tr deadline" "effective_delay delay" n ps preparation_outcome "tr @ clock"]
    by (cases "check_partitions ps []") (auto simp: lift_sum_def seq_def ret_def raise_def)
qed

subsection \<open>A return means prepared\<close>

text \<open>What a created partition leaves in the trace.\<close>

definition created_and_attached :: "DailyPartition \<Rightarrow> trace \<Rightarrow> bool" where
  "created_and_attached p new \<longleftrightarrow>
     (\<exists>structural. buildPartitionStructuralSql p = Inr structural \<and>
        list_ex (answered (create_sql structural)) new \<and> list_ex (answered (attach_sql structural)) new)"

lemma statements_done:
  "ensures (partition_statements E p structural) (answered (create_sql structural))"
  "ensures (partition_statements E p structural) (answered (attach_sql structural))"
  unfolding partition_statements_def Let_def
  by (rule ensures_next, (intro append_rules; simp), rule ensures_first, rule ensures_query, (intro append_rules; simp))
    (rule ensures_next, (intro append_rules; simp), rule ensures_next, (intro append_rules; simp),
      rule ensures_next, (intro append_rules; simp), rule ensures_next, (intro append_rules; simp),
      rule ensures_option, rule ensures_raise, rule ensures_next, (intro append_rules; simp),
      rule ensures_first, rule ensures_query, (intro append_rules; simp))

lemma prepare_done:
  "spec (preparePartition E p) (\<lambda>tr r new. r = Ret () \<longrightarrow> committed (created_and_attached p) new)"
proof (cases "buildPartitionStructuralSql p")
  case (Inl e)
  then show ?thesis
    by (auto simp: preparePartition_def lift_sum_def seq_def raise_def intro!: specI)
next
  case (Inr structural)
  have work: "spec (partition_statements E p structural) (\<lambda>tr r new. r = Ret () \<longrightarrow> created_and_attached p new)"
    using spec_conj [OF statements_done(1) [unfolded ensures_def, of E p structural]
        statements_done(2) [unfolded ensures_def, of E p structural]]
    by (rule spec_weaken) (use Inr in \<open>auto simp: created_and_attached_def\<close>)
  have "spec (in_transaction E (partition_statements E p structural) PartitionPreparationError)
      (\<lambda>tr r new. r = Ret () \<longrightarrow> committed (created_and_attached p) new)"
    using transaction_spec [OF tame_weaken [OF tame_statements [OF Inr] inner_statement_plain] work]
    by (rule spec_weaken) (auto simp: transaction_events_def)
  with Inr show ?thesis by (simp add: preparePartition_def lift_sum_def seq_def ret_def)
qed

text \<open>What a return of the body says of each partition.\<close>

definition prepared :: "DailyPartition list \<Rightarrow> trace \<Rightarrow> bool" where
  "prepared partitions new \<longleftrightarrow>
     (\<exists>result rows existing. EvQuery READ_PARTITIONS_SQL [] (Inr result) \<in> set new \<and>
        result_rows result = Inr rows \<and> read_existing rows = Inr existing \<and>
        (\<forall>p\<in>set partitions. partition_name p \<in> set existing \<or> inside (committed (created_and_attached p)) new))"

lemma missing_done:
  "spec (prepare_missing E partitions) (\<lambda>tr r new. r = Ret () \<longrightarrow> prepared partitions new)"
proof (rule specI)
  fix tr
  let ?r = "env_query E tr READ_PARTITIONS_SQL []" and ?run = "prepare_missing E partitions tr"
  let ?ev = "EvQuery READ_PARTITIONS_SQL [] ?r"
  obtain new where new: "snd ?run = tr @ new"
    using tame_missing unfolding tame_def by (metis specE)
  have "prepared partitions new" if ret: "fst ?run = Ret ()"
  proof -
    obtain result where result: "?r = Inr result"
      using ret by (cases ?r) (simp_all add: prepare_missing_def seq_def run_query)
    obtain rows where rows: "result_rows result = Inr rows"
      using ret result by (cases "result_rows result") (simp_all add: prepare_missing_def seq_def run_query lift_sum_def raise_def)
    obtain existing where existing: "read_existing rows = Inr existing"
      using ret result rows
      by (cases "read_existing rows") (simp_all add: prepare_missing_def seq_def run_query lift_sum_def raise_def ret_def)
    let ?one = "\<lambda>p. if partition_name p \<in> set existing then ret () else preparePartition E p"
    have run: "?run = for_each ?one partitions (tr @ [?ev])"
      using result rows existing by (simp add: prepare_missing_def seq_def run_query lift_sum_def ret_def)
    have "spec (?one p) (\<lambda>tr r new. r = Ret () \<longrightarrow> partition_name p \<in> set existing \<or> committed (created_and_attached p) new)" for p
      by (rule spec_if) (auto intro: spec_ret spec_weaken [OF prepare_done])
    then have "spec (for_each ?one partitions) (\<lambda>tr r new. r = Ret () \<longrightarrow>
        (\<forall>p\<in>set partitions. inside (\<lambda>new. partition_name p \<in> set existing \<or> committed (created_and_attached p) new) new))"
      by (rule spec_for_each)
    then obtain rest where rest: "snd (for_each ?one partitions (tr @ [?ev])) = (tr @ [?ev]) @ rest"
      "fst (for_each ?one partitions (tr @ [?ev])) = Ret () \<longrightarrow>
        (\<forall>p\<in>set partitions. inside (\<lambda>new. partition_name p \<in> set existing \<or> committed (created_and_attached p) new) rest)"
      by (rule specE)
    have "new = ?ev # rest" using new rest(1) run by simp
    moreover have "partition_name p \<in> set existing \<or> inside (committed (created_and_attached p)) (?ev # rest)"
      if "p \<in> set partitions" for p
      using rest(2) ret run that by (auto simp: inside_def) (metis append_Cons)
    ultimately show ?thesis unfolding prepared_def using result rows existing by auto
  qed
  with new show "\<exists>new. snd ?run = tr @ new \<and> (fst ?run = Ret () \<longrightarrow> prepared partitions new)" by blast
qed

lemma prepared_inside:
  assumes "inside (prepared ps) new" "set ps = set partitions"
  shows "prepared partitions new"
proof -
  obtain a mid b where new: "new = a @ mid @ b" and "prepared ps mid" using assms(1) by (auto simp: inside_def)
  then show ?thesis
    unfolding prepared_def using assms(2) inside_append [of _ mid a b] by (force simp: new)
qed

lemma emits_acquire: "emits (acquire_partition_lock E deadline delay n) (\<lambda>e. True)"
  unfolding acquire_partition_lock_def try_partition_lock_def
  by (intro emits_poll emits_sleep tame_emits [OF tame_try_lock]) simp_all

lemma preparePartitions_prepared:
  assumes "fst (preparePartitions localeCompare E partitions deadline delay n tr) = Ret ()"
  shows "\<exists>new. snd (preparePartitions localeCompare E partitions deadline delay n tr) = tr @ new \<and>
    prepared partitions new"
proof -
  obtain clock ps where
    run: "preparePartitions localeCompare E partitions deadline delay n tr =
       seq (lift_sum (check_partitions ps [])) (\<lambda>_.
         locked_section (acquire_partition_lock E (effective_deadline E tr deadline) (effective_delay delay) n)
           (prepare_missing E ps) (release_partition_lock E) preparation_outcome) (tr @ clock)"
    and ps: "set ps = set partitions"
    using preparePartitions_run by blast
  let ?section = "locked_section (acquire_partition_lock E (effective_deadline E tr deadline) (effective_delay delay) n)
       (prepare_missing E ps) (release_partition_lock E) preparation_outcome"
  have "spec ?section (\<lambda>tr r new. \<forall>b. r = Ret b \<longrightarrow>
      (\<exists>a u. preparation_outcome (Inr a) u = Inr b \<and> inside (prepared ps) new))"
  proof (rule section_done)
    show "emits (release_partition_lock E) (\<lambda>e. True)"
      unfolding release_partition_lock_def by (rule emits_free_lock)
    show "spec (prepare_missing E ps) (\<lambda>tr r new. \<forall>a. r = Ret a \<longrightarrow> prepared ps new)"
      using missing_done by (rule spec_weaken) simp
  qed (auto simp: preparation_outcome_def emits_acquire split: sum.splits)
  then obtain new where new: "snd (?section (tr @ clock)) = (tr @ clock) @ new"
    "\<forall>b. fst (?section (tr @ clock)) = Ret b \<longrightarrow>
      (\<exists>a u. preparation_outcome (Inr a) u = Inr b \<and> inside (prepared ps) new)"
    by (rule specE)
  have "check_partitions ps [] = Inr ()" using assms unfolding run
    by (cases "check_partitions ps []") (simp_all add: lift_sum_def seq_def raise_def)
  then have eq: "preparePartitions localeCompare E partitions deadline delay n tr = ?section (tr @ clock)"
    unfolding run by (simp add: lift_sum_def seq_def ret_def)
  then have "inside (prepared ps) (clock @ new)"
    using new(2) assms by (auto intro: inside_appends)
  from prepared_inside [OF this ps] show ?thesis
    unfolding eq using new(1) by auto
qed

text \<open>
  C22. When the preparation returns, every planned partition was among the names read under the
  lock, or its creation and its attachment were both answered in a transaction whose commit was
  answered.
\<close>

theorem return_means_prepared:
  assumes "fst (preparePartitions localeCompare E partitions deadline delay n tr) = Ret ()"
  shows "\<exists>new. snd (preparePartitions localeCompare E partitions deadline delay n tr) = tr @ new \<and>
    prepared partitions new"
  using assms by (rule preparePartitions_prepared)

subsection \<open>Witnesses\<close>

text \<open>A database that grants every lock and has no partition yet.\<close>

definition willing_database :: "jsstr \<Rightarrow> throw + jsval" where
  "willing_database sql =
     (let one = (\<lambda>k b. Inr (plain [(js ''rows'', JArr [plain [(js k, JBool b)]])]))
      in if sql = TRY_LOCK_SQL then one ''acquired'' True
         else if sql = UNLOCK_SQL then one ''released'' True
         else if sql = OVERLAP_SQL then one ''has_overlap'' False
         else Inr (plain [(js ''rows'', JArr [])]))"

definition example_partition :: DailyPartition where "example_partition = day_partition 20678"

theorem preparation_terminates_witness:
  "fst (preparePartitions (\<lambda>l r. 0) (waiting_env (\<lambda>sql. Inl reading_undefined)) [example_partition] None None 30001 []) \<noteq> Unfinished"
  by (rule preparation_terminates [OF progressing_waiting])
    (simp_all add: effective_delay_def effective_deadline_def PARTITION_RETRY_DELAY_MS_def PARTITION_LOCK_TIMEOUT_MS_def)

lemma example_partition_ok: "assertDailyPartition example_partition = Inr ()"
  unfolding example_partition_def by (rule day_partition_ok(1)) (simp_all add: four_digit_day_def)

lemma answers:
  "willing_database TRY_LOCK_SQL = Inr (plain [(js ''rows'', JArr [plain [(js ''acquired'', JBool True)]])])"
  "willing_database UNLOCK_SQL = Inr (plain [(js ''rows'', JArr [plain [(js ''released'', JBool True)]])])"
  "willing_database OVERLAP_SQL = Inr (plain [(js ''rows'', JArr [plain [(js ''has_overlap'', JBool False)]])])"
  "willing_database READ_PARTITIONS_SQL = Inr (plain [(js ''rows'', JArr [])])"
  "sql \<noteq> TRY_LOCK_SQL \<Longrightarrow> sql \<noteq> UNLOCK_SQL \<Longrightarrow> sql \<noteq> OVERLAP_SQL \<Longrightarrow>
     willing_database sql = Inr (plain [(js ''rows'', JArr [])])"
  by (simp_all add: willing_database_def TRY_LOCK_SQL_def UNLOCK_SQL_def OVERLAP_SQL_def READ_PARTITIONS_SQL_def
      sql_text_def sql_lines_def js_def cu_def)

lemma reading: "result_rows (plain [(js ''rows'', JArr rows)]) = Inr rows"
   "only_boolean [plain [(js k, JBool b)]] (js k) = Some b"
  by (simp_all add: result_rows_def only_boolean_def boolean_property_def)

lemma willing_query: "query (waiting_env willing_database) sql ps tr =
    (sum_outcome (willing_database sql), tr @ [EvQuery sql ps (willing_database sql)])"
  by (simp add: run_query waiting_env_def quiet_env_def)

lemma waiting_clock: "env_now (waiting_env answer) tr = slept tr"
  by (simp add: waiting_env_def)

lemma willing_other:
  "hd sql \<noteq> cu CHR ''S'' \<Longrightarrow> hd (tl sql) \<noteq> cu CHR ''S'' \<Longrightarrow> willing_database sql = Inr (plain [(js ''rows'', JArr [])])"
  by (rule answers(5)) (auto simp: TRY_LOCK_SQL_def UNLOCK_SQL_def OVERLAP_SQL_def sql_text_def js_def cu_def)

lemma example_run:
  "fst (preparePartitions (\<lambda>l r. 0) (waiting_env willing_database) [example_partition] None None 1 []) = Ret ()"
proof -
  obtain structural where structural: "buildPartitionStructuralSql example_partition = Inr structural"
    using example_partition_ok by (auto simp: buildPartitionStructuralSql_def Let_def)
  then have "hd (create_sql structural) \<noteq> cu CHR ''S'' \<and> hd (tl (create_sql structural)) \<noteq> cu CHR ''S''"
    "hd (attach_sql structural) \<noteq> cu CHR ''S'' \<and> hd (tl (attach_sql structural)) \<noteq> cu CHR ''S''"
    using example_partition_ok by (auto simp: buildPartitionStructuralSql_def Let_def sql_lines_def js_def cu_def)
  then have starts: "willing_database (create_sql structural) = Inr (plain [(js ''rows'', JArr [])])"
    "willing_database (attach_sql structural) = Inr (plain [(js ''rows'', JArr [])])"
    by (blast intro: willing_other)+
  have "hd BEGIN_SQL \<noteq> cu CHR ''S'' \<and> hd (tl BEGIN_SQL) \<noteq> cu CHR ''S''"
    "hd COMMIT_SQL \<noteq> cu CHR ''S'' \<and> hd (tl COMMIT_SQL) \<noteq> cu CHR ''S''"
    "hd LOCK_DEFAULT_SQL \<noteq> cu CHR ''S'' \<and> hd (tl LOCK_DEFAULT_SQL) \<noteq> cu CHR ''S''"
    by (simp_all add: BEGIN_SQL_def COMMIT_SQL_def LOCK_DEFAULT_SQL_def js_def cu_def)
  then have others: "willing_database BEGIN_SQL = Inr (plain [(js ''rows'', JArr [])])"
    "willing_database COMMIT_SQL = Inr (plain [(js ''rows'', JArr [])])"
    "willing_database LOCK_DEFAULT_SQL = Inr (plain [(js ''rows'', JArr [])])"
    by (blast intro: willing_other)+
  show ?thesis
    by (simp add: preparePartitions_def acquire_partition_lock_def locked_section_def try_partition_lock_def try_lock_def
        free_lock_def release_partition_lock_def prepare_missing_def preparePartition_def in_transaction_def
        partition_statements_def Let_def sort_with_def seq_def attempt_def handle_def lift_sum_def ret_def raise_def
        willing_query answers(1-4) starts others reading structural example_partition_ok now_def call_def
        waiting_clock slept_def PARTITION_LOCK_TIMEOUT_MS_def read_existing_def preparation_outcome_def)
qed

theorem return_means_prepared_witness:
  "\<exists>new. snd (preparePartitions (\<lambda>l r. 0) (waiting_env willing_database) [example_partition] None None 1 []) = new \<and>
    prepared [example_partition] new"
  using return_means_prepared [OF example_run] by auto

end
