(* ===== verification/Startup.thy ===== *)
theory Startup
  imports Config MigrationRunner PartitionPreparer
begin

section \<open>Starting up (\<open>src/server.ts\<close>, \<open>src/database/wait-for-database.ts\<close>, \<open>src/database/database-pool.ts\<close>)\<close>

text \<open>
  The configurations are loaded, the owner's connection migrates the schema and prepares the
  partitions, and only then the runtime waits for the database with its own role and checks that
  role. The lemmas show that the start ends when the clock moves on, and that it reaches the
  runtime only after the migrations and the partitions.
\<close>

subsection \<open>Waiting for the database\<close>

text \<open>One round of the wait: the probe raced against the time left is one call.\<close>

primrec wait_loop :: "env \<Rightarrow> int \<Rightarrow> int \<Rightarrow> int \<Rightarrow> nat \<Rightarrow> int io" where
  "wait_loop E deadline delay attempts 0 = unfinished"
| "wait_loop E deadline delay attempts (Suc n) =
     seq (now E) (\<lambda>t.
       if deadline - t \<le> 0 then raise DatabaseStartupTimeoutError
       else seq (attempt (timed E (deadline - t))) (\<lambda>r.
         case r of
           Inr u \<Rightarrow> ret (attempts + 1)
         | Inl e \<Rightarrow>
             if e = DatabaseStartupTimeoutError then raise e
             else seq (now E) (\<lambda>t.
               if deadline - t \<le> 0 then raise DatabaseStartupTimeoutError
               else seq (sleep E (min delay (deadline - t))) (\<lambda>_.
                 wait_loop E deadline delay (attempts + 1) n))))"

definition waitForDatabase :: "env \<Rightarrow> int \<Rightarrow> int \<Rightarrow> nat \<Rightarrow> int io" where
  "waitForDatabase E timeoutMs delay n =
     seq (now E) (\<lambda>t. wait_loop E (t + timeoutMs) delay 0 n)"

subsection \<open>The runtime role\<close>

definition PROBE_SQL :: jsstr where "PROBE_SQL = js ''SELECT 1''"

definition probeDatabase :: "env \<Rightarrow> unit io" where
  "probeDatabase E = seq (query E PROBE_SQL []) (\<lambda>_. ret ())"

definition VERIFY_RUNTIME_SQL :: jsstr where
  "VERIFY_RUNTIME_SQL = sql_lines
    [js ''SELECT'',
     js ''  current_user AS role_name,'',
     js ''  roles.rolsuper AS is_superuser,'',
     js ''  has_schema_privilege(current_user, '' @ single_quoted ''logstream'' @ js '', '' @ single_quoted ''USAGE'' @ js '') AS can_use_application_schema,'',
     js ''  has_schema_privilege(current_user, '' @ single_quoted ''logstream'' @ js '', '' @ single_quoted ''CREATE'' @ js '') AS can_create_in_application_schema,'',
     js ''  has_schema_privilege(current_user, '' @ single_quoted ''logstream_migrations'' @ js '', '' @ single_quoted ''USAGE'' @ js '') AS can_use_migration_schema'',
     js ''FROM pg_roles AS roles'',
     js ''WHERE roles.rolname = current_user'',
     []]"

record RuntimeVerificationRow =
  role_name :: jsstr
  is_superuser :: bool
  can_use_application_schema :: bool
  can_create_in_application_schema :: bool
  can_use_migration_schema :: bool

definition isRuntimeVerificationRow :: "jsval \<Rightarrow> RuntimeVerificationRow option" where
  "isRuntimeVerificationRow v =
     (if \<not> is_record v then None
      else case get_prop v (js ''role_name'') of
          JStr name \<Rightarrow>
            (case (boolean_property v (js ''is_superuser''), boolean_property v (js ''can_use_application_schema''),
                   boolean_property v (js ''can_create_in_application_schema''), boolean_property v (js ''can_use_migration_schema'')) of
               (Some super, Some uses, Some creates, Some migrates) \<Rightarrow>
                 Some \<lparr>role_name = name, is_superuser = super, can_use_application_schema = uses,
                       can_create_in_application_schema = creates, can_use_migration_schema = migrates\<rparr>
             | _ \<Rightarrow> None)
        | _ \<Rightarrow> None)"

definition runtime_role_ok :: "jsval \<Rightarrow> jsval list \<Rightarrow> bool" where
  "runtime_role_ok rowCount rows =
     (rowCount = jint 1 \<and>
      (case rows of
         [] \<Rightarrow> False
       | candidate # _ \<Rightarrow>
           (case isRuntimeVerificationRow candidate of
              None \<Rightarrow> False
            | Some row \<Rightarrow>
                role_name row = js ''logstream_runtime'' \<and> \<not> is_superuser row \<and> can_use_application_schema row \<and>
                \<not> can_create_in_application_schema row \<and> \<not> can_use_migration_schema row)))"

definition verifyRuntimeDatabase :: "env \<Rightarrow> unit io" where
  "verifyRuntimeDatabase E =
     handle
       (seq (query E VERIFY_RUNTIME_SQL []) (\<lambda>result.
        seq (lift_sum (result_rows result)) (\<lambda>rows.
          if runtime_role_ok (get_prop result (js ''rowCount'')) rows then ret ()
          else raise RuntimeDatabaseVerificationError)))
       (\<lambda>e. raise RuntimeDatabaseVerificationError)"

subsection \<open>The main program\<close>

text \<open>\<open>afterMigrations\<close>: the partitions of the configured period, with the owner's connection.\<close>

definition prepare_after ::
    "(jsstr \<Rightarrow> jsstr \<Rightarrow> int) \<Rightarrow> env \<Rightarrow> DatabaseConfig \<Rightarrow> nat \<Rightarrow> int \<Rightarrow> int \<Rightarrow> unit io" where
  "prepare_after localeCompare E config n deadline delay =
     seq (now E) (\<lambda>t.
     seq (lift_sum (buildPartitionPlan (Some t) (JFin (of_int (retentionDays config))))) (\<lambda>partitions.
       preparePartitions localeCompare E partitions (Some deadline) (Some delay) n))"

definition migrate_database ::
    "(jsstr \<Rightarrow> jsstr \<Rightarrow> int) \<Rightarrow> env \<Rightarrow> jsstr \<Rightarrow> DatabaseConfig \<Rightarrow> nat \<Rightarrow> int list io" where
  "migrate_database localeCompare E directory config n =
     runMigrationsWithOwnerRetry E (loadMigrations E directory) (prepare_after localeCompare E config n)
       (startupTimeoutMs config) (retryDelayMs config) n"

text \<open>The database part of \<open>startRuntime\<close>; after a failure the pool is ended.\<close>

definition connect_runtime :: "env \<Rightarrow> DatabaseConfig \<Rightarrow> nat \<Rightarrow> int io" where
  "connect_runtime E config n =
     handle
       (seq (waitForDatabase E (startupTimeoutMs config) (retryDelayMs config) n) (\<lambda>attempts.
        seq (verifyRuntimeDatabase E) (\<lambda>_. ret attempts)))
       (\<lambda>e. seq (end_connection E) (\<lambda>_. raise e))"

definition start_up ::
    "(jsstr \<Rightarrow> jsstr \<Rightarrow> int) \<Rightarrow> (jsstr \<Rightarrow> parsed_url option) \<Rightarrow> env \<Rightarrow> jsstr \<Rightarrow> jsval \<Rightarrow> nat \<Rightarrow> int io" where
  "start_up localeCompare parse_url E directory environment n =
     seq (lift_sum (loadConfig environment)) (\<lambda>config.
     seq (lift_sum (loadDatabaseConfig parse_url environment)) (\<lambda>databaseConfig.
       migrateBeforeRuntime (migrate_database localeCompare E directory databaseConfig n)
         (connect_runtime E databaseConfig n)))"

subsection \<open>The wait is a retry loop\<close>

definition probe_once :: "env \<Rightarrow> int \<Rightarrow> unit option io" where
  "probe_once E remaining =
     seq (attempt (timed E remaining)) (\<lambda>r.
       case r of Inr u \<Rightarrow> ret (Some ())
       | Inl e \<Rightarrow> if e = DatabaseStartupTimeoutError then raise e else ret None)"

definition forget :: "'a io \<Rightarrow> unit io" where
  "forget m = seq m (\<lambda>_. ret ())"

lemma wait_loop_poll:
  "forget (wait_loop E deadline delay attempts n) tr =
   forget (poll E deadline delay DatabaseStartupTimeoutError (sleep E) (probe_once E) n) tr"
proof (induction n arbitrary: attempts tr)
  case 0
  then show ?case by (simp add: forget_def seq_def unfinished_def)
next
  case (Suc n)
  then show ?case
    by (simp add: forget_def seq_def now_def call_def probe_once_def attempt_def ret_def raise_def Let_def
        split: outcome.splits prod.splits sum.splits option.splits)
qed

lemma forget_unfinished: "fst (forget m tr) = Unfinished \<longleftrightarrow> fst (m tr) = Unfinished"
  by (auto simp: forget_def seq_def ret_def split: outcome.splits prod.splits)

lemma tame_probe: "tame (probe_once E remaining) (\<lambda>e. True)"
  unfolding probe_once_def by (intro tame_rules tame_timed tame_sum) simp_all

lemma waitForDatabase_finishes:
  assumes "progressing E" "1 \<le> delay" "nat timeoutMs < n"
  shows "fst (waitForDatabase E timeoutMs delay n tr) \<noteq> Unfinished"
proof -
  let ?tr = "tr @ [EvNow (env_now E tr)]" and ?d = "env_now E tr + timeoutMs"
  have "env_now E tr \<le> env_now E ?tr" by (rule progressing_append [OF assms(1)])
  then have "nat (?d - env_now E ?tr) < n" using assms(3) by linarith
  from poll_finishes [OF assms(1) sleeps_sleep tame_finishes [OF tame_probe] assms(2) this]
  have "fst (forget (wait_loop E ?d delay 0 n) ?tr) \<noteq> Unfinished"
    unfolding wait_loop_poll forget_unfinished .
  then have "fst (wait_loop E ?d delay 0 n ?tr) \<noteq> Unfinished" unfolding forget_unfinished .
  then show ?thesis by (simp add: waitForDatabase_def seq_now)
qed

lemma tame_verify: "tame (verifyRuntimeDatabase E) (\<lambda>e. True)"
  unfolding verifyRuntimeDatabase_def by (intro tame_rules) simp_all

subsection \<open>The start ends\<close>

lemma preparePartitions_finishes:
  assumes "progressing E" "1 \<le> delay" "nat (deadline - env_now E tr) < n"
  shows "fst (preparePartitions localeCompare E partitions (Some deadline) (Some delay) n tr) \<noteq> Unfinished"
  using acquire_finishes [OF assms] preparation.section_run [of E deadline delay n _ preparation_outcome tr]
  by (auto simp: preparePartitions_def Let_def seq_def ret_def lift_sum_def raise_def split: sum.splits)

lemma prepare_after_finishes:
  assumes "progressing E" "1 \<le> delay" "nat (deadline - env_now E tr) < n"
  shows "fst (prepare_after localeCompare E config n deadline delay tr) \<noteq> Unfinished"
proof -
  let ?tr = "tr @ [EvNow (env_now E tr)]"
  have "env_now E tr \<le> env_now E ?tr" by (rule progressing_append [OF assms(1)])
  then have "nat (deadline - env_now E ?tr) < n" using assms(3) by linarith
  from preparePartitions_finishes [OF assms(1,2) this] show ?thesis
    unfolding prepare_after_def seq_now
    by (cases "buildPartitionPlan (Some (env_now E tr)) (JFin (of_int (retentionDays config)))")
      (simp_all add: seq_def lift_sum_def ret_def raise_def)
qed

lemma migrate_database_finishes:
  assumes clock: "progressing E" and config: "wf_database_config config" and n: "300000 < n"
  shows "fst (migrate_database localeCompare E directory config n tr) \<noteq> Unfinished"
proof -
  have delay: "1 \<le> retryDelayMs config" and rounds: "nat (startupTimeoutMs config) < n"
    using config n by (auto simp: wf_database_config_def)
  show ?thesis
    unfolding migrate_database_def
  proof (rule owner_retry_finishes [OF clock delay rounds])
    fix tr'
    assume "env_now E tr \<le> env_now E tr'"
    then have "nat (env_now E tr + startupTimeoutMs config - env_now E tr') < n" using rounds by linarith
    then show "fst (prepare_after localeCompare E config n (env_now E tr + startupTimeoutMs config) (retryDelayMs config) tr') \<noteq> Unfinished"
      by (rule prepare_after_finishes [OF clock delay])
  qed
qed

lemma connect_runtime_finishes:
  assumes clock: "progressing E" and config: "wf_database_config config" and n: "300000 < n"
  shows "fst (connect_runtime E config n tr) \<noteq> Unfinished"
proof -
  have delay: "1 \<le> retryDelayMs config" and rounds: "nat (startupTimeoutMs config) < n"
    using config n by (auto simp: wf_database_config_def)
  have "fst (seq (waitForDatabase E (startupTimeoutMs config) (retryDelayMs config) n) (\<lambda>attempts.
        seq (verifyRuntimeDatabase E) (\<lambda>_. ret attempts)) tr) \<noteq> Unfinished"
    by (intro not_unfinished_seq waitForDatabase_finishes [OF clock delay rounds] tame_run [OF tame_verify])
      (simp add: ret_def)
  moreover have "fst (seq (end_connection E) (\<lambda>_. raise e) tr' :: int outcome \<times> trace) \<noteq> Unfinished" for e tr'
    by (rule tame_run [where P = "\<lambda>e. True"]) (intro tame_rules tame_end; simp)
  ultimately show ?thesis
    unfolding connect_runtime_def handle_def by (auto split: outcome.splits prod.splits)
qed

text \<open>
  C11. The start always ends: with a clock that moves on, for any environment variables, any
  database and any files, 300001 rounds suffice for every waiting loop of the start, which
  returns or throws; the largest startup timeout the configuration accepts is 300 seconds.
\<close>

theorem start_up_terminates:
  assumes "progressing E"
  shows "fst (start_up localeCompare parse_url E directory environment 300001 tr) \<noteq> Unfinished"
proof (cases "loadDatabaseConfig parse_url environment")
  case (Inl e)
  then show ?thesis
    by (auto simp: start_up_def lift_sum_def seq_def ret_def raise_def split: sum.splits)
next
  case (Inr config)
  note wf = loaded_database_config [OF Inr]
  have "fst (migrateBeforeRuntime (migrate_database localeCompare E directory config 300001)
      (connect_runtime E config 300001) tr) \<noteq> Unfinished"
    unfolding migrateBeforeRuntime_def
    by (intro not_unfinished_seq migrate_database_finishes [OF assms wf] connect_runtime_finishes [OF assms wf]) simp_all
  with Inr show ?thesis
    by (auto simp: start_up_def lift_sum_def seq_def ret_def raise_def split: sum.splits)
qed

theorem start_up_terminates_witness:
  "fst (start_up (\<lambda>l r. 0) (\<lambda>u. None) (waiting_env migration_database) [] (plain []) 300001 []) \<noteq> Unfinished"
  by (rule start_up_terminates [OF progressing_waiting])

subsection \<open>Connections\<close>

lemma emits_prepare:
  assumes "\<And>sql ps r. P (EvQuery sql ps r)" "\<And>ms r. P (EvSleep ms r)" "\<And>t. P (EvNow t)"
  shows "emits (prepare_after localeCompare E config n deadline delay) P"
proof -
  have acquire: "emits (acquire_partition_lock E deadline delay n) P" for deadline delay
    unfolding acquire_partition_lock_def try_partition_lock_def
    using assms by (intro emits_poll emits_sleep tame_emits [OF tame_try_lock])
  have one: "emits (preparePartition E p) P" for p
    unfolding preparePartition_def in_transaction_def partition_statements_def Let_def
    using assms by (intro append_rules)
  have release_lock: "emits (release_partition_lock E) P"
    unfolding release_partition_lock_def free_lock_def using assms by (intro append_rules)
  have now: "emits (now E) P" unfolding now_def by (intro emits_call assms)
  show ?thesis
    unfolding prepare_after_def preparePartitions_def prepare_missing_def locked_section_def Let_def option.case
    using assms by (intro append_rules acquire one release_lock now)
qed

text \<open>
  Whatever happens while the database is migrated and the partitions are prepared, every
  connection that was opened is closed exactly once: of the connections created and the
  connections ended the same number is in the trace.
\<close>

theorem migration_connections_closed:
  assumes "fst (migrate_database localeCompare E directory config n tr) \<noteq> Unfinished"
  shows "\<exists>new. snd (migrate_database localeCompare E directory config n tr) = tr @ new \<and>
    sum_list (map connections new) = 0"
proof -
  have "weighs (migrate_database localeCompare E directory config n) connections (\<lambda>r. 0)"
    unfolding migrate_database_def by (rule weighs_owner [OF emits_prepare]) simp_all
  then show ?thesis
    unfolding weighs_def using assms by (elim specE [where tr = tr]) blast
qed

theorem migration_connections_closed_witness:
  "\<exists>new. snd (migrate_database (\<lambda>l r. 0) (waiting_env migration_database) []
      \<lparr>connectionString = [], migrationConnectionString = [], maxConnections = 1, connectionTimeoutMs = 1, queryTimeoutMs = 1,
       startupTimeoutMs = 1, retryDelayMs = 1, retentionDays = 1, retentionIntervalMs = 60000\<rparr> 300001 []) = [] @ new \<and>
    sum_list (map connections new) = 0"
  by (rule migration_connections_closed, rule migrate_database_finishes [OF progressing_waiting])
    (simp_all add: wf_database_config_def)

subsection \<open>The order of the start\<close>

text \<open>The runtime role was read and found right.\<close>

definition role_verified :: "event \<Rightarrow> bool" where
  "role_verified ev \<longleftrightarrow>
     (\<exists>result rows. ev = EvQuery VERIFY_RUNTIME_SQL [] (Inr result) \<and> result_rows result = Inr rows \<and>
        runtime_role_ok (get_prop result (js ''rowCount'')) rows)"

lemma verify_run:
  "verifyRuntimeDatabase E tr = (Ret u, tr') \<Longrightarrow> \<exists>ev. tr' = tr @ [ev] \<and> role_verified ev"
  by (cases "env_query E tr VERIFY_RUNTIME_SQL []")
    (auto simp: verifyRuntimeDatabase_def role_verified_def handle_def seq_def run_query lift_sum_def ret_def raise_def
      split: outcome.splits prod.splits sum.splits if_splits)

lemma attempt_seq_run:
  assumes "seq (attempt m) f tr = (Ret b, tr')"
  obtains r tr2 where "m tr = (case r of Inl e \<Rightarrow> Exn e | Inr a \<Rightarrow> Ret a, tr2)" "f r tr2 = (Ret b, tr')"
proof -
  obtain r tr2 where r: "attempt m tr = (Ret r, tr2)" "f r tr2 = (Ret b, tr')" using assms by (rule seq_run)
  then have "m tr = (case r of Inl e \<Rightarrow> Exn e | Inr a \<Rightarrow> Ret a, tr2)"
    by (auto simp: attempt_def split: outcome.splits prod.splits)
  with r that show ?thesis by blast
qed

lemma lift_sum_run: "lift_sum x tr = (Ret a, tr') \<longleftrightarrow> x = Inr a \<and> tr' = tr"
  by (cases x) (auto simp: lift_sum_def ret_def raise_def)

lemma now_run: "now E tr = (Ret t, tr') \<longleftrightarrow> t = env_now E tr \<and> tr' = tr @ [EvNow t]"
  by (auto simp: now_def call_def Let_def)

lemma owner_retry_run:
  assumes "runMigrationsWithOwnerRetry E (loadMigrations E directory) after timeoutMs delay n tr = (Ret versions, tr')"
    and after: "\<And>d. emits (after d delay) (\<lambda>e. True)"
  shows "\<exists>a b c deadline tr2 u. runMigrations E (loadMigrations E directory) (Some (deadline, delay)) n (tr @ a) = (Ret versions, tr @ a @ b) \<and>
    after deadline delay (tr @ a @ b) = (Ret u, tr2) \<and> tr' = tr2 @ c"
proof -
  obtain t tr1 where t: "now E tr = (Ret t, tr1)"
    and "seq (poll E (t + timeoutMs) delay (MigrationError MigrationOwnerStartupTimeoutError)
            (\<lambda>ms. handle (sleep E ms) (\<lambda>e. raise connection_error)) (open_connection E) n) (\<lambda>_.
          run_connected E (loadMigrations E directory) after (t + timeoutMs) delay n) tr1 = (Ret versions, tr')"
    using assms(1) unfolding runMigrationsWithOwnerRetry_def Let_def by (rule seq_run)
  then obtain u tr2 where wait: "poll E (t + timeoutMs) delay (MigrationError MigrationOwnerStartupTimeoutError)
            (\<lambda>ms. handle (sleep E ms) (\<lambda>e. raise connection_error)) (open_connection E) n tr1 = (Ret u, tr2)"
    and run: "run_connected E (loadMigrations E directory) after (t + timeoutMs) delay n tr2 = (Ret versions, tr')"
    by (elim seq_run)
  obtain a where a: "tr2 = tr @ a"
    using t emits_run [OF emits_poll [OF tame_emits [OF tame_open] emits_nap] wait] by (auto simp: now_run)
  from run obtain r tr3 where
    r: "seq (runMigrations E (loadMigrations E directory) (Some (t + timeoutMs, delay)) n) (\<lambda>versions.
       seq (after (t + timeoutMs) delay) (\<lambda>_. ret versions)) tr2 = (case r of Inl e \<Rightarrow> Exn e | Inr a \<Rightarrow> Ret a, tr3)"
    and fin: "seq (attempt (end_connection E)) (\<lambda>ended. lift_sum (owner_outcome r ended)) tr3 = (Ret versions, tr')"
    unfolding run_connected_def by (rule attempt_seq_run)
  obtain ended where "owner_outcome r ended = Inr versions"
    using fin by (auto elim!: seq_run simp: lift_sum_run)
  then have rv: "r = Inr versions" by (auto simp: owner_outcome_def split: sum.splits)
  obtain vs tr4 where migrate: "runMigrations E (loadMigrations E directory) (Some (t + timeoutMs, delay)) n tr2 = (Ret vs, tr4)"
    and rest: "seq (after (t + timeoutMs) delay) (\<lambda>_. ret vs) tr4 = (Ret versions, tr3)"
    using r unfolding rv sum.case by (rule seq_run)
  then obtain u' tr5 where aft: "after (t + timeoutMs) delay tr4 = (Ret u', tr5)" and "ret vs tr5 = (Ret versions, tr3)"
    by (elim seq_run)
  then have vs: "vs = versions" "tr5 = tr3" by (simp_all add: ret_def)
  obtain b where b: "tr4 = tr2 @ b" using emits_run [OF emits_migrations migrate] by auto
  have "emits (seq (attempt (end_connection E)) (\<lambda>ended. lift_sum (owner_outcome r ended))) (\<lambda>e. True)"
    by (intro emits_seq emits_attempt tame_emits [OF tame_end] emits_lift_sum) simp_all
  from emitsD [OF this fin] obtain c where c: "tr' = tr3 @ c" by blast
  show ?thesis
    using migrate aft c unfolding vs b a
    by (intro exI [of _ a] exI [of _ b] exI [of _ c] exI [of _ "t + timeoutMs"] exI [of _ tr3] exI [of _ u']) simp
qed

lemma emits_sum: "(\<And>e. emits (f e) P) \<Longrightarrow> (\<And>a. emits (g a) P) \<Longrightarrow> emits (case x of Inl e \<Rightarrow> f e | Inr a \<Rightarrow> g a) P"
  by (cases x) simp_all

lemma emits_wait: "emits (waitForDatabase E timeoutMs delay n) (\<lambda>e. True)"
proof -
  have now: "emits (now E) (\<lambda>e. True)" unfolding now_def by (rule emits_call) simp
  have loop: "emits (wait_loop E deadline delay attempts n) (\<lambda>e. True)" for deadline attempts
  proof (induction n arbitrary: attempts)
    case (Suc n)
    then show ?case
      unfolding wait_loop.simps
      by (intro emits_seq emits_if emits_raise emits_ret emits_attempt emits_sum now tame_emits [OF tame_timed] emits_sleep Suc) simp_all
  qed (simp add: emits_unfinished)
  show ?thesis unfolding waitForDatabase_def by (intro emits_seq now loop)
qed

lemma handle_raise_run:
  "handle m (\<lambda>e. seq k (\<lambda>_. raise e)) tr = (Ret b, tr') \<Longrightarrow> m tr = (Ret b, tr')"
  by (auto simp: handle_def seq_def raise_def split: outcome.splits prod.splits)

lemma start_up_parts:
  assumes "start_up localeCompare parse_url E directory environment n tr = (Ret attempts, tr')"
  obtains config u tr1 where "loadDatabaseConfig parse_url environment = Inr config"
    "migrate_database localeCompare E directory config n tr = (Ret u, tr1)"
    "connect_runtime E config n tr1 = (Ret attempts, tr')"
proof -
  obtain app t1 config t2 u tr1 where "lift_sum (loadConfig environment) tr = (Ret app, t1)"
    "lift_sum (loadDatabaseConfig parse_url environment) t1 = (Ret config, t2)"
    "migrate_database localeCompare E directory config n t2 = (Ret u, tr1)"
    "connect_runtime E config n tr1 = (Ret attempts, tr')"
    using assms unfolding start_up_def migrateBeforeRuntime_def by (elim seq_run)
  then show thesis by (intro that [of config u tr1]) (simp_all add: lift_sum_run)
qed

lemma prepare_after_done:
  assumes "prepare_after localeCompare E config n deadline delay tr = (Ret v, tr')"
  shows "\<exists>t plan new. tr' = tr @ new \<and> buildPartitionPlan (Some t) (JFin (of_int (retentionDays config))) = Inr plan \<and> prepared plan new"
proof -
  obtain t tr0 plan tr3 where "now E tr = (Ret t, tr0)"
    "lift_sum (buildPartitionPlan (Some t) (JFin (of_int (retentionDays config)))) tr0 = (Ret plan, tr3)"
    and pr: "preparePartitions localeCompare E plan (Some deadline) (Some delay) n tr3 = (Ret v, tr')"
    using assms unfolding prepare_after_def by (elim seq_run)
  then have plan: "buildPartitionPlan (Some t) (JFin (of_int (retentionDays config))) = Inr plan" "tr3 = tr @ [EvNow t]"
    by (simp_all add: lift_sum_run now_run)
  obtain new where new: "tr' = tr3 @ new" "prepared plan new"
    using preparePartitions_prepared [of localeCompare E plan "Some deadline" "Some delay" n tr3] pr by auto
  have "prepared plan (EvNow t # new)"
    by (rule prepared_inside [OF inside_appends(3) refl]) (rule inside_self [where P = "prepared plan", OF new(2)])
  with plan new(1) show ?thesis by - (rule exI [of _ t], rule exI [of _ plan], rule exI [of _ "EvNow t # new"], simp)
qed

lemma connect_runtime_done:
  assumes "connect_runtime E config n tr = (Ret attempts, tr')"
  shows "\<exists>new. tr' = tr @ new \<and> list_ex role_verified new"
proof -
  obtain w tr4 x tr5 where wait: "waitForDatabase E (startupTimeoutMs config) (retryDelayMs config) n tr = (Ret w, tr4)"
    and verify: "verifyRuntimeDatabase E tr4 = (Ret x, tr5)" and last: "ret w tr5 = (Ret attempts, tr')"
    using handle_raise_run [OF assms [unfolded connect_runtime_def]] by (elim seq_run)
  have "emits (waitForDatabase E (startupTimeoutMs config) (retryDelayMs config) n) (\<lambda>e. True)" by (rule emits_wait)
  from emitsD [OF this wait] obtain waited where "tr4 = tr @ waited" by blast
  moreover obtain ev where "tr5 = tr4 @ [ev]" "role_verified ev" using verify_run [OF verify] by blast
  ultimately show ?thesis using last by (auto simp: ret_def intro: exI [of _ "waited @ [ev]"])
qed

text \<open>
  C10. The start reaches the runtime in order: when it returns, the trace is a part in which the
  migrations were brought up to date, then a part in which every partition planned for some
  reading of the clock was prepared, then a part in which the runtime role was found right.
\<close>

theorem start_up_in_order:
  assumes "fst (start_up localeCompare parse_url E directory environment n tr) = Ret attempts"
  shows "\<exists>config versions t plan a b c.
    snd (start_up localeCompare parse_url E directory environment n tr) = tr @ a @ b @ c \<and>
    loadDatabaseConfig parse_url environment = Inr config \<and>
    buildPartitionPlan (Some t) (JFin (of_int (retentionDays config))) = Inr plan \<and>
    migrated versions a \<and> prepared plan b \<and> list_ex role_verified c"
proof -
  obtain tr' where start: "start_up localeCompare parse_url E directory environment n tr = (Ret attempts, tr')"
    using assms by (cases "start_up localeCompare parse_url E directory environment n tr") auto
  obtain config u tr1 where config: "loadDatabaseConfig parse_url environment = Inr config"
    and migrate: "migrate_database localeCompare E directory config n tr = (Ret u, tr1)"
    and runtime: "connect_runtime E config n tr1 = (Ret attempts, tr')"
    by (rule start_up_parts [OF start])
  have "emits (prepare_after localeCompare E config n d (retryDelayMs config)) (\<lambda>e. True)" for d
    by (rule emits_prepare) simp_all
  from owner_retry_run [OF migrate [unfolded migrate_database_def] this]
  obtain a b c deadline tr2 v where
    m: "runMigrations E (loadMigrations E directory) (Some (deadline, retryDelayMs config)) n (tr @ a) = (Ret u, tr @ a @ b)"
    and p: "prepare_after localeCompare E config n deadline (retryDelayMs config) (tr @ a @ b) = (Ret v, tr2)"
    and tr1: "tr1 = tr2 @ c"
    by blast
  obtain b' where "tr @ a @ b = (tr @ a) @ b'" "migrated u b'" using run_migrated [OF m] by blast
  then have migrated: "migrated u (a @ b)" by (auto intro: migrated_inside inside_appends inside_self)
  obtain t plan d where plan: "buildPartitionPlan (Some t) (JFin (of_int (retentionDays config))) = Inr plan"
    and d: "tr2 = (tr @ a @ b) @ d" "prepared plan d"
    using prepare_after_done [OF p] by blast
  obtain f where f: "tr' = tr1 @ f" "list_ex role_verified f" using connect_runtime_done [OF runtime] by blast
  have "snd (start_up localeCompare parse_url E directory environment n tr) = tr @ (a @ b) @ d @ (c @ f)"
    using start f(1) tr1 d(1) by simp
  moreover have "list_ex role_verified (c @ f)" using f(2) by simp
  ultimately show ?thesis using config plan migrated d(2) by blast
qed

text \<open>An environment that is ready: an empty history, one file, the partitions of the plan, the right role.\<close>

definition ready_database :: "jsstr \<Rightarrow> throw + jsval" where
  "ready_database sql =
     (if sql = VERIFY_RUNTIME_SQL
      then Inr (plain [(js ''rowCount'', jint 1), (js ''rows'', JArr [plain
        [(js ''role_name'', JStr (js ''logstream_runtime'')), (js ''is_superuser'', JBool False),
         (js ''can_use_application_schema'', JBool True), (js ''can_create_in_application_schema'', JBool False),
         (js ''can_use_migration_schema'', JBool False)]])])
      else if sql = READ_PARTITIONS_SQL
      then Inr (plain [(js ''rows'', JArr (map (\<lambda>d. plain [(js ''name'', JStr (partition_name (day_partition d)))]) [-1..2]))])
      else migration_database sql)"

definition ready_env :: env where
  "ready_env = one_migration\<lparr>env_query := (\<lambda>tr sql ps. ready_database sql)\<rparr>"

definition ready_environment :: jsval where
  "ready_environment = plain [(js ''RETENTION_DAYS'', JStr (js ''1''))]"

lemma ready_config:
  "\<exists>app config. loadConfig ready_environment = Inr app \<and> loadDatabaseConfig (\<lambda>u. None) ready_environment = Inr config \<and>
     retentionDays config = 1 \<and> startupTimeoutMs config = 30000 \<and> retryDelayMs config = 500"
  by (simp add: ready_environment_def loadConfig_def loadDatabaseConfig_def or_error_def read_bounded_def
      parseBoundedInteger_def parseHost_def parsePort_def parseLogLevel_def parseDatabaseUrl_def js_def cu_def Let_def
      DEFAULT_STARTUP_TIMEOUT_MS_def Config.DEFAULT_RETRY_DELAY_MS_def digits_pattern_def all_digits_def read_dec_def digit_val_def is_digit_def
      safe_int_def max_safe_integer_def)

lemma ready_query: "query ready_env sql ps tr = (sum_outcome (ready_database sql), tr @ [EvQuery sql ps (ready_database sql)])"
  by (simp add: run_query ready_env_def)

lemma ready_calls:
  "timed ready_env ms tr = (Ret (), tr @ [EvTimed ms (Inr ())])" "create_connection ready_env tr = (Ret (), tr @ [EvCreate (Inr ())])"
  "end_connection ready_env tr = (Ret (), tr @ [EvEnd (Inr ())])"
  by (simp_all add: timed_def create_connection_def end_connection_def call_def ready_env_def one_migration_def waiting_env_def quiet_env_def)

lemma ready_clock: "env_now ready_env tr = slept tr"
  by (simp add: ready_env_def one_migration_def waiting_env_def)

lemma ready_answers:
  "ready_database TRY_ACQUIRE_LOCK_SQL = Inr (plain [(js ''rows'', JArr [plain [(js ''acquired'', JBool True)]])])"
  "ready_database RELEASE_LOCK_SQL = Inr (plain [(js ''rows'', JArr [plain [(js ''released'', JBool True)]])])"
  "ready_database TRY_LOCK_SQL = Inr (plain [(js ''rows'', JArr [plain [(js ''acquired'', JBool True)]])])"
  "ready_database UNLOCK_SQL = Inr (plain [(js ''rows'', JArr [plain [(js ''released'', JBool True)]])])"
  "ready_database BEGIN_SQL = Inr (plain [(js ''rows'', JArr [])])"
  "ready_database COMMIT_SQL = Inr (plain [(js ''rows'', JArr [])])"
  "ready_database (js ''SELECT 1'') = Inr (plain [(js ''rows'', JArr [])])"
  "ready_database INITIALIZE_HISTORY_SQL = Inr (plain [(js ''rows'', JArr [])])"
  "ready_database READ_HISTORY_SQL = Inr (plain [(js ''rows'', JArr [])])"
  "ready_database INSERT_HISTORY_SQL = Inr (plain [(js ''rows'', JArr [])])"
  "ready_database READ_PARTITIONS_SQL =
     Inr (plain [(js ''rows'', JArr (map (\<lambda>d. plain [(js ''name'', JStr (partition_name (day_partition d)))]) [-1..2]))])"
  by (simp_all add: ready_database_def migration_database_def VERIFY_RUNTIME_SQL_def READ_PARTITIONS_SQL_def
      TRY_ACQUIRE_LOCK_SQL_def RELEASE_LOCK_SQL_def TRY_LOCK_SQL_def UNLOCK_SQL_def BEGIN_SQL_def COMMIT_SQL_def
      INITIALIZE_HISTORY_SQL_def READ_HISTORY_SQL_def INSERT_HISTORY_SQL_def sql_text_def sql_lines_def js_def cu_def)

lemma slept_append: "slept (tr @ new) = slept tr + slept new"
  by (simp add: slept_def)

lemma slept_awake: "slept [] = 0" "slept (EvNow t # tr) = slept tr" "slept (EvQuery sql ps r # tr) = slept tr"
  "slept (EvTimed ms u # tr) = slept tr" "slept (EvCreate u # tr) = slept tr" "slept (EvEnd u # tr) = slept tr"
  "slept (EvReaddir d rd # tr) = slept tr" "slept (EvReadFile f rf # tr) = slept tr"
  by (simp_all add: slept_def)

lemma ready_load:
  "\<exists>m. mig_version m = 1 \<and> mig_sql m = js ''SELECT 1'' \<and> (\<forall>d tr. loadMigrations ready_env d tr =
     (Ret [m], tr @ [EvReaddir d (Inr [(js ''0001_a.sql'', True)]), EvReadFile (d @ js ''/'' @ js ''0001_a.sql'') (Inr (utf8_encode (js ''SELECT 1'')))]))"
  using one_migration_plan
  by (auto simp: loadMigrations_def ready_env_def one_migration_def handle_def seq_def attempt_def ret_def read_directory_def
      read_file_def call_def lift_sum_def all_sources_def)

lemma ready_migrations:
  assumes "slept tr = 0"
  shows "\<exists>tr'. runMigrations ready_env (loadMigrations ready_env d) (Some (30000, 500)) (Suc n) tr = (Ret [1], tr') \<and> slept tr' = 0"
proof -
  obtain m where m: "mig_version m = 1" "mig_sql m = js ''SELECT 1''" and load: "\<And>d tr. loadMigrations ready_env d tr =
     (Ret [m], tr @ [EvReaddir d (Inr [(js ''0001_a.sql'', True)]), EvReadFile (d @ js ''/'' @ js ''0001_a.sql'') (Inr (utf8_encode (js ''SELECT 1'')))])"
    using ready_load by blast
  show ?thesis
    using assms
    by (simp add: runMigrations_def acquireLock_def locked_section_def try_lock_def free_lock_def releaseLock_def
        migrate_locked_def initializeHistory_def readHistory_def findPendingMigrations_def applyMigration_def
        migration_statements_def in_transaction_def migration_outcome_def history_rows_def
        Let_def seq_def attempt_def handle_def lift_sum_def ret_def raise_def now_def call_def slept_append ready_clock
        ready_query ready_answers load m result_rows_def only_boolean_def boolean_property_def slept_awake)
qed

lemma ready_days: "four_digit_day (-1)" "four_digit_day 0" "four_digit_day 1" "four_digit_day 2" "four_digit_day 3"
  by (simp_all add: four_digit_day_def)

lemma ready_check: "check_partitions (map day_partition [-1..2]) [] = Inr ()"
proof -
  have days: "[-1..2] = [-1, 0, 1, 2 :: int]" by (simp add: upto.simps)
  have differ: "partition_name (day_partition a) \<noteq> partition_name (day_partition b)"
    if "a \<noteq> b" "four_digit_day a" "four_digit_day b" for a b
    using day_partition_inject [OF that(2,3)] that(1) by blast
  show ?thesis
    using day_partition_ok(1) [of "-1"] day_partition_ok(1) [of 0] day_partition_ok(1) [of 1] day_partition_ok(1) [of 2]
    by (simp add: days ready_days differ)
qed

lemma ready_partitions:
  assumes "slept tr = 0" "retentionDays config = 1"
  shows "\<exists>tr'. prepare_after (\<lambda>l r. 0) ready_env config (Suc n) 30000 500 tr = (Ret (), tr') \<and> slept tr' = 0"
proof -
  have plan: "buildPartitionPlan (Some 0) (JFin 1) = Inr (map day_partition [-1..2])"
    using plan_days [of 1 0] ready_days by simp
  have existing: "read_existing (map (\<lambda>d. plain [(js ''name'', JStr (partition_name (day_partition d)))]) ds) =
      Inr (map (\<lambda>d. partition_name (day_partition d)) ds)" for ds
    by (induction ds) (simp_all add: read_existing_def readPartitionName_def)
  have none: "for_each (\<lambda>p. if partition_name p \<in> (\<lambda>d. partition_name (day_partition d)) ` {-1..2} then ret () else preparePartition ready_env p)
      (map day_partition ds) tr = (Ret (), tr)" if "set ds \<subseteq> {-1..2}" for ds tr
    using that by (induction ds) (simp_all add: seq_def ret_def)
  have insert: "insert_with (\<lambda>l r. 0) x ys = x # ys" for x :: DailyPartition and ys by (cases ys) simp_all
  have sorted: "sort_with (\<lambda>l r. 0) ps = ps" for ps :: "DailyPartition list" by (induction ps) (simp_all add: insert)
  show ?thesis
    using assms
    by (simp add: prepare_after_def plan preparePartitions_def acquire_partition_lock_def locked_section_def try_partition_lock_def try_lock_def
        free_lock_def release_partition_lock_def prepare_missing_def Let_def sorted seq_def attempt_def handle_def lift_sum_def ret_def raise_def
        ready_query ready_answers existing none ready_check now_def call_def ready_clock slept_append preparation_outcome_def
        result_rows_def only_boolean_def boolean_property_def slept_awake)
qed

lemma ready_runtime:
  assumes "slept tr = 0" "startupTimeoutMs config = 30000" "retryDelayMs config = 500"
  shows "\<exists>tr'. connect_runtime ready_env config (Suc n) tr = (Ret 1, tr')"
proof -
  have "ready_database VERIFY_RUNTIME_SQL = Inr (plain [(js ''rowCount'', jint 1), (js ''rows'', JArr [plain
        [(js ''role_name'', JStr (js ''logstream_runtime'')), (js ''is_superuser'', JBool False),
         (js ''can_use_application_schema'', JBool True), (js ''can_create_in_application_schema'', JBool False),
         (js ''can_use_migration_schema'', JBool False)]])])"
    by (simp add: ready_database_def)
  then show ?thesis
    using assms
    by (simp add: connect_runtime_def waitForDatabase_def verifyRuntimeDatabase_def runtime_role_ok_def isRuntimeVerificationRow_def
        seq_def attempt_def handle_def lift_sum_def ret_def raise_def ready_query now_def call_def ready_clock slept_append ready_calls
        result_rows_def boolean_property_def slept_awake js_def cu_def)
qed

lemma start_up_run:
  "fst (start_up (\<lambda>l r. 0) (\<lambda>u. None) ready_env (js ''m'') ready_environment 1 []) = Ret 1"
proof -
  obtain app config where config: "loadConfig ready_environment = Inr app" "loadDatabaseConfig (\<lambda>u. None) ready_environment = Inr config"
    "retentionDays config = 1" "startupTimeoutMs config = 30000" "retryDelayMs config = 500"
    using ready_config by blast
  let ?tr = "[EvNow 0, EvNow 0, EvCreate (Inr ()), EvTimed 30000 (Inr ())]"
  have "slept ?tr = 0" by (simp add: slept_awake)
  from ready_migrations [OF this, of "js ''m''" 0] obtain tr1 where
    migrations: "runMigrations ready_env (loadMigrations ready_env (js ''m'')) (Some (30000, 500)) 1 ?tr = (Ret [1], tr1)" "slept tr1 = 0"
    by auto
  from ready_partitions [OF migrations(2) config(3), of 0] obtain tr2 where
    partitions: "prepare_after (\<lambda>l r. 0) ready_env config 1 30000 500 tr1 = (Ret (), tr2)" "slept tr2 = 0"
    by auto
  have "slept (tr2 @ [EvEnd (Inr ())]) = 0" by (simp add: slept_append slept_awake partitions(2))
  from ready_runtime [OF this config(4,5), of 0] obtain tr3 where
    runtime: "connect_runtime ready_env config 1 (tr2 @ [EvEnd (Inr ())]) = (Ret 1, tr3)"
    by auto
  show ?thesis
    using migrations(1) partitions(1) runtime
    by (simp add: start_up_def config migrateBeforeRuntime_def migrate_database_def runMigrationsWithOwnerRetry_def run_connected_def
        open_connection_def owner_outcome_def Let_def ready_calls ready_clock slept_awake
        seq_def attempt_def handle_def lift_sum_def ret_def raise_def now_def call_def)
qed

theorem start_up_in_order_witness:
  "\<exists>config versions t plan a b c.
    snd (start_up (\<lambda>l r. 0) (\<lambda>u. None) ready_env (js ''m'') ready_environment 1 []) = [] @ a @ b @ c \<and>
    loadDatabaseConfig (\<lambda>u. None) ready_environment = Inr config \<and>
    buildPartitionPlan (Some t) (JFin (of_int (retentionDays config))) = Inr plan \<and>
    migrated versions a \<and> prepared plan b \<and> list_ex role_verified c"
  by (rule start_up_in_order [OF start_up_run])

end
