(* ===== verification/RetentionService.thy ===== *)
theory RetentionService
  imports Machines RetentionRepository
begin

section \<open>The retention service (\<open>src/modules/retention/retention-service.ts\<close>)\<close>

text \<open>
  The scheduler of maintenance runs: a run after the start, the next one an interval after the
  last has ended, none after the stop. The state is the closure's variables, with the timers that
  are armed and the runs that are under way; the operations are the closure's functions, and the
  step relation interleaves calls, timers and runs in every order. The lemmas show that there is
  never more than one run or timer, that the machine implements a small abstract one, that a stop
  always settles, and that the requests the service builds are the ones the repository arms.
\<close>

subsection \<open>Options\<close>

definition MIN_RETENTION_DAYS :: int where "MIN_RETENTION_DAYS = 1"
definition MAX_RETENTION_DAYS :: int where "MAX_RETENTION_DAYS = 3650"
definition MIN_INTERVAL_MS :: int where "MIN_INTERVAL_MS = 60000"
definition MAX_INTERVAL_MS :: int where "MAX_INTERVAL_MS = 86400000"

abbreviation read_option :: "jsval \<Rightarrow> string \<Rightarrow> throw + jsval" where
  "read_option v key \<equiv> readOwnEnumerableDataProperty RetentionServiceConfigurationError v (js key)"

definition readFunction :: "jsval \<Rightarrow> string \<Rightarrow> throw + unit" where
  "readFunction v key =
     or_error (read_option v key) (\<lambda>candidate.
       case candidate of JFun f \<Rightarrow> Inr () | _ \<Rightarrow> Inl RetentionServiceConfigurationError)"

definition readSafeInteger :: "jsval \<Rightarrow> int \<Rightarrow> int \<Rightarrow> throw + int" where
  "readSafeInteger v minimum maximum =
     (case safe_integer_value v of
        Some n \<Rightarrow> if n < minimum \<or> maximum < n then Inl RetentionServiceConfigurationError else Inr n
      | None \<Rightarrow> Inl RetentionServiceConfigurationError)"

text \<open>The functions of an accepted options object are those of the environment.\<close>

record RetentionServiceOptions =
  service_days :: int
  service_interval :: int

definition validateOptions :: "jsval \<Rightarrow> throw + RetentionServiceOptions" where
  "validateOptions options =
     (if \<not> is_record options then Inl RetentionServiceConfigurationError
      else
        or_error (read_option options ''repository'') (\<lambda>repository.
        or_error (or_error (read_option options ''retentionDays'') (\<lambda>v. readSafeInteger v MIN_RETENTION_DAYS MAX_RETENTION_DAYS)) (\<lambda>days.
        or_error (or_error (read_option options ''retentionIntervalMs'') (\<lambda>v. readSafeInteger v MIN_INTERVAL_MS MAX_INTERVAL_MS)) (\<lambda>interval.
        or_error (read_option options ''clock'') (\<lambda>clock.
        or_error (read_option options ''timer'') (\<lambda>timer.
        or_error (read_option options ''logger'') (\<lambda>logger.
          if interval mod MIN_INTERVAL_MS \<noteq> 0 \<or> \<not> is_record repository \<or> \<not> is_record clock \<or>
             \<not> is_record timer \<or> \<not> is_record logger
          then Inl RetentionServiceConfigurationError
          else
            or_error (readFunction repository ''run'') (\<lambda>_.
            or_error (readFunction clock ''now'') (\<lambda>_.
            or_error (readFunction timer ''schedule'') (\<lambda>_.
            or_error (readFunction timer ''cancel'') (\<lambda>_.
            or_error (readFunction logger ''info'') (\<lambda>_.
            or_error (readFunction logger ''error'') (\<lambda>_.
              Inr \<lparr>service_days = days, service_interval = interval\<rparr>)))))))))))))"

subsection \<open>The request of a run\<close>

text \<open>
  A clock reading that is a safe integer stays exact when the retention period is subtracted,
  wherever the result is a valid date.
\<close>

definition buildRunInput :: "jsval \<Rightarrow> int \<Rightarrow> throw + jsval" where
  "buildRunInput reading days =
     (case safe_integer_value reading of
        None \<Rightarrow> Inl RetentionServiceConfigurationError
      | Some t \<Rightarrow>
          (case (time_clip t, time_clip (t - days * MILLISECONDS_PER_DAY)) of
             (Some reference, Some expiry) \<Rightarrow>
               or_error (buildPartitionPlan (Some reference) (JFin 1)) (\<lambda>completePlan.
                 let partitions = drop 1 completePlan
                 in if length partitions \<noteq> 3 then Inl RetentionServiceConfigurationError
                    else Inr (run_request (toISOString reference) (toISOString expiry) partitions))
           | _ \<Rightarrow> Inl RetentionServiceConfigurationError))"

subsection \<open>State\<close>

text \<open>A run waits for its microtask, then for the repository.\<close>

datatype run_phase = Queued | Working jsval

text \<open>The promise of \<open>stop\<close>: waiting for a run, if one was active, and its outcome.\<close>

datatype stop_state = NotStopped | Waits "throw option" "nat option" | Settles "throw option"

datatype service_event = RunSettled RetentionRunResult | RunFailed | RunRequested jsval

record service_state =
  started :: bool
  stopping :: bool
  timerScheduled :: bool
  scheduledHandle :: "nat option"
  activeController :: "nat option"
  activeRun :: "nat option"
  stopPromise :: stop_state
  armed :: "nat list"
  runs :: "(nat \<times> run_phase) list"
  abortedControllers :: "nat list"
  nextNumber :: nat
  service_log :: "service_event list"

definition initial_service :: service_state where
  "initial_service =
     \<lparr>started = False, stopping = False, timerScheduled = False, scheduledHandle = None, activeController = None,
      activeRun = None, stopPromise = NotStopped, armed = [], runs = [], abortedControllers = [], nextNumber = 0,
      service_log = []\<rparr>"

subsection \<open>Operations\<close>

text \<open>A timer service that refuses logs a failure; \<open>arms\<close> is its answer.\<close>

definition scheduleNext :: "bool \<Rightarrow> service_state \<Rightarrow> service_state" where
  "scheduleNext arms s =
     (if stopping s \<or> timerScheduled s then s
      else if arms
      then s\<lparr>armed := armed s @ [nextNumber s], scheduledHandle := Some (nextNumber s), timerScheduled := True,
              nextNumber := nextNumber s + 1\<rparr>
      else s\<lparr>service_log := service_log s @ [RunFailed]\<rparr>)"

definition beginRun :: "service_state \<Rightarrow> service_state" where
  "beginRun s =
     (if stopping s \<or> activeRun s \<noteq> None then s
      else s\<lparr>activeController := Some (nextNumber s), activeRun := Some (nextNumber s),
              runs := runs s @ [(nextNumber s, Queued)], nextNumber := nextNumber s + 1\<rparr>)"

text \<open>The \<open>finally\<close> of a run that has logged.\<close>

definition run_ends :: "bool \<Rightarrow> nat \<Rightarrow> service_event \<Rightarrow> service_state \<Rightarrow> service_state" where
  "run_ends arms c logged s =
     scheduleNext arms
       (s\<lparr>service_log := service_log s @ [logged], activeController := None, activeRun := None,
           runs := filter (\<lambda>r. fst r \<noteq> c) (runs s)\<rparr>)"

text \<open>The microtask of run \<open>c\<close>: the request is built and handed to the repository.\<close>

definition executeRun :: "RetentionServiceOptions \<Rightarrow> bool \<Rightarrow> jsval \<Rightarrow> nat \<Rightarrow> service_state \<Rightarrow> service_state" where
  "executeRun options arms reading c s =
     (case buildRunInput reading (service_days options) of
        Inl e \<Rightarrow> run_ends arms c RunFailed s
      | Inr request \<Rightarrow>
          s\<lparr>runs := map (\<lambda>r. if fst r = c then (c, Working request) else r) (runs s),
             service_log := service_log s @ [RunRequested request]\<rparr>)"

definition run_settles :: "bool \<Rightarrow> nat \<Rightarrow> throw + RetentionRunResult \<Rightarrow> service_state \<Rightarrow> service_state" where
  "run_settles arms c outcome s =
     run_ends arms c (case outcome of Inr result \<Rightarrow> RunSettled result | Inl e \<Rightarrow> RunFailed) s"

definition service_start :: "service_state \<Rightarrow> service_state" where
  "service_start s = (if started s \<or> stopping s then s else beginRun (s\<lparr>started := True\<rparr>))"

definition retention_timer_fires :: "nat \<Rightarrow> service_state \<Rightarrow> service_state" where
  "retention_timer_fires h s =
     beginRun (s\<lparr>armed := remove1 h (armed s), timerScheduled := False, scheduledHandle := None\<rparr>)"

text \<open>\<open>cancelled\<close> is what the timer service throws when it is asked to cancel, if it does.\<close>

definition service_stop :: "throw option \<Rightarrow> service_state \<Rightarrow> service_state" where
  "service_stop cancelled s =
     (if stopPromise s \<noteq> NotStopped then s
      else
        let s = s\<lparr>stopping := True\<rparr>;
            s' = (if \<not> timerScheduled s then s
                  else s\<lparr>armed := (case (cancelled, scheduledHandle s) of (None, Some h) \<Rightarrow> remove1 h (armed s) | _ \<Rightarrow> armed s),
                          timerScheduled := False, scheduledHandle := None\<rparr>);
            primaryError = (if timerScheduled s then cancelled else None)
        in s'\<lparr>abortedControllers := abortedControllers s' @ (case activeController s' of None \<Rightarrow> [] | Some c \<Rightarrow> [c]),
              stopPromise := Waits primaryError (activeRun s')\<rparr>)"

text \<open>After the wait: an error that is not an \<open>Error\<close> is replaced, \<open>undefined\<close> counts as none.\<close>

definition stop_outcome :: "throw option \<Rightarrow> throw option" where
  "stop_outcome primaryError =
     (case primaryError of
        None \<Rightarrow> None
      | Some e \<Rightarrow>
          if e = Foreign JUndef then None
          else if isErrorInstance (error_value e) then Some e
          else Some (ErrorMessage (js ''Retention service shutdown failed.'')))"

definition stop_settles :: "service_state \<Rightarrow> service_state" where
  "stop_settles s =
     (case stopPromise s of Waits e r \<Rightarrow> s\<lparr>stopPromise := Settles (stop_outcome e)\<rparr> | _ \<Rightarrow> s)"

text \<open>A stop can settle when the run it waits for is over.\<close>

definition stop_ready :: "service_state \<Rightarrow> bool" where
  "stop_ready s = (case stopPromise s of Waits e (Some c) \<Rightarrow> c \<notin> fst ` set (runs s) | Waits e None \<Rightarrow> True | _ \<Rightarrow> False)"

text \<open>The retention service stops before the database closes, and both always happen.\<close>

definition shutdown_outcome :: "throw + unit \<Rightarrow> throw + unit \<Rightarrow> throw + unit" where
  "shutdown_outcome stopped ended =
     (let primaryError = (case (stopped, ended) of
            (Inl e, Inl x) \<Rightarrow> if e = Foreign JUndef \<or> e = Foreign JNull then x else e
          | (Inl e, Inr u) \<Rightarrow> e
          | (Inr u, Inl x) \<Rightarrow> x
          | (Inr u, Inr v) \<Rightarrow> Foreign JUndef)
      in if primaryError = Foreign JUndef then Inr ()
         else if isErrorInstance (error_value primaryError) then Inl primaryError
         else Inl (ErrorMessage (js ''Retention shutdown failed.'')))"

definition stopRetentionBeforeDatabase :: "unit io \<Rightarrow> unit io \<Rightarrow> unit io" where
  "stopRetentionBeforeDatabase stop closeDatabase =
     seq (attempt stop) (\<lambda>stopped. seq (attempt closeDatabase) (\<lambda>ended. lift_sum (shutdown_outcome stopped ended)))"

subsection \<open>Steps\<close>

inductive service_step :: "RetentionServiceOptions \<Rightarrow> service_state \<Rightarrow> service_state \<Rightarrow> bool" for options where
  Start: "service_step options s (service_start s)"
| Stop: "service_step options s (service_stop cancelled s)"
| Fires: "h \<in> set (armed s) \<Longrightarrow> service_step options s (retention_timer_fires h s)"
| Executes: "(c, Queued) \<in> set (runs s) \<Longrightarrow> service_step options s (executeRun options arms reading c s)"
| RunOver: "(c, Working request) \<in> set (runs s) \<Longrightarrow> service_step options s (run_settles arms c outcome s)"
| StopOver: "stop_ready s \<Longrightarrow> service_step options s (stop_settles s)"

inductive_cases service_stepE: "service_step options s t"

subsection \<open>The invariant\<close>

definition runs_ok :: "service_state \<Rightarrow> bool" where
  "runs_ok s \<longleftrightarrow>
     activeController s = activeRun s \<and>
     (case activeRun s of None \<Rightarrow> runs s = [] | Some c \<Rightarrow> \<exists>ph. runs s = [(c, ph)])"

definition timers_ok :: "service_state \<Rightarrow> bool" where
  "timers_ok s \<longleftrightarrow>
     (if timerScheduled s
      then \<not> stopping s \<and> activeRun s = None \<and> (\<exists>h. scheduledHandle s = Some h \<and> armed s = [h])
      else scheduledHandle s = None \<and> (armed s = [] \<or> stopping s \<and> activeRun s = None \<and> length (armed s) = 1))"

definition stop_ok :: "service_state \<Rightarrow> bool" where
  "stop_ok s \<longleftrightarrow>
     (stopping s \<longleftrightarrow> stopPromise s \<noteq> NotStopped) \<and>
     (\<forall>c. stopping s \<longrightarrow> activeRun s = Some c \<longrightarrow>
        c \<in> set (abortedControllers s) \<and> (\<exists>e. stopPromise s = Waits e (Some c)))"

definition service_inv :: "service_state \<Rightarrow> bool" where
  "service_inv s \<longleftrightarrow>
     runs_ok s \<and> timers_ok s \<and> stop_ok s \<and> (\<not> started s \<longrightarrow> activeRun s = None \<and> armed s = [])"

lemmas service_defs = service_inv_def runs_ok_def timers_ok_def stop_ok_def

lemma beginRun_inv:
  "service_inv s \<Longrightarrow> started s \<Longrightarrow> \<not> timerScheduled s \<Longrightarrow> armed s = [] \<or> stopping s \<Longrightarrow> service_inv (beginRun s)"
  by (auto simp: beginRun_def service_defs)

lemma run_ends_inv:
  assumes "service_inv s" "(c, ph) \<in> set (runs s)"
  shows "service_inv (run_ends arms c logged s)"
proof -
  have "activeRun s = Some c" "runs s = [(c, ph)]"
    using assms by (auto simp: service_defs split: option.splits)
  with assms(1) show ?thesis
    by (auto simp: run_ends_def scheduleNext_def service_defs)
qed

lemma service_step_inv: "service_inv s \<Longrightarrow> service_step options s t \<Longrightarrow> service_inv t"
proof (erule service_stepE)
  assume inv: "service_inv s"
  show "service_inv t" if "t = service_start s"
    using inv that by (auto simp: service_start_def beginRun_def service_defs)
  show "service_inv t" if "t = service_stop cancelled s" for cancelled
    using inv that by (auto simp: service_stop_def service_defs Let_def split: option.splits)
  show "service_inv t" if "t = retention_timer_fires h s" "h \<in> set (armed s)" for h
    using inv that by (auto simp: retention_timer_fires_def beginRun_def service_defs length_Suc_conv split: if_splits)
  show "service_inv t" if "t = executeRun options arms reading c s" "(c, Queued) \<in> set (runs s)" for arms reading c
  proof (cases "buildRunInput reading (service_days options)")
    case (Inl e)
    with that inv show ?thesis by (simp add: executeRun_def run_ends_inv)
  next
    case (Inr request)
    with that inv show ?thesis by (auto simp: executeRun_def service_defs split: option.splits)
  qed
  show "service_inv t" if "t = run_settles arms c outcome s" "(c, Working request) \<in> set (runs s)" for arms c outcome request
    using inv that by (simp add: run_settles_def run_ends_inv)
  show "service_inv t" if "t = stop_settles s" "stop_ready s"
    using inv that
    by (auto simp: stop_settles_def stop_ready_def service_defs split: stop_state.splits option.splits)
qed

lemma initial_service_inv: "service_inv initial_service"
  by (simp add: initial_service_def service_defs)

interpretation retention: invariant_machine "\<lambda>s. s = initial_service" "service_step options" service_inv for options
  by unfold_locales (auto intro: initial_service_inv service_step_inv)

text \<open>
  C19. However calls, timers and runs interleave, there is never more than one maintenance run
  under way or one armed timer, and never both; a stopping service has no scheduled timer and has
  told its run to abort; and when the promise of \<open>stop\<close> has settled, no run is under way, so the
  database may be closed.
\<close>

theorem retention_one_at_a_time:
  assumes "(service_step options)\<^sup>*\<^sup>* initial_service s"
  shows "length (runs s) + length (armed s) \<le> 1 \<and>
    \<not> (stopping s \<and> timerScheduled s) \<and>
    \<not> (stopping s \<and> \<not> fst ` set (runs s) \<subseteq> set (abortedControllers s)) \<and>
    \<not> (\<exists>e. stopPromise s = Settles e \<and> runs s \<noteq> [])"
proof -
  have "service_inv s" using retention.reachable_inv [OF refl assms] .
  then show ?thesis
    by (cases "activeRun s"; cases "stopping s") (auto simp: service_defs split: if_splits)
qed

subsection \<open>Draining\<close>

text \<open>The moves of timers, runs and promises, without new calls.\<close>

inductive service_move :: "RetentionServiceOptions \<Rightarrow> service_state \<Rightarrow> service_state \<Rightarrow> bool" for options where
  "h \<in> set (armed s) \<Longrightarrow> service_move options s (retention_timer_fires h s)"
| "(c, Queued) \<in> set (runs s) \<Longrightarrow> service_move options s (executeRun options arms reading c s)"
| "(c, Working request) \<in> set (runs s) \<Longrightarrow> service_move options s (run_settles arms c outcome s)"
| "stop_ready s \<Longrightarrow> service_move options s (stop_settles s)"

inductive_cases service_moveE: "service_move options s t"

definition service_work :: "service_state \<Rightarrow> nat" where
  "service_work s =
     length (armed s) + sum_list (map (\<lambda>r. if snd r = Queued then 2 else 1) (runs s)) +
     (case stopPromise s of Waits e c \<Rightarrow> 1 | _ \<Rightarrow> 0)"

definition service_at_rest :: "service_state \<Rightarrow> bool" where
  "service_at_rest s \<longleftrightarrow> runs s = [] \<and> armed s = [] \<and> (\<exists>e. stopPromise s = Settles e)"

lemma service_move_step: "service_move options s t \<Longrightarrow> service_step options s t"
  by (erule service_moveE) (auto intro: service_step.intros)

lemma service_progress:
  assumes inv: "service_inv s" and stop: "stopping s" and busy: "\<not> service_at_rest s"
  shows "\<exists>t. service_move options s t"
proof (cases "armed s")
  case (Cons h hs)
  then show ?thesis using service_move.intros(1) [of h s] by auto
next
  case Nil
  show ?thesis
  proof (cases "activeRun s")
    case None
    then have "runs s = []" using inv by (simp add: service_defs)
    then have "stop_ready s"
      using inv stop busy Nil None
      by (auto simp: service_at_rest_def service_defs stop_ready_def split: stop_state.splits option.splits)
    then show ?thesis using service_move.intros(4) by blast
  next
    case (Some c)
    then obtain ph where "runs s = [(c, ph)]" using inv by (auto simp: service_defs)
    then show ?thesis by (cases ph) (auto intro!: exI service_move.intros(2,3))
  qed
qed

lemma service_move_work:
  assumes inv: "service_inv s" and stop: "stopping s" and move: "service_move options s t"
  shows "service_work t < service_work s \<and> stopping t"
  using move
proof (rule service_moveE)
  have one: "runs s = [(c, ph)]" if "(c, ph) \<in> set (runs s)" for c ph
    using inv that by (auto simp: service_defs split: option.splits)
  have ends: "service_work (run_ends arms c logged s) < service_work s \<and> stopping (run_ends arms c logged s)"
    if "(c, ph) \<in> set (runs s)" for arms c ph logged
    using one [OF that] stop by (simp add: run_ends_def scheduleNext_def service_work_def)
  show ?thesis if "t = retention_timer_fires h s" "h \<in> set (armed s)" for h
    using that stop length_pos_if_in_set [OF that(2)]
    by (simp add: retention_timer_fires_def beginRun_def service_work_def length_remove1)
  show ?thesis if "t = executeRun options arms reading c s" "(c, Queued) \<in> set (runs s)" for arms reading c
    using that ends [OF that(2)] one [OF that(2)] stop
    by (cases "buildRunInput reading (service_days options)") (simp_all add: executeRun_def service_work_def)
  show ?thesis if "t = run_settles arms c outcome s" "(c, Working request) \<in> set (runs s)" for arms c outcome request
    using that ends [OF that(2)] by (simp add: run_settles_def)
  show ?thesis if "t = stop_settles s" "stop_ready s"
    using that stop
    by (auto simp: stop_settles_def stop_ready_def service_work_def split: stop_state.splits)
qed

interpretation retention: draining_machine "\<lambda>s. s = initial_service" "service_step options" service_inv
    "service_move options" stopping service_at_rest service_work for options
  by unfold_locales (auto intro: service_move_step service_progress dest: service_move_work)

text \<open>
  C18. A stop comes to its end: once \<open>stop\<close> was called, at most four moves of timers, runs and
  promises remain, whatever order they come in, and when none is left the stop's promise has
  settled and neither a run nor a timer is left.
\<close>

theorem retention_stop_settles:
  assumes "(service_step options)\<^sup>*\<^sup>* initial_service s" "stopping s" "(service_move options ^^ n) s t"
  shows "n \<le> 4 \<and> (service_at_rest t \<or> (\<exists>u. service_move options t u))"
proof -
  have inv: "service_inv s" using retention.reachable_inv [OF refl assms(1)] .
  have "service_work s \<le> 4"
    using inv assms(2) by (cases "activeRun s") (auto simp: service_work_def service_defs split: stop_state.splits if_splits)
  moreover have "n + service_work t \<le> service_work s"
    using retention.run_bound [OF assms(3) inv assms(2)] by blast
  moreover have "service_at_rest t \<or> (\<exists>u. service_move options t u)"
    using retention.stuck_rests [OF assms(3) inv assms(2)] by blast
  ultimately show ?thesis by simp
qed

subsection \<open>The abstract machine\<close>

datatype phase = Idle | Running | Waiting | Stranded | Draining | Stopped

text \<open>
  What the service promises: one run after the start and one after each wait; a timer service
  that refuses strands it; a stop lets a run end and is final.
\<close>

inductive phase_step :: "phase \<Rightarrow> phase \<Rightarrow> bool" where
  "phase_step Idle Running"
| "phase_step Idle Stopped"
| "phase_step Running Waiting"
| "phase_step Running Stranded"
| "phase_step Running Draining"
| "phase_step Waiting Running"
| "phase_step Waiting Stopped"
| "phase_step Stranded Stopped"
| "phase_step Draining Stopped"

inductive_simps phase_step_simps [simp]:
  "phase_step Idle p" "phase_step Running p" "phase_step Waiting p" "phase_step Stranded p"
  "phase_step Draining p" "phase_step Stopped p"

definition phase_of :: "service_state \<Rightarrow> phase" where
  "phase_of s =
     (if stopping s then (if activeRun s = None then Stopped else Draining)
      else if \<not> started s then Idle
      else if activeRun s \<noteq> None then Running
      else if timerScheduled s then Waiting
      else Stranded)"

lemma phase_run_ends:
  "service_inv s \<Longrightarrow> (c, ph) \<in> set (runs s) \<Longrightarrow> phase_step (phase_of s) (phase_of (run_ends arms c logged s))"
  by (auto simp: run_ends_def scheduleNext_def phase_of_def service_defs split: option.splits)

lemma service_step_phase:
  assumes inv: "service_inv s" and step: "service_step options s t"
  shows "phase_of t = phase_of s \<or> phase_step (phase_of s) (phase_of t)"
  using step
proof (rule service_stepE)
  show ?thesis if "t = service_start s"
    using inv that by (auto simp: service_start_def beginRun_def phase_of_def service_defs)
  show ?thesis if "t = service_stop cancelled s" for cancelled
    using inv that by (auto simp: service_stop_def phase_of_def service_defs Let_def)
  show ?thesis if "t = retention_timer_fires h s" "h \<in> set (armed s)" for h
    using inv that by (auto simp: retention_timer_fires_def beginRun_def phase_of_def service_defs split: if_splits)
  show ?thesis if "t = executeRun options arms reading c s" "(c, Queued) \<in> set (runs s)" for arms reading c
    using that phase_run_ends [OF inv that(2)]
    by (cases "buildRunInput reading (service_days options)") (simp_all add: executeRun_def phase_of_def)
  show ?thesis if "t = run_settles arms c outcome s" "(c, Working request) \<in> set (runs s)" for arms c outcome request
    using that phase_run_ends [OF inv that(2)] by (simp add: run_settles_def)
  show ?thesis if "t = stop_settles s" "stop_ready s"
    using that by (auto simp: stop_settles_def phase_of_def split: stop_state.splits)
qed

text \<open>The phases a service goes through are a run of the abstract machine.\<close>

lemma phases_run: "(service_step options)\<^sup>*\<^sup>* initial_service s \<Longrightarrow> phase_step\<^sup>*\<^sup>* Idle (phase_of s)"
proof (induction rule: rtranclp_induct)
  case base
  then show ?case by (simp add: initial_service_def phase_of_def)
next
  case (step s t)
  have "service_inv s" using retention.reachable_inv [OF refl step(1)] .
  from service_step_phase [OF this step(2)] step(3) show ?case by (auto intro: rtranclp.rtrancl_into_rtrancl)
qed

text \<open>
  C17. The scheduler implements the abstract machine: every step of a reachable service either
  keeps its phase or is a step of the abstract machine, from the idle phase on; a run is under way
  exactly in the phases that say so.
\<close>

theorem retention_service_refines:
  assumes "(service_step options)\<^sup>*\<^sup>* initial_service s" "service_step options s t"
  shows "phase_step\<^sup>*\<^sup>* Idle (phase_of s) \<and>
    (phase_of t = phase_of s \<or> phase_step (phase_of s) (phase_of t)) \<and>
    (runs s \<noteq> [] \<longleftrightarrow> phase_of s = Running \<or> phase_of s = Draining)"
proof -
  have inv: "service_inv s" using retention.reachable_inv [OF refl assms(1)] .
  moreover have "runs s \<noteq> [] \<longleftrightarrow> phase_of s = Running \<or> phase_of s = Draining"
    using inv by (auto simp: phase_of_def service_defs split: option.splits)
  ultimately show ?thesis using phases_run [OF assms(1)] service_step_phase [OF _ assms(2)] by blast
qed

subsection \<open>What the repository and the configuration agree on\<close>

text \<open>The options \<open>startRuntime\<close> passes, with the functions it builds.\<close>

definition service_options :: "DatabaseConfig \<Rightarrow> jsval" where
  "service_options config =
     plain [(js ''repository'', plain [(js ''run'', JFun 0)]),
            (js ''retentionDays'', jint (retentionDays config)),
            (js ''retentionIntervalMs'', jint (retentionIntervalMs config)),
            (js ''clock'', plain [(js ''now'', JFun 1)]),
            (js ''timer'', plain [(js ''schedule'', JFun 2), (js ''cancel'', JFun 3)]),
            (js ''logger'', plain [(js ''info'', JFun 4), (js ''error'', JFun 5)])]"

lemma options_accepted:
  assumes "wf_database_config config"
  shows "validateOptions (service_options config) =
    Inr \<lparr>service_days = retentionDays config, service_interval = retentionIntervalMs config\<rparr>"
proof -
  have range: "safe_int (retentionDays config)" "safe_int (retentionIntervalMs config)"
    using assms by (auto simp: wf_database_config_def safe_int_def max_safe_integer_def)
  then show ?thesis
    using assms
    by (simp add: validateOptions_def service_options_def or_error_def readOwnEnumerableDataProperty_def readFunction_def
        readSafeInteger_def wf_database_config_def MIN_RETENTION_DAYS_def MAX_RETENTION_DAYS_def MIN_INTERVAL_MS_def
        MAX_INTERVAL_MS_def js_def cu_def)
qed

lemma input_accepted:
  fixes t
  defines "d \<equiv> t div ms_per_day"
  assumes days: "1 \<le> days" "days \<le> 3650" and first: "four_digit_day (d - days)" and last: "four_digit_day (d + 3)"
  shows "buildRunInput (jint t) days =
      Inr (run_request (toISOString t) (toISOString (t - days * ms_per_day)) (map day_partition [d..d + 2]))"
    "validateRequest (run_request (toISOString t) (toISOString (t - days * ms_per_day)) (map day_partition [d..d + 2])) =
      Inr \<lparr>referenceTime = toISOString t, cutoff = toISOString (t - days * ms_per_day),
           request_partitions = map day_partition [d..d + 2]\<rparr>"
proof -
  have cut: "(t - days * ms_per_day) div ms_per_day = d - days"
    using div_mult_self1 [of ms_per_day t "- days"] by (simp add: d_def)
  have yr: "four_digit_year t" "four_digit_year (t - days * ms_per_day)"
    unfolding four_digit_year_iff cut using days first last by (auto simp: d_def four_digit_day_def)
  have clips: "time_clip t = Some t" "time_clip (t - days * ms_per_day) = Some (t - days * ms_per_day)"
    using yr four_digit_year_bounds by (auto simp: time_clip_def)
  have "safe_int t" using four_digit_year_bounds [OF yr(1)] by (simp add: safe_int_def max_safe_integer_def)
  moreover have "buildPartitionPlan (Some t) (JFin 1) = Inr (map day_partition [d - 1..d + 2])"
    using plan_days [of 1 t] days first last by (simp add: d_def four_digit_day_def)
  moreover have "[d - 1..d + 2] = (d - 1) # [d..d + 2]" by (subst upto_rec1) simp_all
  ultimately show "buildRunInput (jint t) days =
      Inr (run_request (toISOString t) (toISOString (t - days * ms_per_day)) (map day_partition [d..d + 2]))"
    using clips by (simp add: buildRunInput_def or_error_def MILLISECONDS_PER_DAY_def)
  show "validateRequest (run_request (toISOString t) (toISOString (t - days * ms_per_day)) (map day_partition [d..d + 2])) =
      Inr \<lparr>referenceTime = toISOString t, cutoff = toISOString (t - days * ms_per_day),
           request_partitions = map day_partition [d..d + 2]\<rparr>"
    unfolding d_def by (rule request_accepted) (use yr days first last in \<open>auto simp: d_def four_digit_day_def\<close>)
qed

text \<open>
  Configuration, service and repository agree on their values: the options made from any
  configuration that loads pass the service's check, and for every clock reading whose days are
  in the years 0 to 9999 the request the service builds passes the repository's check, for the
  partitions of the reading's day and the two after it and the cutoff the retention period before.
\<close>

theorem retention_values_agree:
  assumes "loadDatabaseConfig parse_url environment = Inr config"
    and "four_digit_day (t div ms_per_day - retentionDays config)" "four_digit_day (t div ms_per_day + 3)"
  shows "validateOptions (service_options config) =
      Inr \<lparr>service_days = retentionDays config, service_interval = retentionIntervalMs config\<rparr> \<and>
    (\<exists>request. buildRunInput (jint t) (retentionDays config) = Inr request \<and>
       validateRequest request = Inr \<lparr>referenceTime = toISOString t,
         cutoff = toISOString (t - retentionDays config * ms_per_day),
         request_partitions = map day_partition [t div ms_per_day..t div ms_per_day + 2]\<rparr>)"
proof -
  have wf: "wf_database_config config" by (rule loaded_database_config [OF assms(1)])
  then have "1 \<le> retentionDays config" "retentionDays config \<le> 3650" by (auto simp: wf_database_config_def)
  from input_accepted [OF this assms(2,3)] options_accepted [OF wf] show ?thesis by blast
qed

subsection \<open>Shutdown\<close>

text \<open>The database is closed after the service has stopped, whatever the stop does.\<close>

lemma database_closed_after_stop:
  assumes "stop tr = (r, tr1)" "r \<noteq> Unfinished" "close tr1 = (q, tr2)" "q \<noteq> Unfinished"
  shows "snd (stopRetentionBeforeDatabase stop close tr) = tr2 \<and>
    (r = Ret () \<and> q = Ret () \<longrightarrow> fst (stopRetentionBeforeDatabase stop close tr) = Ret ())"
  using assms attempt_run [of stop, OF assms(1,2)] attempt_run [of close, OF assms(3,4)]
  by (cases r; cases q)
    (simp_all add: stopRetentionBeforeDatabase_def seq_Ret shutdown_outcome_def Let_def lift_sum_def ret_def raise_def)

subsection \<open>Witnesses\<close>

definition sample_service :: RetentionServiceOptions where
  "sample_service = \<lparr>service_days = 30, service_interval = 3600000\<rparr>"

text \<open>A service stopped while its first run waits for its turn.\<close>

definition stopped_early :: service_state where
  "stopped_early = service_stop None (service_start initial_service)"

lemma started_reachable: "(service_step sample_service)\<^sup>*\<^sup>* initial_service (service_start initial_service)"
  by (rule r_into_rtranclp) (rule service_step.Start)

lemma stopped_reachable: "(service_step sample_service)\<^sup>*\<^sup>* initial_service stopped_early"
  unfolding stopped_early_def by (rule rtranclp.rtrancl_into_rtrancl [OF started_reachable]) (rule service_step.Stop)

lemma stopped_early_state: "runs stopped_early = [(0, Queued)]" "stopping stopped_early" "started stopped_early"
  "stopPromise stopped_early = Waits None (Some 0)" "activeRun stopped_early = Some 0" "armed stopped_early = []"
  by (simp_all add: stopped_early_def service_stop_def service_start_def beginRun_def initial_service_def Let_def)

theorem retention_one_at_a_time_witness:
  "runs stopped_early = [(0, Queued)] \<and> length (runs stopped_early) + length (armed stopped_early) \<le> 1 \<and>
    \<not> (stopping stopped_early \<and> \<not> fst ` set (runs stopped_early) \<subseteq> set (abortedControllers stopped_early))"
  using retention_one_at_a_time [OF stopped_reachable] stopped_early_state(1) by simp

theorem retention_stop_settles_witness:
  "\<exists>t. (service_move sample_service ^^ 1) stopped_early t \<and> (1 :: nat) \<le> 4 \<and>
    (service_at_rest t \<or> (\<exists>u. service_move sample_service t u))"
proof -
  have "service_move sample_service stopped_early (executeRun sample_service True JUndef 0 stopped_early)"
    by (rule service_move.intros(2)) (simp add: stopped_early_state)
  then have "(service_move sample_service ^^ 1) stopped_early (executeRun sample_service True JUndef 0 stopped_early)"
    by auto
  from retention_stop_settles [OF stopped_reachable stopped_early_state(2) this] this show ?thesis by blast
qed

theorem retention_service_refines_witness:
  "phase_step\<^sup>*\<^sup>* Idle (phase_of (service_start initial_service)) \<and>
    phase_of (service_start initial_service) = Running \<and> phase_of stopped_early = Draining \<and>
    (phase_of stopped_early = phase_of (service_start initial_service) \<or>
       phase_step (phase_of (service_start initial_service)) (phase_of stopped_early))"
proof -
  have "service_step sample_service (service_start initial_service) stopped_early"
    unfolding stopped_early_def by (rule service_step.Stop)
  from retention_service_refines [OF started_reachable this] show ?thesis
    by (auto simp: phase_of_def stopped_early_state service_start_def beginRun_def initial_service_def)
qed

lemma default_config: "\<exists>config. loadDatabaseConfig (\<lambda>u. None) (plain []) = Inr config \<and> retentionDays config = 30"
  by (simp add: loadDatabaseConfig_def or_error_def read_bounded_def parseBoundedInteger_def parseDatabaseUrl_def
      DEFAULT_STARTUP_TIMEOUT_MS_def DEFAULT_RETRY_DELAY_MS_def DEFAULT_RETENTION_DAYS_def)

theorem retention_values_agree_witness:
  "\<exists>config. loadDatabaseConfig (\<lambda>u. None) (plain []) = Inr config \<and>
    validateOptions (service_options config) =
      Inr \<lparr>service_days = retentionDays config, service_interval = retentionIntervalMs config\<rparr> \<and>
    (\<exists>request. buildRunInput (jint 1786624496789) (retentionDays config) = Inr request)"
proof -
  obtain config where config: "loadDatabaseConfig (\<lambda>u. None) (plain []) = Inr config" "retentionDays config = 30"
    using default_config by blast
  have "four_digit_day (1786624496789 div ms_per_day - retentionDays config)" "four_digit_day (1786624496789 div ms_per_day + 3)"
    by (simp_all add: config(2) four_digit_day_def)
  from retention_values_agree [OF config(1) this] config(1) show ?thesis by blast
qed

end
