(* ===== verification/ServerLifecycle.thy ===== *)
theory ServerLifecycle
  imports Machines Errors
begin

section \<open>Readiness, health and shutdown (\<open>src/server-lifecycle.ts\<close>, \<open>src/shared/readiness.ts\<close>, \<open>src/routes/health.ts\<close>)\<close>

text \<open>
  The running server as one machine: the readiness flag, the health requests whose probe is under
  way, and the shutdown with its deadline, wired as \<open>src/server.ts\<close> does. Signals, calls, probes,
  closures and the deadline interleave in every order. The lemmas show that resources are closed
  once and in order, that a shutdown always comes to a verdict, and that no health request is
  answered as healthy once a shutdown has begun.
\<close>

subsection \<open>Readiness\<close>

datatype ReadinessState = Starting | Ready | Degraded | ShuttingDown

definition isReady :: "ReadinessState \<Rightarrow> bool" where
  "isReady r \<longleftrightarrow> r = Ready"

definition markReady :: "ReadinessState \<Rightarrow> ReadinessState" where
  "markReady r = (if r \<noteq> ShuttingDown then Ready else r)"

definition markUnavailable :: "ReadinessState \<Rightarrow> ReadinessState" where
  "markUnavailable r = (if r = Ready \<or> r = Degraded then Degraded else r)"

definition beginShutdown :: "ReadinessState \<Rightarrow> ReadinessState" where
  "beginShutdown r = ShuttingDown"

subsection \<open>State\<close>

datatype ShutdownSignal = SIGINT | SIGTERM

datatype ShutdownState = StateRunning | StateClosing | StateClosed | StateFailed

text \<open>How far the closing of the resources is; the outcome of the application's closure is kept.\<close>

datatype closing = NotBegun | ClosingApplication | ClosingDatabase "throw + unit" | ResourcesOver "throw + unit" "throw + unit"

datatype lifecycle_event =
    NotReadyMarked
  | ShutdownStarted ShutdownSignal
  | ApplicationClosing
  | DatabaseClosing
  | ShutdownFailed throw ShutdownSignal
  | ForceExit int
  | HealthReply int

record server =
  readiness :: ReadinessState
  probing :: nat
  lifecycle :: ShutdownState
  shutdownSignal :: "ShutdownSignal option"
  resources :: closing
  deadlineArmed :: bool
  disposed :: bool
  happened :: "lifecycle_event list"

definition initial_server :: server where
  "initial_server =
     \<lparr>readiness = Starting, probing = 0, lifecycle = StateRunning, shutdownSignal = None, resources = NotBegun,
      deadlineArmed = False, disposed = False, happened = []\<rparr>"

definition occurs :: "lifecycle_event list \<Rightarrow> server \<Rightarrow> server" where
  "occurs evs s = s\<lparr>happened := happened s @ evs\<rparr>"

subsection \<open>Health requests\<close>

definition HEALTH_UNAVAILABLE_STATUS :: int where "HEALTH_UNAVAILABLE_STATUS = 503"

text \<open>The handler up to its probe, and after it.\<close>

definition health_request :: "server \<Rightarrow> server" where
  "health_request s =
     (if readiness s = Starting \<or> readiness s = ShuttingDown then occurs [HealthReply HEALTH_UNAVAILABLE_STATUS] s
      else s\<lparr>probing := probing s + 1\<rparr>)"

definition probe_settles :: "bool \<Rightarrow> server \<Rightarrow> server" where
  "probe_settles ok s =
     (let r = (if ok then markReady (readiness s) else markUnavailable (readiness s));
          s = s\<lparr>probing := probing s - 1, readiness := r\<rparr>
      in if \<not> isReady r then occurs [HealthReply HEALTH_UNAVAILABLE_STATUS] s else occurs [HealthReply 200] s)"

subsection \<open>Shutdown\<close>

definition SHUTDOWN_TIMEOUT_MS :: int where "SHUTDOWN_TIMEOUT_MS = 10000"

text \<open>
  \<open>executeShutdown\<close> until it waits: marking and reporting are called safely, the application's
  closure has begun before the deadline is scheduled.
\<close>

definition executeShutdown :: "ShutdownSignal \<Rightarrow> server \<Rightarrow> server" where
  "executeShutdown sig s =
     occurs [NotReadyMarked, ShutdownStarted sig, ApplicationClosing]
       (s\<lparr>lifecycle := StateClosing, readiness := beginShutdown (readiness s), shutdownSignal := Some sig,
           resources := ClosingApplication, deadlineArmed := True\<rparr>)"

definition shutdown :: "ShutdownSignal \<Rightarrow> server \<Rightarrow> server" where
  "shutdown sig s = (if shutdownSignal s \<noteq> None then s else executeShutdown sig s)"

text \<open>The end of \<open>closeResources\<close>: the first failure, and an \<open>Error\<close> in any case.\<close>

definition closure_outcome :: "throw + unit \<Rightarrow> throw + unit \<Rightarrow> throw option" where
  "closure_outcome app db =
     (let as_error = (\<lambda>e. if isErrorInstance (error_value e) then e else ErrorMessage (js ''Application resource closure failed.''))
      in case (app, db) of
          (Inr u, Inr v) \<Rightarrow> None
        | (Inl e, Inr v) \<Rightarrow> Some (as_error e)
        | (Inr u, Inl x) \<Rightarrow> Some (as_error x)
        | (Inl e, Inl x) \<Rightarrow> Some (as_error (if e = Foreign JUndef \<or> e = Foreign JNull then x else e)))"

fun is_shutdown_timeout :: "throw \<Rightarrow> bool" where
  "is_shutdown_timeout (ShutdownTimeoutError ms) = True"
| "is_shutdown_timeout _ = False"

text \<open>The verdict of the race between the closure and the deadline.\<close>

definition shutdown_verdict :: "throw option \<Rightarrow> server \<Rightarrow> server" where
  "shutdown_verdict failure s =
     (case failure of
        None \<Rightarrow> s\<lparr>lifecycle := StateClosed, deadlineArmed := False\<rparr>
      | Some e \<Rightarrow>
          occurs (ShutdownFailed e (the (shutdownSignal s)) # (if is_shutdown_timeout e then [ForceExit 1] else []))
            (s\<lparr>lifecycle := StateFailed, deadlineArmed := False\<rparr>))"

definition application_closed :: "throw + unit \<Rightarrow> server \<Rightarrow> server" where
  "application_closed r s = occurs [DatabaseClosing] (s\<lparr>resources := ClosingDatabase r\<rparr>)"

text \<open>Once the deadline has won the race, the closure goes on but its outcome is ignored.\<close>

definition database_closed :: "throw + unit \<Rightarrow> server \<Rightarrow> server" where
  "database_closed r s =
     (case resources s of
        ClosingDatabase a \<Rightarrow>
          (let s' = s\<lparr>resources := ResourcesOver a r\<rparr>
           in if deadlineArmed s then shutdown_verdict (closure_outcome a r) s' else s')
      | _ \<Rightarrow> s)"

definition deadline_passes :: "server \<Rightarrow> server" where
  "deadline_passes s = shutdown_verdict (Some (ShutdownTimeoutError SHUTDOWN_TIMEOUT_MS)) s"

definition dispose :: "server \<Rightarrow> server" where
  "dispose s = s\<lparr>disposed := True\<rparr>"

subsection \<open>Steps\<close>

inductive server_step :: "server \<Rightarrow> server \<Rightarrow> bool" where
  Listening: "server_step s (s\<lparr>readiness := markReady (readiness s)\<rparr>)"
| PoolError: "server_step s (s\<lparr>readiness := markUnavailable (readiness s)\<rparr>)"
| Health: "server_step s (health_request s)"
| Probe: "0 < probing s \<Longrightarrow> server_step s (probe_settles ok s)"
| Signal: "\<not> disposed s \<Longrightarrow> server_step s (shutdown sig s)"
| Shutdown: "server_step s (shutdown sig s)"
| Dispose: "server_step s (dispose s)"
| ApplicationClosed: "resources s = ClosingApplication \<Longrightarrow> server_step s (application_closed r s)"
| DatabaseClosed: "resources s = ClosingDatabase a \<Longrightarrow> server_step s (database_closed r s)"
| Deadline: "deadlineArmed s \<Longrightarrow> server_step s (deadline_passes s)"

inductive_cases server_stepE: "server_step s t"

subsection \<open>The invariant\<close>

fun is_closing :: "lifecycle_event \<Rightarrow> bool" where
  "is_closing ApplicationClosing = True"
| "is_closing DatabaseClosing = True"
| "is_closing _ = False"

fun is_failure :: "lifecycle_event \<Rightarrow> bool" where
  "is_failure (ShutdownFailed e sig) = True"
| "is_failure _ = False"

text \<open>The closures that have begun, in their order, for each stage.\<close>

fun closures :: "closing \<Rightarrow> lifecycle_event list" where
  "closures NotBegun = []"
| "closures ClosingApplication = [ApplicationClosing]"
| "closures _ = [ApplicationClosing, DatabaseClosing]"

definition server_inv :: "server \<Rightarrow> bool" where
  "server_inv s \<longleftrightarrow>
     (shutdownSignal s = None \<longleftrightarrow> lifecycle s = StateRunning) \<and>
     (resources s = NotBegun \<longleftrightarrow> lifecycle s = StateRunning) \<and>
     (deadlineArmed s \<longleftrightarrow> lifecycle s = StateClosing) \<and>
     (lifecycle s \<noteq> StateRunning \<longrightarrow> readiness s = ShuttingDown) \<and>
     (lifecycle s = StateClosing \<longrightarrow> (\<forall>a d. resources s \<noteq> ResourcesOver a d)) \<and>
     (lifecycle s = StateClosed \<longrightarrow> resources s = ResourcesOver (Inr ()) (Inr ())) \<and>
     filter is_closing (happened s) = closures (resources s) \<and>
     length (filter is_failure (happened s)) = (if lifecycle s = StateFailed then 1 else 0)"

lemma closure_outcome_None: "closure_outcome a d = None \<longleftrightarrow> a = Inr () \<and> d = Inr ()"
  by (cases a; cases d) (simp_all add: closure_outcome_def Let_def)

lemma occurs_simps [simp]:
  "readiness (occurs evs s) = readiness s" "probing (occurs evs s) = probing s" "lifecycle (occurs evs s) = lifecycle s"
  "shutdownSignal (occurs evs s) = shutdownSignal s" "resources (occurs evs s) = resources s"
  "deadlineArmed (occurs evs s) = deadlineArmed s" "happened (occurs evs s) = happened s @ evs"
  by (simp_all add: occurs_def)

lemma verdict_inv:
  assumes "shutdownSignal s \<noteq> None" "resources s \<noteq> NotBegun" "readiness s = ShuttingDown"
    "failure = None \<longrightarrow> resources s = ResourcesOver (Inr ()) (Inr ())"
    "filter is_closing (happened s) = closures (resources s)" "filter is_failure (happened s) = []"
  shows "server_inv (shutdown_verdict failure s)"
  using assms by (cases failure) (auto simp: shutdown_verdict_def server_inv_def)

lemma server_step_inv: "server_inv s \<Longrightarrow> server_step s t \<Longrightarrow> server_inv t"
proof (erule server_stepE)
  assume inv: "server_inv s"
  show "server_inv t" if "t = s\<lparr>readiness := markReady (readiness s)\<rparr>"
    using inv that by (auto simp: server_inv_def markReady_def)
  show "server_inv t" if "t = s\<lparr>readiness := markUnavailable (readiness s)\<rparr>"
    using inv that by (auto simp: server_inv_def markUnavailable_def)
  show "server_inv t" if "t = health_request s"
    using inv that by (auto simp: server_inv_def health_request_def)
  show "server_inv t" if "t = probe_settles ok s" for ok
    using inv that by (auto simp: server_inv_def probe_settles_def Let_def markReady_def markUnavailable_def)
  have sd: "server_inv t" if "t = shutdown sig s" for sig
    using inv that by (auto simp: server_inv_def shutdown_def executeShutdown_def beginShutdown_def)
  show "server_inv t" if "t = shutdown sig s" "\<not> disposed s" for sig using sd that(1) .
  show "server_inv t" if "t = shutdown sig s" for sig using sd that .
  show "server_inv t" if "t = dispose s" using inv that by (simp add: server_inv_def dispose_def)
  show "server_inv t" if "t = application_closed r s" "resources s = ClosingApplication" for r
    using inv that by (auto simp: server_inv_def application_closed_def)
  show "server_inv t" if "t = deadline_passes s" "deadlineArmed s"
    unfolding that(1) deadline_passes_def by (rule verdict_inv) (use inv that(2) in \<open>auto simp: server_inv_def\<close>)
  show "server_inv t" if "t = database_closed r s" "resources s = ClosingDatabase a" for r a
  proof (cases "deadlineArmed s")
    case True
    then have "t = shutdown_verdict (closure_outcome a r) (s\<lparr>resources := ResourcesOver a r\<rparr>)"
      using that by (simp add: database_closed_def)
    moreover have "server_inv (shutdown_verdict (closure_outcome a r) (s\<lparr>resources := ResourcesOver a r\<rparr>))"
      by (rule verdict_inv) (use inv that(2) True in \<open>auto simp: server_inv_def closure_outcome_None\<close>)
    ultimately show ?thesis by simp
  next
    case False
    then show ?thesis using inv that by (auto simp: server_inv_def database_closed_def)
  qed
qed

lemma initial_server_inv: "server_inv initial_server"
  by (simp add: initial_server_def server_inv_def)

interpretation running: invariant_machine "\<lambda>s. s = initial_server" server_step server_inv
  by unfold_locales (auto intro: initial_server_inv server_step_inv)

text \<open>
  C19. However signals, closures, probes and the deadline interleave, the application is closed at
  most once and the database at most once, after the application; a failure is reported at most
  once; a shutdown that ended well closed both without error; and a shutting-down server is not
  ready.
\<close>

theorem shutdown_closes_once:
  assumes "server_step\<^sup>*\<^sup>* initial_server s"
  shows "filter is_closing (happened s) = closures (resources s) \<and>
    length (filter is_failure (happened s)) \<le> 1 \<and>
    (lifecycle s = StateClosed \<or> lifecycle s = StateFailed \<or> filter is_failure (happened s) = []) \<and>
    (resources s = ResourcesOver (Inr ()) (Inr ()) \<or> lifecycle s \<noteq> StateClosed) \<and>
    (lifecycle s = StateRunning \<or> readiness s = ShuttingDown)"
proof -
  have "server_inv s" using running.reachable_inv [OF refl assms] .
  then show ?thesis by (cases "lifecycle s") (auto simp: server_inv_def)
qed

subsection \<open>A shutdown ends\<close>

inductive server_move :: "server \<Rightarrow> server \<Rightarrow> bool" where
  "resources s = ClosingApplication \<Longrightarrow> server_move s (application_closed r s)"
| "resources s = ClosingDatabase a \<Longrightarrow> server_move s (database_closed r s)"
| "deadlineArmed s \<Longrightarrow> server_move s (deadline_passes s)"

inductive_cases server_moveE: "server_move s t"

definition shutting_down :: "server \<Rightarrow> bool" where
  "shutting_down s \<longleftrightarrow> shutdownSignal s \<noteq> None"

definition verdict_reached :: "server \<Rightarrow> bool" where
  "verdict_reached s \<longleftrightarrow> lifecycle s = StateClosed \<or> lifecycle s = StateFailed"

fun closing_work :: "closing \<Rightarrow> nat" where
  "closing_work ClosingApplication = 2"
| "closing_work (ClosingDatabase a) = 1"
| "closing_work _ = 0"

definition server_work :: "server \<Rightarrow> nat" where
  "server_work s = closing_work (resources s) + (if deadlineArmed s then 1 else 0)"

lemma server_progress: "server_inv s \<Longrightarrow> shutting_down s \<Longrightarrow> \<not> verdict_reached s \<Longrightarrow> \<exists>t. server_move s t"
  by (cases "lifecycle s") (auto simp: server_inv_def shutting_down_def verdict_reached_def intro: server_move.intros(3))

lemma verdict_simps [simp]:
  "resources (shutdown_verdict failure s) = resources s" "deadlineArmed (shutdown_verdict failure s) = False"
  "shutdownSignal (shutdown_verdict failure s) = shutdownSignal s"
  by (cases failure; simp add: shutdown_verdict_def)+

lemma server_move_work: "shutting_down s \<Longrightarrow> server_move s t \<Longrightarrow> server_work t < server_work s \<and> shutting_down t"
  by (erule server_moveE)
    (simp_all add: application_closed_def database_closed_def deadline_passes_def server_work_def shutting_down_def Let_def)

lemma server_move_step: "server_move s t \<Longrightarrow> server_step s t"
  by (erule server_moveE) (auto intro: server_step.intros)

interpretation running: draining_machine "\<lambda>s. s = initial_server" server_step server_inv
    server_move shutting_down verdict_reached server_work
  by unfold_locales (auto intro: server_move_step server_progress dest: server_move_work)


subsection \<open>Health after a shutdown has begun\<close>

fun is_reply :: "lifecycle_event \<Rightarrow> bool" where
  "is_reply (HealthReply status) = True"
| "is_reply _ = False"

lemma verdict_happened:
  "\<exists>new. happened (shutdown_verdict failure s) = happened s @ new \<and> set (filter is_reply new) \<subseteq> {HealthReply 503}"
  by (cases failure) (auto simp: shutdown_verdict_def)

lemma shutting_down_replies:
  assumes inv: "server_inv s" and down: "shutting_down s" and step: "server_step s t"
  shows "shutting_down t \<and> (\<exists>new. happened t = happened s @ new \<and> set (filter is_reply new) \<subseteq> {HealthReply 503})"
  using step
proof (rule server_stepE)
  have ready: "readiness s = ShuttingDown" using inv down by (auto simp: server_inv_def shutting_down_def)
  show ?thesis if "t = s\<lparr>readiness := markReady (readiness s)\<rparr>" using that down by (simp add: shutting_down_def)
  show ?thesis if "t = s\<lparr>readiness := markUnavailable (readiness s)\<rparr>" using that down by (simp add: shutting_down_def)
  show ?thesis if "t = health_request s"
    using that down ready by (auto simp: health_request_def shutting_down_def HEALTH_UNAVAILABLE_STATUS_def)
  show ?thesis if "t = probe_settles ok s" for ok
    using that down ready
    by (auto simp: probe_settles_def shutting_down_def HEALTH_UNAVAILABLE_STATUS_def Let_def markReady_def
        markUnavailable_def isReady_def)
  have sd: ?thesis if "t = shutdown sig s" for sig using that down by (simp add: shutdown_def shutting_down_def)
  show ?thesis if "t = shutdown sig s" "\<not> disposed s" for sig using sd that(1) .
  show ?thesis if "t = shutdown sig s" for sig using sd that .
  show ?thesis if "t = dispose s" using that down by (simp add: dispose_def shutting_down_def)
  show ?thesis if "t = application_closed r s" for r using that down by (auto simp: application_closed_def shutting_down_def)
  show ?thesis if "t = deadline_passes s"
    using that down verdict_happened [of "Some (ShutdownTimeoutError SHUTDOWN_TIMEOUT_MS)" s]
    by (simp add: deadline_passes_def shutting_down_def)
  show ?thesis if "t = database_closed r s" "resources s = ClosingDatabase a" for r a
    using that down verdict_happened [of "closure_outcome a r" "s\<lparr>resources := ResourcesOver a r\<rparr>"]
    by (cases "deadlineArmed s") (simp_all add: database_closed_def shutting_down_def)
qed

text \<open>
  C21. Once a shutdown has begun, every health request is answered with 503, also one whose probe
  was under way and succeeds: from then on no other answer is appended to what has happened.
\<close>

theorem no_healthy_reply_after_shutdown:
  assumes "server_step\<^sup>*\<^sup>* initial_server s" "shutting_down s" "server_step\<^sup>*\<^sup>* s t"
  shows "\<exists>new. happened t = happened s @ new \<and> set (filter is_reply new) \<subseteq> {HealthReply 503}"
proof -
  have inv: "server_inv s" using running.reachable_inv [OF refl assms(1)] .
  have "shutting_down t \<and> server_inv t \<and> (\<exists>new. happened t = happened s @ new \<and> set (filter is_reply new) \<subseteq> {HealthReply 503})"
    using assms(3)
  proof (induction rule: rtranclp_induct)
    case (step t u)
    then obtain new where new: "happened t = happened s @ new" "set (filter is_reply new) \<subseteq> {HealthReply 503}" by blast
    from shutting_down_replies [OF _ _ step(2)] step.IH obtain more where
      more: "happened u = happened t @ more" "set (filter is_reply more) \<subseteq> {HealthReply 503}" "shutting_down u" by blast
    moreover have "server_inv u" using server_step_inv step by blast
    ultimately show ?case using new by (intro conjI exI [of _ "new @ more"]) auto
  qed (use inv assms(2) in simp)
  then show ?thesis by blast
qed

subsection \<open>Witnesses\<close>

text \<open>A server that is told to stop while a probe is under way.\<close>

definition probed_server :: server where
  "probed_server = health_request (initial_server\<lparr>readiness := markReady (readiness initial_server)\<rparr>)"

definition stopping_server :: server where
  "stopping_server = shutdown SIGTERM probed_server"

lemma stopping_reachable: "server_step\<^sup>*\<^sup>* initial_server stopping_server"
  unfolding stopping_server_def probed_server_def
  by (rule rtranclp.rtrancl_into_rtrancl, rule rtranclp.rtrancl_into_rtrancl, rule r_into_rtranclp)
    (rule server_step.Listening server_step.Health server_step.Shutdown)+

lemma stopping_state: "resources stopping_server = ClosingApplication" "shutting_down stopping_server"
  "happened stopping_server = [NotReadyMarked, ShutdownStarted SIGTERM, ApplicationClosing]" "probing stopping_server = 1"
  "readiness stopping_server = ShuttingDown"
  by (simp_all add: stopping_server_def probed_server_def shutdown_def executeShutdown_def shutting_down_def
      health_request_def initial_server_def markReady_def beginShutdown_def)

theorem shutdown_closes_once_witness:
  "filter is_closing (happened stopping_server) = [ApplicationClosing] \<and>
    length (filter is_failure (happened stopping_server)) \<le> 1"
  using shutdown_closes_once [OF stopping_reachable] by (simp add: stopping_state)


theorem no_healthy_reply_after_shutdown_witness:
  "\<exists>t new. server_step stopping_server t \<and> happened t = happened stopping_server @ new \<and>
    new \<noteq> [] \<and> set (filter is_reply new) \<subseteq> {HealthReply 503}"
proof -
  have step: "server_step stopping_server (probe_settles True stopping_server)"
    by (rule server_step.Probe) (simp add: stopping_state)
  have "happened (probe_settles True stopping_server) \<noteq> happened stopping_server"
    by (simp add: probe_settles_def Let_def stopping_state markReady_def isReady_def)
  with no_healthy_reply_after_shutdown [OF stopping_reachable stopping_state(2) r_into_rtranclp [of server_step, OF step]] step
  show ?thesis by (metis append_Nil2)
qed

end
