(* ===== verification/DoubleFacts.thy ===== *)
theory DoubleFacts
  imports JsNumber
begin

section \<open>What rounding to a double keeps\<close>

text \<open>
  The nearest double of a rational is off by at most one part in \<open>2 ^ 53\<close> and never on the other
  side of an integer that a double holds. So \<open>Math.ceil\<close> of a rounded quotient of integers is the
  exact ceiling, which is what the load generator's counts and ranks rely on.
\<close>

lemma int_bits_bounds: "0 < n \<Longrightarrow> (2 :: int) ^ nat (int_bits n - 1) \<le> n \<and> n < 2 ^ nat (int_bits n) \<and> 1 \<le> int_bits n"
proof (induction n rule: int_bits.induct)
  case (1 n)
  show ?case
  proof (cases "n = 1")
    case True
    then show ?thesis by (simp add: int_bits.simps)
  next
    case False
    with 1 have ih: "(2 :: int) ^ nat (int_bits (n div 2) - 1) \<le> n div 2" "n div 2 < 2 ^ nat (int_bits (n div 2))"
      "1 \<le> int_bits (n div 2)"
      by auto
    then obtain b where b: "int_bits (n div 2) = int b + 1" using zero_le_imp_eq_int [of "int_bits (n div 2) - 1"] ih(3)
      by (metis diff_add_cancel diff_ge_0_iff_ge)
    have "int_bits n = int b + 2" using b 1(2) False by (simp add: int_bits.simps [of n])
    then have "nat (int_bits n) = Suc (Suc b)" "nat (int_bits n - 1) = Suc b" "nat (int_bits (n div 2)) = Suc b"
      "nat (int_bits (n div 2) - 1) = b"
      using b by simp_all
    moreover have "2 * (n div 2) \<le> n" "n < 2 * (n div 2) + 2" by presburger+
    ultimately show ?thesis using ih \<open>int_bits n = int b + 2\<close> by simp
  qed
qed

lemma pow2_pos [simp]: "0 < pow2 e"
  by (simp add: pow2_def)

lemma pow2_nat: "pow2 (int n) = 2 ^ n"
  by (simp add: pow2_def)

lemma pow2_powi: "pow2 e = 2 powi e"
  by (simp add: pow2_def power_int_def power_one_over)

lemma pow2_neg: "pow2 (- int n) = 1 / 2 ^ n"
  by (simp add: pow2_powi power_int_minus divide_inverse)

lemma pow2_add: "pow2 (a + b) = pow2 a * pow2 b"
  by (simp add: pow2_powi power_int_add)

lemma pow2_diff: "pow2 (a - b) = pow2 a / pow2 b"
  by (simp add: pow2_powi power_int_diff)

lemma pow2_mono: "a \<le> b \<Longrightarrow> pow2 a \<le> pow2 b"
  by (simp add: pow2_powi power_int_increasing)

lemma pow2_less: "pow2 a < pow2 b \<Longrightarrow> a < b"
  using pow2_mono [of b a] by (meson not_le)

lemma int_bits_pow2: "0 < n \<Longrightarrow> pow2 (int_bits n - 1) \<le> of_int n \<and> of_int n < pow2 (int_bits n)"
proof -
  assume n: "0 < n"
  note b = int_bits_bounds [OF n]
  then have "(of_int (2 ^ nat (int_bits n - 1)) :: rat) \<le> of_int n" "(of_int n :: rat) < of_int (2 ^ nat (int_bits n))"
    by (simp_all only: of_int_le_iff of_int_less_iff)
  then show ?thesis using b by (simp add: pow2_def)
qed

lemma floor_log2_bounds:
  assumes "0 < r"
  shows "pow2 (floor_log2 r) \<le> r \<and> r < pow2 (floor_log2 r + 1)"
proof -
  obtain n d where nd: "quotient_of r = (n, d)" by force
  then have r: "r = of_int n / of_int d" and d: "0 < d" using quotient_of_div quotient_of_denom_pos by blast+
  then have n: "0 < n" using assms by (simp add: zero_less_divide_iff)
  define e where "e = int_bits n - int_bits d"
  note bn = int_bits_pow2 [OF n] and bd = int_bits_pow2 [OF d]
  have dpos: "(0 :: rat) < of_int d" using d by simp
  have up: "r < pow2 (e + 1)"
  proof -
    have "of_int n < pow2 (e + 1) * pow2 (int_bits d - 1)" using bn by (simp add: e_def flip: pow2_add)
    also have "\<dots> \<le> pow2 (e + 1) * of_int d" using bd by (intro mult_left_mono) (auto intro: less_imp_le)
    finally show ?thesis using dpos by (simp add: r divide_less_eq)
  qed
  have low: "pow2 (e - 1) \<le> r"
  proof -
    have "pow2 (e - 1) * of_int d \<le> pow2 (e - 1) * pow2 (int_bits d)" using bd by (intro mult_left_mono) (auto intro: less_imp_le)
    also have "\<dots> = pow2 (int_bits n - 1)" by (simp add: e_def flip: pow2_add)
    also have "\<dots> \<le> of_int n" using bn by simp
    finally show ?thesis using dpos by (simp add: r le_divide_eq)
  qed
  show ?thesis using up low by (auto simp: floor_log2_def nd e_def Let_def)
qed

lemma round_half_even_error: "\<bar>of_int (round_half_even x) - x\<bar> \<le> 1 / 2"
proof -
  have "of_int \<lfloor>x\<rfloor> \<le> x" "x < of_int \<lfloor>x\<rfloor> + 1" by linarith+
  then show ?thesis unfolding round_half_even_def Let_def abs_if by (simp split: if_splits; linarith)
qed

lemma round_half_even_le:
  assumes "x \<le> of_int m"
  shows "round_half_even x \<le> m"
proof (cases "\<lfloor>x\<rfloor> = m")
  case True
  then have "x = of_int m" using assms by (simp add: floor_eq_iff)
  then show ?thesis by (simp add: round_half_even_def)
next
  case False
  then have "\<lfloor>x\<rfloor> + 1 \<le> m" using assms floor_mono [OF assms] by simp
  then show ?thesis by (auto simp: round_half_even_def Let_def)
qed

text \<open>The unit of the last place of a positive rational in the normal range.\<close>

definition ulp :: "rat \<Rightarrow> rat" where
  "ulp r = pow2 (max (floor_log2 r) (- 1022) - 52)"

lemma round_double_ulp: "r \<noteq> 0 \<Longrightarrow> round_double r = of_int (round_half_even (r / ulp r)) * ulp r"
  by (simp add: round_double_def ulp_def Let_def)

lemma ulp_pos: "0 < ulp r"
  by (simp add: ulp_def)

lemma scaled_pos: "1 \<le> r * 2 ^ n \<Longrightarrow> (0 :: rat) < r"
  using mult_nonpos_nonneg [of r "2 ^ n"] by (cases "0 < r") simp_all

lemma ulp_bound:
  assumes "1 \<le> r * 2 ^ n" "n \<le> 1022"
  shows "ulp r \<le> r / 2 ^ 52"
proof -
  have r: "0 < r" by (rule scaled_pos [OF assms(1)])
  have "pow2 (- int n) \<le> r" using assms(1) by (simp add: pow2_neg divide_le_eq)
  also have "r < pow2 (floor_log2 r + 1)" using floor_log2_bounds [OF r] by simp
  finally have "- int n \<le> floor_log2 r" using pow2_less by fastforce
  then have "max (floor_log2 r) (- 1022) = floor_log2 r" using assms(2) by simp
  then have "ulp r = pow2 (floor_log2 r) / pow2 52" by (simp add: ulp_def pow2_diff)
  then show ?thesis using floor_log2_bounds [OF r] pow2_nat [of 52] by (simp add: divide_right_mono)
qed

lemma round_double_error:
  assumes "1 \<le> r * 2 ^ n" "n \<le> 1022"
  shows "\<bar>round_double r - r\<bar> \<le> r / 2 ^ 53"
proof -
  have r: "0 < r" by (rule scaled_pos [OF assms(1)])
  have "\<bar>round_double r - r\<bar> = \<bar>of_int (round_half_even (r / ulp r)) - r / ulp r\<bar> * ulp r"
  proof -
    have "\<bar>of_int (round_half_even (r / ulp r)) - r / ulp r\<bar> * ulp r = \<bar>(of_int (round_half_even (r / ulp r)) - r / ulp r) * ulp r\<bar>"
      using ulp_pos [of r] by (simp add: abs_mult)
    then show ?thesis using r ulp_pos [of r] by (simp add: round_double_ulp left_diff_distrib)
  qed
  also have "\<dots> \<le> 1 / 2 * ulp r" using round_half_even_error ulp_pos by (intro mult_right_mono) (auto intro: less_imp_le)
  also have "\<dots> \<le> r / 2 ^ 53" using ulp_bound [OF assms] by simp
  finally show ?thesis .
qed

text \<open>Below \<open>2 ^ 53\<close> rounding does not pass an integer.\<close>

lemma round_double_le:
  assumes "0 < r" "r < 2 ^ 53" "r \<le> of_int m"
  shows "round_double r \<le> of_int m"
proof -
  have "pow2 (floor_log2 r) < pow2 53"
    using floor_log2_bounds [OF assms(1)] assms(2) pow2_nat [of 53] by simp
  then have "floor_log2 r \<le> 52" using pow2_less by fastforce
  then obtain k where "max (floor_log2 r) (- 1022) - 52 = - int k" using nonpos_int_cases [of "max (floor_log2 r) (- 1022) - 52"] by auto
  then have k: "ulp r = 1 / 2 ^ k" by (simp add: ulp_def pow2_neg)
  have "r / ulp r \<le> of_int (m * 2 ^ k)" using assms(3) by (simp add: k mult_right_mono)
  from round_half_even_le [OF this] have "round_half_even (r / ulp r) \<le> m * 2 ^ k" .
  then have "(of_int (round_half_even (r / ulp r)) :: rat) \<le> of_int (m * 2 ^ k)" by (simp only: of_int_le_iff)
  then show ?thesis using assms(1) by (simp add: round_double_ulp k divide_le_eq)
qed

text \<open>A rational that is at least \<open>1 / b\<close> above the integer below it keeps its ceiling.\<close>

lemma ceiling_round_double:
  assumes gap: "of_int (\<lceil>r\<rceil> - 1) + 1 / of_int b \<le> r" and r: "0 < r" "r * of_int b < 2 ^ 53" and b: "1 \<le> b" "b < 2 ^ 53"
  shows "\<lceil>round_double r\<rceil> = \<lceil>r\<rceil>"
proof (rule ceiling_unique)
  have "(of_int b :: rat) < of_int (2 ^ 53)" using b(2) by (simp only: of_int_less_iff)
  then have b': "0 < (of_int b :: rat)" "(of_int b :: rat) < 2 ^ 53" using b(1) by simp_all
  have small: "r / 2 ^ 53 < 1 / of_int b" using r(2) b'(1) by (simp add: field_simps)
  have "0 \<le> \<lceil>r\<rceil> - 1" using r(1) by linarith
  then have "(0 :: rat) \<le> of_int (\<lceil>r\<rceil> - 1)" by (simp only: of_int_0_le_iff)
  then have "1 / of_int b \<le> r" using gap by linarith
  then have "1 \<le> r * of_int b" using b'(1) by (simp add: divide_le_eq)
  also have "\<dots> \<le> r * 2 ^ 53" using b'(2) r(1) by (intro mult_left_mono) simp_all
  finally have one: "1 \<le> r * 2 ^ 53" .
  have "r - r / 2 ^ 53 \<le> round_double r" using round_double_error [OF one] by linarith
  moreover have "of_int \<lceil>r\<rceil> - 1 + 1 / of_int b \<le> r" using gap by simp
  ultimately show "of_int \<lceil>r\<rceil> - 1 < round_double r" using small by linarith
  have "r * 1 \<le> r * of_int b" using r(1) b(1) by (intro mult_left_mono) simp_all
  then have "r < 2 ^ 53" using r(2) by simp
  from round_double_le [OF r(1) this le_of_int_ceiling] show "round_double r \<le> of_int \<lceil>r\<rceil>" .
qed

subsection \<open>Rounding is monotone\<close>

lemma round_double_nonneg: "0 \<le> r \<Longrightarrow> 0 \<le> round_double r"
proof (cases "r = 0")
  case False
  assume "0 \<le> r"
  have "0 \<le> \<lfloor>r / ulp r\<rfloor>" using \<open>0 \<le> r\<close> ulp_pos [of r] by simp
  then have "0 \<le> round_half_even (r / ulp r)" by (auto simp: round_half_even_def Let_def)
  then show ?thesis using False ulp_pos [of r] by (simp add: round_double_ulp)
qed (simp add: round_double_def)

lemma round_half_even_ge: "of_int m \<le> x \<Longrightarrow> m \<le> round_half_even x"
proof -
  assume "of_int m \<le> x"
  then have "m \<le> \<lfloor>x\<rfloor>" by (simp add: le_floor_iff)
  then show ?thesis by (auto simp: round_half_even_def Let_def)
qed

lemma round_half_even_mono: "x \<le> y \<Longrightarrow> round_half_even x \<le> round_half_even y"
proof -
  assume le: "x \<le> y"
  show ?thesis
  proof (cases "\<lfloor>x\<rfloor> = \<lfloor>y\<rfloor>")
    case True
    with le show ?thesis by (auto simp: round_half_even_def Let_def)
  next
    case False
    then have "\<lfloor>x\<rfloor> + 1 \<le> \<lfloor>y\<rfloor>" using floor_mono [OF le] by simp
    moreover have "round_half_even x \<le> \<lfloor>x\<rfloor> + 1" by (auto simp: round_half_even_def Let_def)
    moreover have "\<lfloor>y\<rfloor> \<le> round_half_even y" by (auto simp: round_half_even_def Let_def)
    ultimately show ?thesis by linarith
  qed
qed

lemma pow2_shift: "pow2 (e + 1) = 2 ^ 53 * pow2 (e - 52)" "pow2 e = 2 ^ 52 * pow2 (e - 52)"
proof -
  have "e + 1 = int 53 + (e - 52)" "e = int 52 + (e - 52)" by simp_all
  then have "pow2 (e + 1) = pow2 (int 53) * pow2 (e - 52)" "pow2 e = pow2 (int 52) * pow2 (e - 52)" by (metis pow2_add)+
  then show "pow2 (e + 1) = 2 ^ 53 * pow2 (e - 52)" "pow2 e = 2 ^ 52 * pow2 (e - 52)" by (simp_all only: pow2_nat)
qed

lemma round_double_mono:
  assumes "0 \<le> r" "r \<le> s"
  shows "round_double r \<le> round_double s"
proof (cases "r = 0")
  case True
  have "0 \<le> round_double s" using round_double_nonneg assms by simp
  with True show ?thesis by (simp add: round_double_def)
next
  case False
  with assms have r: "0 < r" and s: "0 < s" by simp_all
  let ?e = "\<lambda>x. max (floor_log2 x) (- 1022)"
  note br = floor_log2_bounds [OF r] and bs = floor_log2_bounds [OF s]
  have "pow2 (floor_log2 r) < pow2 (floor_log2 s + 1)" using br bs assms(2) by linarith
  then have mono: "?e r \<le> ?e s" using pow2_less by fastforce
  show ?thesis
  proof (cases "?e r = ?e s")
    case True
    then have "ulp r = ulp s" by (simp add: ulp_def)
    moreover have "round_half_even (r / ulp s) \<le> round_half_even (s / ulp s)"
      using assms(2) ulp_pos [of s] by (intro round_half_even_mono divide_right_mono) simp_all
    ultimately show ?thesis using r s ulp_pos [of s] by (simp add: round_double_ulp)
  next
    case False
    then have es: "?e s = floor_log2 s" "?e r + 1 \<le> ?e s" using mono by auto
    have top: "pow2 (?e r + 1) = 2 ^ 53 * ulp r" unfolding ulp_def by (rule pow2_shift(1))
    have "r < pow2 (?e r + 1)" using br pow2_mono [of "floor_log2 r + 1" "?e r + 1"] by simp
    then have "r \<le> 2 ^ 53 * ulp r" unfolding top by simp
    then have "r / ulp r \<le> of_int (2 ^ 53)" using ulp_pos [of r] by (simp add: divide_le_eq)
    then have "round_half_even (r / ulp r) \<le> 2 ^ 53" by (rule round_half_even_le)
    then have "of_int (round_half_even (r / ulp r)) \<le> (of_int (2 ^ 53) :: rat)" by (simp only: of_int_le_iff)
    then have "round_double r \<le> 2 ^ 53 * ulp r" using r ulp_pos [of r] by (simp add: round_double_ulp)
    also have "\<dots> = pow2 (?e r + 1)" by (simp only: top)
    also have "\<dots> \<le> pow2 (?e s)" by (rule pow2_mono [OF es(2)])
    also have bottom: "pow2 (?e s) = 2 ^ 52 * ulp s" unfolding ulp_def by (rule pow2_shift(2))
    also have "\<dots> \<le> round_double s"
    proof -
      have "pow2 (?e s) \<le> s" using bs es(1) by simp
      then have "2 ^ 52 * ulp s \<le> s" unfolding bottom .
      then have "of_int (2 ^ 52) \<le> s / ulp s" using ulp_pos [of s] by (simp add: le_divide_eq)
      then have "2 ^ 52 \<le> round_half_even (s / ulp s)" by (rule round_half_even_ge)
      then have "of_int (2 ^ 52) \<le> (of_int (round_half_even (s / ulp s)) :: rat)" by (simp only: of_int_le_iff)
      then show ?thesis using s ulp_pos [of s] by (simp add: round_double_ulp)
    qed
    finally show ?thesis .
  qed
qed

end
