(* ===== verification/Workload.thy ===== *)
theory Workload
  imports Encoding Ingestion DoubleFacts
begin

section \<open>The synthetic workload of the load generator (\<open>tools/loadgen/workload.ts\<close>)\<close>

text \<open>
  Every row of the workload is a function of the seed, the reference time, the phase and its
  ordinal: a 32-bit hash of those decides the timestamp, the level and the texts. The arithmetic
  of the hash is on 32-bit words, as \<open>Math.imul\<close> and the bitwise operators compute. The lemmas show
  that the batches of a phase are its rows, each once and in order, and that the service's own
  validator accepts every row.
\<close>

unbundle bit_operations_syntax

definition LOAD_GENERATOR_VERSION :: jsstr where "LOAD_GENERATOR_VERSION = js ''1.0.0''"

datatype WorkloadPhase = Warmup | Measured

fun phase_text :: "WorkloadPhase \<Rightarrow> jsstr" where
  "phase_text Warmup = js ''warmup''"
| "phase_text Measured = js ''measured''"

record SyntheticAttributes =
  loadgen_run_id :: jsstr
  loadgen_phase :: WorkloadPhase
  loadgen_sequence :: jsstr
  request_id :: jsstr
  region :: jsstr
  attempt_number :: nat
  cached :: bool

record SyntheticLog =
  syn_timestamp :: jsstr
  syn_level :: jsstr
  syn_service :: jsstr
  syn_message :: jsstr
  syn_attributes :: SyntheticAttributes

record WorkloadBatch =
  batch_phase :: WorkloadPhase
  batchIndex :: nat
  firstOrdinal :: int
  batch_logs :: "SyntheticLog list"

definition SERVICES :: "jsstr list" where
  "SERVICES = [js ''checkout'', js ''auth'', js ''catalog'', js ''payments'', js ''orders'', js ''inventory'',
     js ''shipping'', js ''notifications'']"

definition REGIONS :: "jsstr list" where
  "REGIONS = [js ''eu-west'', js ''us-east'', js ''ap-south'', js ''eu-central'']"

definition MESSAGES :: "jsstr list" where
  "MESSAGES = [js ''request completed'', js ''cache lookup completed'', js ''downstream response received'',
     js ''inventory reservation updated'', js ''payment workflow advanced'', js ''notification delivery scheduled'']"

definition TWENTY_EIGHT_DAYS_MS :: int where "TWENTY_EIGHT_DAYS_MS = 2419200000"

subsection \<open>The hash\<close>

text \<open>The code points a string is iterated by; a lone surrogate is one of its own.\<close>

fun code_points :: "jsstr \<Rightarrow> nat list" where
  "code_points [] = []"
| "code_points (c # s) =
     (if high_surrogate (unat c) \<and> s \<noteq> [] \<and> low_surrogate (unat (hd s))
      then (0x10000 + (unat c - 0xD800) * 1024 + (unat (hd s) - 0xDC00)) # code_points (tl s)
      else unat c # code_points s)"

definition hashString :: "jsstr \<Rightarrow> 32 word" where
  "hashString v = foldl (\<lambda>hash point. (hash XOR of_nat point) * 16777619) 2166136261 (code_points v)"

definition mix :: "32 word \<Rightarrow> 32 word" where
  "mix v =
     (let mixed = v;
          mixed = mixed XOR drop_bit 16 mixed;
          mixed = mixed * 0x7feb352d;
          mixed = mixed XOR drop_bit 15 mixed;
          mixed = mixed * 0x846ca68b
      in mixed XOR drop_bit 16 mixed)"

definition rowRandom :: "int \<Rightarrow> int \<Rightarrow> WorkloadPhase \<Rightarrow> int \<Rightarrow> 32 word" where
  "rowRandom seed referenceTimeMs phase ordinal =
     mix (hashString (LOAD_GENERATOR_VERSION @ js ''|'' @ show_int seed @ js ''|'' @ show_int referenceTimeMs @ js ''|'' @
       phase_text phase @ js ''|'' @ show_int ordinal))"

definition weightedLevel :: "32 word \<Rightarrow> jsstr" where
  "weightedLevel random =
     (let percentile = unat random mod 100
      in if percentile < 10 then js ''debug'' else if percentile < 75 then js ''info''
         else if percentile < 93 then js ''warn'' else js ''error'')"

subsection \<open>Rows\<close>

definition createSequence :: "WorkloadPhase \<Rightarrow> int \<Rightarrow> jsstr" where
  "createSequence phase ordinal =
     (if phase = Warmup then js ''w'' else js ''m'') @ js ''-'' @ pad_start 12 (cu CHR ''0'') (show_int ordinal)"

text \<open>\<open>n.toString(16)\<close> of an integer.\<close>

function show_hex :: "int \<Rightarrow> jsstr" where
  "show_hex i =
     (if i < 0 then cu CHR ''-'' # show_hex (- i)
      else if i < 16 then [hex_unit (nat i)] else show_hex (i div 16) @ [hex_unit (nat (i mod 16))])"
  by pat_completeness auto
termination
  by (relation "measure (\<lambda>i. 2 * nat \<bar>i\<bar> + (if i < 0 then 1 else 0))") auto

declare show_hex.simps [simp del]

text \<open>\<open>xs[i] ?? fallback\<close>.\<close>

definition element_or :: "'a list \<Rightarrow> nat \<Rightarrow> 'a \<Rightarrow> 'a" where
  "element_or xs i fallback = (if i < length xs then xs ! i else fallback)"

definition generateLog :: "int \<Rightarrow> int \<Rightarrow> jsstr \<Rightarrow> WorkloadPhase \<Rightarrow> int \<Rightarrow> throw + SyntheticLog" where
  "generateLog seed referenceTimeMs runId phase ordinal =
     (if \<not> safe_int ordinal \<or> ordinal < 0
      then Inl (ErrorMessage (js ''Workload ordinal must be a non-negative safe integer.''))
      else
        let random = rowRandom seed referenceTimeMs phase ordinal;
            srv = element_or SERVICES (unat random mod length SERVICES) (js ''checkout'');
            reg = element_or REGIONS (unat (drop_bit 3 random) mod length REGIONS) (js ''eu-west'');
            msg = element_or MESSAGES (unat (drop_bit 7 random) mod length MESSAGES) (js ''request completed'');
            offsetMs = int (unat random) mod TWENTY_EIGHT_DAYS_MS;
            sequence = createSequence phase ordinal
        in case time_clip (referenceTimeMs - offsetMs) of
             None \<Rightarrow> Inl (ErrorMessage (js ''Invalid time value''))
           | Some t \<Rightarrow>
               Inr \<lparr>syn_timestamp = toISOString t, syn_level = weightedLevel random, syn_service = srv,
                    syn_message = msg @ js '' for '' @ srv,
                    syn_attributes =
                      \<lparr>loadgen_run_id = runId, loadgen_phase = phase, loadgen_sequence = sequence,
                       request_id = js ''synthetic-'' @ show_hex seed @ js ''-'' @ sequence, region = reg,
                       attempt_number = unat (drop_bit 11 random) mod 5, cached = (random AND 1 = 0)\<rparr>\<rparr>)"

definition createWorkloadBatch ::
    "int \<Rightarrow> int \<Rightarrow> jsstr \<Rightarrow> WorkloadPhase \<Rightarrow> int \<Rightarrow> int \<Rightarrow> nat \<Rightarrow> throw + WorkloadBatch" where
  "createWorkloadBatch seed referenceTimeMs runId phase totalRows batchSize i =
     (let first = int i * batchSize; count = min batchSize (totalRows - first)
      in if count \<le> 0 then Inl (ErrorMessage (js ''Workload batch index is outside the configured row total.''))
         else case traverse (\<lambda>offset. generateLog seed referenceTimeMs runId phase (first + int offset)) [0..<nat count] of
             Inl e \<Rightarrow> Inl e
           | Inr logs \<Rightarrow> Inr \<lparr>batch_phase = phase, batchIndex = i, firstOrdinal = first, batch_logs = logs\<rparr>)"

text \<open>A row as the object that is posted, and the body of the request (\<open>tools/loadgen/api-client.ts\<close>).\<close>

definition synthetic_json :: "SyntheticLog \<Rightarrow> jsval" where
  "synthetic_json row =
     (let a = syn_attributes row
      in plain
        [(js ''timestamp'', JStr (syn_timestamp row)), (js ''level'', JStr (syn_level row)),
         (js ''service'', JStr (syn_service row)), (js ''message'', JStr (syn_message row)),
         (js ''attributes'', plain
           [(js ''loadgen_run_id'', JStr (loadgen_run_id a)), (js ''loadgen_phase'', JStr (phase_text (loadgen_phase a))),
            (js ''loadgen_sequence'', JStr (loadgen_sequence a)), (js ''request_id'', JStr (request_id a)),
            (js ''region'', JStr (region a)), (js ''attempt'', jint (int (attempt_number a))),
            (js ''cached'', JBool (cached a))])])"

definition batch_body :: "WorkloadBatch \<Rightarrow> jsval" where
  "batch_body batch = plain [(js ''logs'', JArr (map synthetic_json (batch_logs batch)))]"

subsection \<open>Every row is accepted by the service\<close>

text \<open>The entry a row becomes.\<close>

definition synthetic_entry :: "SyntheticLog \<Rightarrow> ValidatedLogEntry" where
  "synthetic_entry row =
     (let a = syn_attributes row
      in \<lparr>timestamp = syn_timestamp row, level = syn_level row, service = syn_service row, message = syn_message row,
          attributes =
            [(js ''loadgen_run_id'', AttrStr (loadgen_run_id a)), (js ''loadgen_phase'', AttrStr (phase_text (loadgen_phase a))),
             (js ''loadgen_sequence'', AttrStr (loadgen_sequence a)), (js ''request_id'', AttrStr (request_id a)),
             (js ''region'', AttrStr (region a)), (js ''attempt'', AttrNum (JFin (of_nat (attempt_number a)))),
             (js ''cached'', AttrBool (cached a))]\<rparr>)"

lemma contains_nul_simps [simp]:
  "\<not> contains_nul []" "contains_nul (c # s) \<longleftrightarrow> c = 0 \<or> contains_nul s" "contains_nul (s @ t) \<longleftrightarrow> contains_nul s \<or> contains_nul t"
  by (auto simp: contains_nul_def)

lemma digits_no_nul: "all_digits s \<Longrightarrow> \<not> contains_nul s"
  by (auto simp: contains_nul_def all_digits_def list_all_iff is_digit_unat)

lemma pad_no_nul: "\<not> contains_nul s \<Longrightarrow> c \<noteq> 0 \<Longrightarrow> \<not> contains_nul (pad_start n c s)"
  by (auto simp: contains_nul_def pad_start_def)

lemma show_int_no_nul: "\<not> contains_nul (show_int i)"
  by (auto simp: show_int_def show_pos_nat cu_def intro!: digits_no_nul)

lemma hex_no_nul: "\<not> contains_nul (show_hex i)"
proof (induction i rule: show_hex.induct)
  case (1 i)
  have unit: "hex_unit d \<noteq> 0" if "d < 16" for d
    using is_hex_unit [OF that] by (auto simp: is_hex_def is_digit_unat cu_def word_le_nat_alt)
  have "nat (i mod 16) < 16" by (simp add: nat_less_iff)
  moreover have "nat i < 16" if "i < 16" using that by simp
  ultimately show ?case using 1 unit by (subst show_hex.simps) (auto simp: cu_def)
qed

lemma workload_words:
  "s \<in> set SERVICES \<Longrightarrow> s \<noteq> [] \<and> \<not> contains_nul s" "s \<in> set REGIONS \<Longrightarrow> \<not> contains_nul s"
  "s \<in> set MESSAGES \<Longrightarrow> \<not> contains_nul s"
  by (auto simp: SERVICES_def REGIONS_def MESSAGES_def js_def cu_def)

lemma element_or_in: "xs \<noteq> [] \<Longrightarrow> element_or xs (n mod length xs) d \<in> set xs"
  by (simp add: element_or_def)

lemma weightedLevel_known: "isLogLevel (weightedLevel r)"
  by (simp add: weightedLevel_def isLogLevel_iff Let_def)

lemma sequence_no_nul: "\<not> contains_nul (createSequence phase i)"
  using pad_no_nul [OF show_int_no_nul, of "cu CHR ''0''" 12 i] by (simp add: createSequence_def js_def cu_def)

lemma phase_text_no_nul: "\<not> contains_nul (phase_text phase)"
  by (cases phase) (auto simp: js_def cu_def)

text \<open>A row of the workload: its instant lies in the four weeks before the reference time.\<close>

definition workload_row :: "int \<Rightarrow> jsstr \<Rightarrow> WorkloadPhase \<Rightarrow> int \<Rightarrow> SyntheticLog \<Rightarrow> bool" where
  "workload_row referenceTimeMs runId phase ordinal row \<longleftrightarrow>
     (\<exists>t. referenceTimeMs - TWENTY_EIGHT_DAYS_MS < t \<and> t \<le> referenceTimeMs \<and> syn_timestamp row = toISOString t) \<and>
     isLogLevel (syn_level row) \<and> syn_service row \<in> set SERVICES \<and>
     syn_message row \<noteq> [] \<and> \<not> contains_nul (syn_message row) \<and>
     loadgen_run_id (syn_attributes row) = runId \<and> loadgen_phase (syn_attributes row) = phase \<and>
     loadgen_sequence (syn_attributes row) = createSequence phase ordinal \<and>
     \<not> contains_nul (request_id (syn_attributes row)) \<and> region (syn_attributes row) \<in> set REGIONS"

lemma generated_row:
  assumes "generateLog seed referenceTimeMs runId phase ordinal = Inr row"
  shows "workload_row referenceTimeMs runId phase ordinal row"
proof -
  let ?r = "rowRandom seed referenceTimeMs phase ordinal"
  let ?off = "int (unat ?r) mod TWENTY_EIGHT_DAYS_MS"
  have off: "0 \<le> ?off" "?off < TWENTY_EIGHT_DAYS_MS" by (simp_all add: TWENTY_EIGHT_DAYS_MS_def)
  have ne: "SERVICES \<noteq> []" "REGIONS \<noteq> []" "MESSAGES \<noteq> []" by (simp_all add: SERVICES_def REGIONS_def MESSAGES_def)
  note words = element_or_in [OF ne(1)] element_or_in [OF ne(2)] element_or_in [OF ne(3)]
  have "syn_timestamp row = toISOString (referenceTimeMs - ?off)"
    using assms by (auto simp: generateLog_def Let_def time_clip_def split: if_splits)
  then have time: "\<exists>t. referenceTimeMs - TWENTY_EIGHT_DAYS_MS < t \<and> t \<le> referenceTimeMs \<and> syn_timestamp row = toISOString t"
    using off by (intro exI [of _ "referenceTimeMs - ?off"]) simp
  show ?thesis
    unfolding workload_row_def
    using assms time words weightedLevel_known workload_words sequence_no_nul hex_no_nul
    by (auto simp: generateLog_def Let_def time_clip_def js_def cu_def split: if_splits)
qed

lemma four_digit_window:
  assumes "four_digit_year a" "four_digit_year b" "a \<le> t" "t \<le> b"
  shows "four_digit_year t"
  using assms zdiv_mono1 [OF assms(3), of ms_per_day] zdiv_mono1 [OF assms(4), of ms_per_day]
  by (auto simp: four_digit_year_iff)

lemma generate_total:
  assumes "four_digit_year referenceTimeMs" "four_digit_year (referenceTimeMs - TWENTY_EIGHT_DAYS_MS)"
    and "0 \<le> ordinal" "safe_int ordinal"
  shows "\<exists>row. generateLog seed referenceTimeMs runId phase ordinal = Inr row"
proof -
  let ?off = "int (unat (rowRandom seed referenceTimeMs phase ordinal)) mod TWENTY_EIGHT_DAYS_MS"
  have "0 \<le> ?off" "?off < TWENTY_EIGHT_DAYS_MS" by (simp_all add: TWENTY_EIGHT_DAYS_MS_def)
  then have "\<bar>referenceTimeMs - ?off\<bar> \<le> 8640000000000000"
    using four_digit_year_bounds [OF four_digit_window [OF assms(2,1)]] by simp
  then show ?thesis using assms(3,4) by (simp add: generateLog_def Let_def time_clip_def)
qed

lemma row_accepted:
  assumes row: "workload_row referenceTimeMs runId phase ordinal row"
    and years: "four_digit_year referenceTimeMs" "four_digit_year (referenceTimeMs - TWENTY_EIGHT_DAYS_MS)"
    and marker: "\<not> contains_nul runId" and ahead: "referenceTimeMs \<le> serverMs + FIVE_MINUTES_MS"
  shows "validateLogEntry (synthetic_json row) serverMs = Inr (synthetic_entry row)"
proof -
  obtain t where t: "referenceTimeMs - TWENTY_EIGHT_DAYS_MS < t" "t \<le> referenceTimeMs" "syn_timestamp row = toISOString t"
    using row by (auto simp: workload_row_def)
  then have "four_digit_year t" by (intro four_digit_window [OF years(2,1)]) simp_all
  then obtain ts where ts: "parseCanonicalTimestamp (toISOString t) = Inr ts" "canonical ts = toISOString t"
    "instant ts = of_int t / 1000"
    using iso_any by blast
  have "(of_int t :: rat) \<le> of_int (serverMs + FIVE_MINUTES_MS)" using t(2) ahead by (simp only: of_int_le_iff)
  then have now: "instant ts * 1000 \<le> of_int (serverMs + 300000)" using ts(3) by (simp add: FIVE_MINUTES_MS_def)
  have names: "js ''timestamp'' \<noteq> js ''level''" by simp
  have "accepts (synthetic_json row) serverMs (synthetic_entry row)"
    unfolding accepts_def
    using row marker t(3) ts now workload_words phase_text_no_nul sequence_no_nul
    by (auto simp: synthetic_json_def synthetic_entry_def workload_row_def Let_def own_text_def input_attributes_def isLogLevel_iff
        valid_attribute_def attributes_of_def jint_def js_def cu_def split: option.splits)
  moreover have "wf_object (input_attributes (synthetic_json row))"
    by (simp add: wf_object_def input_attributes_def synthetic_json_def Let_def js_def cu_def)
  ultimately show ?thesis by (simp add: validate_accepts)
qed

subsection \<open>The batches of a phase are its rows\<close>

text \<open>How many batches a phase has (\<open>Math.ceil\<close> of a quotient, in \<open>tools/loadgen/ingestion.ts\<close>).\<close>

definition batch_count :: "int \<Rightarrow> int \<Rightarrow> int" where
  "batch_count totalRows batchSize = \<lceil>round_double (of_int totalRows / of_int batchSize)\<rceil>"

lemma batch_count_exact:
  assumes "0 \<le> t" "t < 2 ^ 53" "1 \<le> b" "b < 2 ^ 53"
  shows "t \<le> batch_count t b * b \<and> (if t = 0 then batch_count t b = 0 else (batch_count t b - 1) * b < t) \<and> 0 \<le> batch_count t b"
proof (cases "t = 0")
  case True
  then show ?thesis using assms(3) by (simp add: batch_count_def round_double_def)
next
  case False
  let ?r = "of_int t / (of_int b :: rat)"
  have b: "(0 :: rat) < of_int b" using assms(3) by simp
  have up: "t \<le> \<lceil>?r\<rceil> * b"
  proof -
    have "?r \<le> of_int \<lceil>?r\<rceil>" by (rule le_of_int_ceiling)
    then have "(of_int t :: rat) \<le> of_int (\<lceil>?r\<rceil> * b)" by (simp only: pos_divide_le_eq [OF b] of_int_mult)
    then show ?thesis by (simp only: of_int_le_iff)
  qed
  have low: "(\<lceil>?r\<rceil> - 1) * b < t"
  proof -
    have "of_int (\<lceil>?r\<rceil> - 1) < ?r" using ceiling_correct [of ?r] by simp
    then have "(of_int ((\<lceil>?r\<rceil> - 1) * b) :: rat) < of_int t" using b by (simp add: less_divide_eq)
    then show ?thesis by (simp only: of_int_less_iff)
  qed
  then have "(\<lceil>?r\<rceil> - 1) * b + 1 \<le> t" by simp
  then have "(of_int ((\<lceil>?r\<rceil> - 1) * b + 1) :: rat) \<le> of_int t" by (simp only: of_int_le_iff)
  then have gap: "of_int (\<lceil>?r\<rceil> - 1) + 1 / of_int b \<le> ?r" using b by (simp add: le_divide_eq ring_distribs)
  have "(of_int t :: rat) < of_int (2 ^ 53)" using assms(2) by (simp only: of_int_less_iff)
  then have "?r * of_int b < 2 ^ 53" using b by simp
  from ceiling_round_double [OF gap _ this assms(3,4)] False assms(1) b
  have "batch_count t b = \<lceil>?r\<rceil>" by (simp add: batch_count_def)
  moreover have "0 \<le> ?r" using assms(1) b by simp
  moreover from this have "0 \<le> \<lceil>?r\<rceil>" by linarith
  ultimately show ?thesis using up low False by simp
qed

lemma concat_chunks:
  "concat (map (\<lambda>i. map f [i * b ..< min n (Suc i * b)]) [0..<k]) = map f [0..<min n (k * b)]"
proof (induction k)
  case (Suc k)
  have "[0..<min n (k * b)] @ [k * b ..< min n (Suc k * b)] = [0..<min n (Suc k * b)]"
  proof (cases "k * b \<le> n")
    case True
    then have "k * b \<le> min n (Suc k * b)" "min n (k * b) = k * b" by simp_all
    then show ?thesis using upt_add_eq_append [of 0 "k * b" "min n (Suc k * b) - k * b"] by simp
  qed simp
  then have "map f [0..<min n (k * b)] @ map f [k * b ..< min n (Suc k * b)] = map f [0..<min n (Suc k * b)]"
    by (simp only: map_append [symmetric])
  then show ?case using Suc by simp
qed simp

text \<open>The row with an ordinal.\<close>

definition row_at :: "int \<Rightarrow> int \<Rightarrow> jsstr \<Rightarrow> WorkloadPhase \<Rightarrow> nat \<Rightarrow> SyntheticLog" where
  "row_at seed referenceTimeMs runId phase j = projr (generateLog seed referenceTimeMs runId phase (int j))"

text \<open>A run whose rows have timestamps with four-digit years, and whose counts are exact doubles.\<close>

definition wf_run :: "int \<Rightarrow> int \<Rightarrow> int \<Rightarrow> bool" where
  "wf_run referenceTimeMs totalRows batchSize \<longleftrightarrow>
     four_digit_year referenceTimeMs \<and> four_digit_year (referenceTimeMs - TWENTY_EIGHT_DAYS_MS) \<and>
     0 \<le> totalRows \<and> totalRows \<le> max_safe_integer \<and> 1 \<le> batchSize \<and> batchSize \<le> max_safe_integer"

lemma generateLog_row:
  assumes "wf_run referenceTimeMs totalRows batchSize" "int j < totalRows"
  shows "generateLog seed referenceTimeMs runId phase (int j) = Inr (row_at seed referenceTimeMs runId phase j)"
  using generate_total [of referenceTimeMs "int j" seed runId phase] assms
  by (auto simp: wf_run_def safe_int_def row_at_def)

lemma created_batch:
  assumes wf: "wf_run referenceTimeMs totalRows batchSize" and i: "int i * batchSize < totalRows"
  shows "createWorkloadBatch seed referenceTimeMs runId phase totalRows batchSize i =
    Inr \<lparr>batch_phase = phase, batchIndex = i, firstOrdinal = int i * batchSize,
      batch_logs = map (row_at seed referenceTimeMs runId phase) [i * nat batchSize ..< min (nat totalRows) (Suc i * nat batchSize)]\<rparr>"
proof -
  let ?gen = "generateLog seed referenceTimeMs runId phase" and ?row = "row_at seed referenceTimeMs runId phase"
  obtain b n where bn: "batchSize = int b" "totalRows = int n" "1 \<le> b"
    using wf zero_le_imp_eq_int [of batchSize] zero_le_imp_eq_int [of totalRows] by (auto simp: wf_run_def)
  define c where "c = min b (n - i * b)"
  have "int (i * b) < int n" using i by (simp add: bn)
  then have lt: "i * b < n" by (simp only: of_nat_less_iff)
  then have "int (n - i * b) = int n - int i * int b" by (simp add: of_nat_diff)
  then have c: "min batchSize (totalRows - int i * batchSize) = int c" by (simp only: bn c_def of_nat_min)
  have pos: "0 < c" using lt bn(3) by (simp add: c_def)
  have "q < n \<Longrightarrow> q + min b (n - q) = min n (b + q)" for q by auto
  from this [OF lt] have len: "i * b + c = min n (Suc i * b)" by (simp add: c_def)
  have "traverse (\<lambda>offset. ?gen (int i * batchSize + int offset)) [0..<c] = Inr (map (\<lambda>offset. ?row (i * b + offset)) [0..<c])"
  proof (rule traverse_total)
    fix k
    assume "k \<in> set [0..<c]"
    then have "i * b + k < n" by (simp add: c_def less_diff_conv add.commute)
    then have "int (i * b + k) < totalRows" by (simp only: bn(2) of_nat_less_iff)
    from generateLog_row [OF wf this] have "?gen (int (i * b + k)) = Inr (?row (i * b + k))" .
    then show "?gen (int i * batchSize + int k) = Inr (?row (i * b + k))" by (simp add: bn(1))
  qed
  moreover have "map (\<lambda>offset. ?row (i * b + offset)) [0..<c] = map ?row [i * b ..< i * b + c]"
    by (simp add: map_add_upt [symmetric] o_def add.commute)
  moreover have "[0..<nat (int c)] = [0..<c]" by simp
  ultimately show ?thesis using pos unfolding createWorkloadBatch_def Let_def c by (simp add: len bn)
qed

lemma rows_of_batches:
  assumes wf: "wf_run referenceTimeMs totalRows batchSize"
  defines "n \<equiv> nat (batch_count totalRows batchSize)"
  shows "i < n \<longleftrightarrow> int i * batchSize < totalRows"
    and "concat (map (\<lambda>i. map f [i * nat batchSize ..< min (nat totalRows) (Suc i * nat batchSize)]) [0..<n]) = map f [0..<nat totalRows]"
proof -
  have b: "1 \<le> batchSize" and t: "0 \<le> totalRows" using wf by (simp_all add: wf_run_def)
  have big: "totalRows < 2 ^ 53" "batchSize < 2 ^ 53" using wf by (simp_all add: wf_run_def max_safe_integer_def)
  note count = batch_count_exact [OF t big(1) b big(2)]
  let ?c = "batch_count totalRows batchSize"
  have iff: "int k < ?c \<longleftrightarrow> int k * batchSize < totalRows" for k
  proof
    assume "int k < ?c"
    then have "int k * batchSize \<le> (?c - 1) * batchSize" using b by (intro mult_right_mono) simp_all
    then show "int k * batchSize < totalRows" using count \<open>int k < ?c\<close> by (cases "totalRows = 0") (auto simp only: if_True if_False)
  next
    assume "int k * batchSize < totalRows"
    then have "int k * batchSize < ?c * batchSize" using count by linarith
    then show "int k < ?c" using b by (simp add: mult_less_cancel_right)
  qed
  then show "i < n \<longleftrightarrow> int i * batchSize < totalRows" using count by (simp add: n_def zless_nat_eq_int_zless)
  have "nat totalRows \<le> nat (?c * batchSize)" using count by (intro nat_mono) simp
  also have "\<dots> = n * nat batchSize" using count by (simp add: n_def nat_mult_distrib)
  finally show "concat (map (\<lambda>i. map f [i * nat batchSize ..< min (nat totalRows) (Suc i * nat batchSize)]) [0..<n]) = map f [0..<nat totalRows]"
    unfolding concat_chunks by (simp add: min_def)
qed

lemma sequence_identifies:
  "createSequence phase (int j) = createSequence phase' (int k) \<longleftrightarrow> phase = phase' \<and> j = k"
proof -
  have "read_dec (replicate m (digit_cu 0) @ s) = read_dec s" for m s
    by (induction m) (simp_all add: read_dec_def)
  then have "read_dec (pad_start 12 (cu CHR ''0'') (show_int (int n))) = n" for n
    by (simp add: pad_start_def cu_zero show_int_def show_pos_nat)
  then have "pad_start 12 (cu CHR ''0'') (show_int (int j)) = pad_start 12 (cu CHR ''0'') (show_int (int k)) \<longleftrightarrow> j = k"
    by metis
  moreover have "WorkloadPhase.Warmup = p \<or> p = Measured" for p by (cases p) auto
  ultimately show ?thesis by (cases phase; cases phase') (simp_all add: createSequence_def js_def cu_def)
qed

lemma row_sequence:
  "wf_run referenceTimeMs totalRows batchSize \<Longrightarrow> int j < totalRows \<Longrightarrow>
   loadgen_sequence (syn_attributes (row_at seed referenceTimeMs runId phase j)) = createSequence phase (int j)"
  using generated_row [OF generateLog_row] by (auto simp: workload_row_def)

text \<open>
  The batches of a phase are its rows: for counts in range, every batch below the count is
  created, is not empty and not too long, and together, in order, they are the rows with the
  ordinals from 0 on, each row with a sequence of its own; there is no batch after them.
\<close>

theorem batches_are_the_rows:
  assumes "wf_run referenceTimeMs totalRows batchSize"
  shows "\<exists>batches.
    traverse (createWorkloadBatch seed referenceTimeMs runId phase totalRows batchSize) [0..<nat (batch_count totalRows batchSize)] = Inr batches \<and>
    (\<forall>b \<in> set batches. batch_logs b \<noteq> [] \<and> int (length (batch_logs b)) \<le> batchSize) \<and>
    (\<forall>j < nat totalRows. generateLog seed referenceTimeMs runId phase (int j) = Inr (row_at seed referenceTimeMs runId phase j)) \<and>
    concat (map batch_logs batches) = map (row_at seed referenceTimeMs runId phase) [0..<nat totalRows] \<and>
    distinct (map (\<lambda>row. loadgen_sequence (syn_attributes row)) (concat (map batch_logs batches))) \<and>
    (\<forall>i \<ge> nat (batch_count totalRows batchSize). \<exists>e. createWorkloadBatch seed referenceTimeMs runId phase totalRows batchSize i = Inl e)"
proof -
  let ?row = "row_at seed referenceTimeMs runId phase" and ?n = "nat totalRows" and ?b = "nat batchSize"
  let ?k = "nat (batch_count totalRows batchSize)"
  let ?create = "createWorkloadBatch seed referenceTimeMs runId phase totalRows batchSize"
  let ?batch = "\<lambda>i. \<lparr>batch_phase = phase, batchIndex = i, firstOrdinal = int i * batchSize,
      batch_logs = map ?row [i * ?b ..< min ?n (Suc i * ?b)]\<rparr>"
  note rows = rows_of_batches [OF assms]
  have b: "1 \<le> ?b" "int ?b = batchSize" using assms unfolding wf_run_def by linarith+
  have "traverse ?create [0..<?k] = Inr (map ?batch [0..<?k])"
    by (rule traverse_total) (simp only: created_batch [OF assms] rows(1) [symmetric] atLeastLessThan_iff set_upt)
  moreover have "\<forall>x \<in> set (map ?batch [0..<?k]). batch_logs x \<noteq> [] \<and> int (length (batch_logs x)) \<le> batchSize"
  proof -
    have each: "batch_logs (?batch i) \<noteq> [] \<and> int (length (batch_logs (?batch i))) \<le> batchSize" if "i < ?k" for i
    proof -
      have "int (i * ?b) < int ?n" using that rows(1) [of i] b(2) by simp
      then have lt: "i * ?b < ?n" by (simp only: of_nat_less_iff)
      have "q < n \<Longrightarrow> 1 \<le> c \<Longrightarrow> q < min n (c + q) \<and> min n (c + q) - q \<le> c" for q n c :: nat by auto
      from this [OF lt b(1)] have r: "i * ?b < min ?n (Suc i * ?b)" "min ?n (Suc i * ?b) - i * ?b \<le> ?b" by (simp_all only: mult_Suc)
      then have "int (min ?n (Suc i * ?b) - i * ?b) \<le> int ?b" by (simp only: of_nat_le_iff)
      moreover have "[i * ?b ..< min ?n (Suc i * ?b)] \<noteq> []" using r(1) by (metis gr_implies_not0 not_le upt_eq_Nil_conv)
      ultimately show ?thesis using b(2) by (simp only: WorkloadBatch.select_convs length_map length_upt map_is_Nil_conv not_False_eq_True simp_thms)
    qed
    show ?thesis by (simp only: set_map set_upt ball_simps) (rule ballI, rule each, simp)
  qed
  moreover have "\<forall>j < ?n. generateLog seed referenceTimeMs runId phase (int j) = Inr (?row j)"
    using generateLog_row [OF assms] by simp
  moreover have all: "concat (map batch_logs (map ?batch [0..<?k])) = map ?row [0..<?n]"
    using rows(2) [of ?row] by (simp add: comp_def)
  moreover have "distinct (map (\<lambda>row. loadgen_sequence (syn_attributes row)) (map ?row [0..<?n]))"
    by (auto simp: distinct_map inj_on_def row_sequence [OF assms] sequence_identifies)
  moreover have "\<forall>i \<ge> ?k. \<exists>e. ?create i = Inl e"
    using rows(1) by (auto simp: createWorkloadBatch_def Let_def not_less [symmetric])
  ultimately show ?thesis by - (rule exI [of _ "map ?batch [0..<?k]"], simp only: simp_thms)
qed

lemma sample_workload: "wf_run 1786622400000 3 2"
  by (simp add: wf_run_def four_digit_year_iff TWENTY_EIGHT_DAYS_MS_def max_safe_integer_def)

theorem batches_are_the_rows_witness:
  "\<exists>batches. traverse (createWorkloadBatch 7 1786622400000 (js ''r'') Measured 3 2) [0..<nat (batch_count 3 2)] = Inr batches \<and>
     length (concat (map batch_logs batches)) = 3"
  using batches_are_the_rows [OF sample_workload, of 7 "js ''r''" Measured] by (elim exE conjE) (rule exI, rule conjI, assumption, simp)

end
