(* ===== verification/LoadStatistics.thy ===== *)
theory LoadStatistics
  imports JsArray DoubleFacts Errors
begin

section \<open>Percentiles and rates of the load generator (\<open>tools/loadgen/statistics.ts\<close>)\<close>

text \<open>
  The nearest-rank percentile, the summary of a series of samples and a rate per second, in
  double arithmetic. The rank is a rounded product of a rounded quotient; the lemmas show that it
  is the exact nearest rank all the same, and that the percentile is the least sample with the
  asked share of the samples at or below it.
\<close>

text \<open>A finite number as a rational, and the sign of a difference: the difference of two doubles is
  0 only when they are equal.\<close>

fun num_value :: "jsnum \<Rightarrow> rat" where
  "num_value (JFin r) = r"
| "num_value _ = 0"

definition compare_samples :: "jsnum \<Rightarrow> jsnum \<Rightarrow> int" where
  "compare_samples l r = (if num_value l < num_value r then - 1 else if num_value r < num_value l then 1 else 0)"

interpretation samples: consistent_comparator compare_samples
  by unfold_locales (auto simp: compare_samples_def split: if_splits)

definition bad_sample :: "jsnum \<Rightarrow> bool" where
  "bad_sample s \<longleftrightarrow> \<not> is_finite_num s \<or> num_value s < 0"

definition nearestRank :: "jsnum list \<Rightarrow> nat \<Rightarrow> throw + jsnum" where
  "nearestRank samples percentile =
     (if samples = [] \<or> list_ex bad_sample samples
      then Inl (ErrorMessage (js ''Nearest-rank samples must be finite, non-negative, and non-empty.''))
      else
        let sorted = sort_with compare_samples samples; n = length sorted;
            rank = \<lceil>round_double (round_double (of_nat percentile / 100) * of_nat n)\<rceil>;
            i = nat (min (int n - 1) (max 0 (rank - 1)))
        in if i < n then Inr (sorted ! i) else Inl (ErrorMessage (js ''Nearest-rank sample lookup failed.'')))"

definition MAX_REPORTED_RAW_SAMPLES :: nat where "MAX_REPORTED_RAW_SAMPLES = 20000"

record PercentileSummary =
  sampleCount :: nat
  p50 :: "jsnum option"
  p95 :: "jsnum option"
  p99 :: "jsnum option"
  unavailableReason :: "jsstr option"
  rawSamples :: "jsnum list"
  rawSamplesTruncated :: bool

definition summarizeSamples :: "jsnum list \<Rightarrow> jsstr \<Rightarrow> throw + PercentileSummary" where
  "summarizeSamples samples unavailable =
     (if samples = []
      then Inr \<lparr>sampleCount = 0, p50 = None, p95 = None, p99 = None, unavailableReason = Some unavailable,
                rawSamples = [], rawSamplesTruncated = False\<rparr>
      else if list_ex bad_sample samples
      then Inl (ErrorMessage (js ''Latency samples must be finite and non-negative.''))
      else case (nearestRank samples 50, nearestRank samples 95, nearestRank samples 99) of
          (Inr a, Inr b, Inr c) \<Rightarrow>
            Inr \<lparr>sampleCount = length samples, p50 = Some a, p95 = Some b, p99 = Some c, unavailableReason = None,
                 rawSamples = take MAX_REPORTED_RAW_SAMPLES samples,
                 rawSamplesTruncated = (MAX_REPORTED_RAW_SAMPLES < length samples)\<rparr>
        | (Inl e, _, _) \<Rightarrow> Inl e
        | (_, Inl e, _) \<Rightarrow> Inl e
        | (_, _, Inl e) \<Rightarrow> Inl e)"

definition NO_TERMINAL_SAMPLES :: jsstr where
  "NO_TERMINAL_SAMPLES = js ''No terminal samples were recorded.''"

definition ratePerSecond :: "int \<Rightarrow> jsnum \<Rightarrow> jsnum option" where
  "ratePerSecond n durationMs =
     (if n < 0 \<or> \<not> safe_int n \<or> \<not> is_finite_num durationMs \<or> num_value durationMs \<le> 0 then None
      else Some (number_of_decimal False (round_double (of_int (n * 1000)) / num_value durationMs)))"

text \<open>Only a bad sample stops a summary.\<close>

lemma nearestRank_total: "samples \<noteq> [] \<Longrightarrow> \<not> list_ex bad_sample samples \<Longrightarrow> \<exists>v. nearestRank samples percentile = Inr v"
proof -
  assume s: "samples \<noteq> []" "\<not> list_ex bad_sample samples"
  then have "0 < length (sort_with compare_samples samples)" by simp
  then have "nat (min (int (length (sort_with compare_samples samples)) - 1) (max 0 (rank - 1))) < length (sort_with compare_samples samples)" for rank
    by linarith
  with s show ?thesis by (simp add: nearestRank_def Let_def)
qed

lemma summarize_total: "\<not> list_ex bad_sample samples \<Longrightarrow> \<exists>s. summarizeSamples samples reason = Inr s"
  using nearestRank_total [of samples 50] nearestRank_total [of samples 95] nearestRank_total [of samples 99]
  by (cases "samples = []") (auto simp: summarizeSamples_def)

subsection \<open>The rank is exact\<close>

lemma percent_doubles:
  "round_double (50 / 100) = 1 / 2" "round_double (95 / 100) = 8556839292003942 / 2 ^ 53" "round_double (99 / 100) = 8917127262193582 / 2 ^ 53"
  by code_simp+

lemma rank_of_rounded:
  assumes d: "1 / 4 \<le> d" "d \<le> of_nat p / 100" "of_nat p / 100 - 1 / 2 ^ 54 \<le> d" and p: "p \<le> 100" and n: "0 < n" "n < 2 ^ 32"
  shows "\<lceil>round_double (d * of_nat n)\<rceil> = \<lceil>of_nat (p * n) / (100 :: rat)\<rceil>"
proof (rule ceiling_unique)
  let ?m = "\<lceil>of_nat (p * n) / (100 :: rat)\<rceil>" and ?r = "d * of_nat n"
  have n': "1 \<le> (of_nat n :: rat)" "(of_nat n :: rat) < 2 ^ 32" using n(1) of_nat_less_iff [of n "2 ^ 32", where ?'a = rat] n(2) by simp_all
  have p': "(of_nat p :: rat) \<le> 100" using p by simp
  have exact: "of_nat p / 100 * of_nat n = of_nat (p * n) / (100 :: rat)" by simp
  have up: "?r \<le> of_nat (p * n) / 100" using mult_right_mono [OF d(2), of "of_nat n"] exact n'(1) by simp
  have low: "of_nat (p * n) / 100 - of_nat n / 2 ^ 54 \<le> ?r"
    using mult_right_mono [OF d(3), of "of_nat n"] exact n'(1) by (simp add: left_diff_distrib)
  have r: "1 / 4 \<le> ?r" using mult_mono [of "1 / 4" d 1 "of_nat n"] d(1) n'(1) by simp
  have "?r \<le> 1 * of_nat n" using d(2) p' n'(1) by (intro mult_right_mono) linarith+
  then have big: "?r \<le> of_nat n" by simp
  then have lt: "?r < 2 ^ 53" using n'(2) by simp
  have "?r \<le> of_int ?m" using up le_of_int_ceiling [of "of_nat (p * n) / (100 :: rat)"] by linarith
  from round_double_le [OF _ lt this] r show "round_double ?r \<le> of_int ?m" by linarith
  have "\<bar>round_double ?r - ?r\<bar> \<le> ?r / 2 ^ 53" using r by (intro round_double_error [of _ 2]) simp_all
  moreover have "?r / 2 ^ 53 \<le> of_nat n / 2 ^ 53" by (rule divide_right_mono [OF big]) simp
  ultimately have near: "?r - of_nat n / 2 ^ 53 \<le> round_double ?r" by (simp only: abs_le_iff) linarith
  have "of_int ?m - 1 < of_nat (p * n) / (100 :: rat)" by linarith
  then have "(of_int ((?m - 1) * 100) :: rat) < of_int (int (p * n))" by (simp add: field_simps)
  then have "(?m - 1) * 100 + 1 \<le> int (p * n)" by (simp only: of_int_less_iff)
  then have "(of_int ((?m - 1) * 100 + 1) :: rat) \<le> of_int (int (p * n))" by (simp only: of_int_le_iff)
  then have "of_int ?m - 1 + 1 / 100 \<le> of_nat (p * n) / (100 :: rat)" by (simp add: field_simps)
  with low near n'(2) show "of_int ?m - 1 < round_double ?r" by simp
qed

lemma rank_exact:
  assumes "p \<in> {50, 95, 99}" "0 < n" "n < 2 ^ 32"
  shows "\<lceil>round_double (round_double (of_nat p / 100) * of_nat n)\<rceil> = \<lceil>of_nat (p * n) / (100 :: rat)\<rceil>"
proof -
  have "round_double (of_nat p / 100) \<in> {1 / 2, 8556839292003942 / 2 ^ 53, 8917127262193582 / 2 ^ 53}"
    using assms(1) percent_doubles by auto
  show ?thesis
    using assms percent_doubles by (elim insertE emptyE) (simp_all only: of_nat_numeral, (rule rank_of_rounded; simp)+)
qed

text \<open>In a list in ascending order, how many elements lie at or below the one at an index.\<close>

lemma sorted_counts:
  assumes sorted: "sorted_wrt (\<lambda>a b. num_value a \<le> num_value b) ys" and k: "k < length ys"
  shows "k < length (filter (\<lambda>s. num_value s \<le> num_value (ys ! k)) ys)"
    and "x < num_value (ys ! k) \<Longrightarrow> length (filter (\<lambda>s. num_value s \<le> x) ys) \<le> k"
proof -
  have split: "ys = take k ys @ ys ! k # drop (Suc k) ys" using k by (simp add: id_take_nth_drop)
  have below: "num_value a \<le> num_value (ys ! k)" if "a \<in> set (take k ys)" for a
    using sorted that by (subst (asm) split) (auto simp: sorted_wrt_append)
  have above: "num_value (ys ! k) \<le> num_value a" if "a \<in> set (drop (Suc k) ys)" for a
    using sorted that by (subst (asm) split) (auto simp: sorted_wrt_append)
  have "filter (\<lambda>s. num_value s \<le> num_value (ys ! k)) (take k ys) = take k ys" using below by (simp add: filter_id_conv)
  moreover have "filter P ys = filter P (take k ys) @ filter P (ys ! k # drop (Suc k) ys)" for P
    by (subst split) (rule filter_append)
  ultimately show "k < length (filter (\<lambda>s. num_value s \<le> num_value (ys ! k)) ys)" using k by simp
  assume x: "x < num_value (ys ! k)"
  have "filter (\<lambda>s. num_value s \<le> x) (ys ! k # drop (Suc k) ys) = []"
    using x above by (fastforce simp: filter_empty_conv)
  then have "filter (\<lambda>s. num_value s \<le> x) ys = filter (\<lambda>s. num_value s \<le> x) (take k ys)"
    by (subst split) (simp only: filter_append append_Nil2)
  then show "length (filter (\<lambda>s. num_value s \<le> x) ys) \<le> k"
    using length_filter_le [of "\<lambda>s. num_value s \<le> x" "take k ys"] by simp
qed

lemma sort_samples_ascending: "sorted_wrt (\<lambda>a b. num_value a \<le> num_value b) (sort_with compare_samples xs)"
proof -
  have "(\<lambda>a b. compare_samples a b \<le> 0) = (\<lambda>a b. num_value a \<le> num_value b)"
    by (auto simp: fun_eq_iff compare_samples_def)
  then show ?thesis using samples.sorted_sort_with [of xs] by simp
qed

text \<open>How many samples lie at or below a value.\<close>

definition at_most :: "rat \<Rightarrow> jsnum list \<Rightarrow> nat" where
  "at_most x samples = length (filter (\<lambda>s. num_value s \<le> x) samples)"

lemma at_most_sort: "at_most x (sort_with compare_samples samples) = at_most x samples"
  unfolding at_most_def by (metis mset_filter mset_sort_with size_mset)

lemma nearest_rank_spec:
  assumes samples: "samples \<noteq> []" "\<not> list_ex bad_sample samples" and p: "p \<in> {50, 95, 99}" and len: "length samples < 2 ^ 32"
  shows "\<exists>v \<in> set samples. nearestRank samples p = Inr v \<and> p * length samples \<le> 100 * at_most (num_value v) samples \<and>
    (\<forall>x < num_value v. 100 * at_most x samples < p * length samples)"
proof -
  let ?ys = "sort_with compare_samples samples" and ?n = "length samples"
  let ?q = "of_nat (p * ?n) / (100 :: rat)"
  have n: "0 < ?n" using samples(1) by simp
  have "0 < p" "p \<le> 100" using p by auto
  then have "0 < p * ?n" "p * ?n \<le> 100 * ?n" using n by (simp_all add: mult_le_mono1)
  then have "(0 :: rat) < of_nat (p * ?n)" "(of_nat (p * ?n) :: rat) \<le> of_nat (100 * ?n)" by (simp_all only: of_nat_le_iff of_nat_0_less_iff)
  then have q: "0 < ?q" "?q \<le> of_nat ?n" by simp_all
  then have c: "1 \<le> \<lceil>?q\<rceil>" "\<lceil>?q\<rceil> \<le> int ?n" using ceiling_mono [OF q(2)] by (simp_all add: one_le_ceiling)
  define k where "k = nat (\<lceil>?q\<rceil> - 1)"
  have k: "k < ?n" "int k = \<lceil>?q\<rceil> - 1" using c by (simp_all add: k_def nat_less_iff del: of_nat_mult)
  let ?v = "?ys ! k"
  have run: "nearestRank samples p = Inr ?v"
  proof -
    have "max 0 (\<lceil>?q\<rceil> - 1) = \<lceil>?q\<rceil> - 1" "min (int ?n - 1) (\<lceil>?q\<rceil> - 1) = \<lceil>?q\<rceil> - 1" using c by linarith+
    then show ?thesis
      unfolding nearestRank_def Let_def length_sort_with rank_exact [OF p n len]
      using samples k by (simp add: k_def del: of_nat_mult)
  qed
  have q_k: "of_nat k < ?q" "?q \<le> of_nat (Suc k)"
  proof -
    have "of_int (int k) = of_int \<lceil>?q\<rceil> - (1 :: rat)" by (simp add: k(2))
    then have e: "of_int \<lceil>?q\<rceil> = (of_nat k :: rat) + 1" by simp
    show "of_nat k < ?q" "?q \<le> of_nat (Suc k)" using ceiling_correct [of ?q] unfolding e by simp_all
  qed
  have "(of_nat (100 * k) :: rat) < of_nat (p * ?n)" "(of_nat (p * ?n) :: rat) \<le> of_nat (100 * Suc k)" using q_k by simp_all
  then have pk: "100 * k < p * ?n" "p * ?n \<le> 100 * Suc k" by (simp_all only: of_nat_less_iff of_nat_le_iff)
  note counts = sorted_counts [OF sort_samples_ascending [of samples], of k, folded at_most_def, unfolded at_most_sort length_sort_with, OF k(1)]
  have "?v \<in> set samples" using nth_mem [of k ?ys] k(1) by simp
  moreover have "p * ?n \<le> 100 * at_most (num_value ?v) samples" using mult_le_mono2 [OF Suc_leI [OF counts(1)], of 100] pk(2) by (rule le_trans [rotated])
  moreover have "\<forall>x < num_value ?v. 100 * at_most x samples < p * ?n" using counts(2) pk(1) by (meson le_less_trans mult_le_mono2)
  ultimately show ?thesis using run by blast
qed

subsection \<open>Summaries\<close>

text \<open>The least sample with the share \<open>p\<close> percent of the samples at or below it.\<close>

definition is_percentile :: "jsnum list \<Rightarrow> nat \<Rightarrow> jsnum \<Rightarrow> bool" where
  "is_percentile samples p v \<longleftrightarrow>
     v \<in> set samples \<and> p * length samples \<le> 100 * at_most (num_value v) samples \<and>
     (\<forall>x < num_value v. 100 * at_most x samples < p * length samples)"

definition is_summary :: "jsnum list \<Rightarrow> PercentileSummary \<Rightarrow> bool" where
  "is_summary samples s \<longleftrightarrow>
     sampleCount s = length samples \<and>
     (if samples = [] then p50 s = None \<and> p95 s = None \<and> p99 s = None
      else (\<exists>a b c. p50 s = Some a \<and> p95 s = Some b \<and> p99 s = Some c \<and>
              is_percentile samples 50 a \<and> is_percentile samples 95 b \<and> is_percentile samples 99 c)) \<and>
     rawSamples s = take MAX_REPORTED_RAW_SAMPLES samples"

lemma nearestRank_percentile:
  "samples \<noteq> [] \<Longrightarrow> \<not> list_ex bad_sample samples \<Longrightarrow> p \<in> {50, 95, 99} \<Longrightarrow> length samples < 2 ^ 32 \<Longrightarrow>
   \<exists>v. nearestRank samples p = Inr v \<and> is_percentile samples p v"
  using nearest_rank_spec [of samples p] by (auto simp: is_percentile_def)

lemma summary_spec:
  assumes "length samples < 2 ^ 32"
  shows "if list_ex bad_sample samples then (\<exists>e. summarizeSamples samples reason = Inl e)
    else (\<exists>s. summarizeSamples samples reason = Inr s \<and> is_summary samples s)"
proof (cases "samples = [] \<or> list_ex bad_sample samples")
  case True
  then show ?thesis by (cases samples) (auto simp: summarizeSamples_def is_summary_def)
next
  case False
  then have ok: "samples \<noteq> []" "\<not> list_ex bad_sample samples" by auto
  obtain a b c where "nearestRank samples 50 = Inr a" "is_percentile samples 50 a" "nearestRank samples 95 = Inr b"
    "is_percentile samples 95 b" "nearestRank samples 99 = Inr c" "is_percentile samples 99 c"
    using nearestRank_percentile [OF ok _ assms] by (metis insertCI)
  then show ?thesis using ok by (simp add: summarizeSamples_def is_summary_def)
qed

text \<open>
  The percentiles reported for a series of samples are the exact nearest-rank percentiles,
  although the rank is computed with two roundings: each is a sample, the given share of the
  samples lies at or below it, and at or below anything smaller lies less; a series with a
  negative or non-finite sample is refused.
\<close>

theorem summary_percentiles_exact:
  assumes "length samples < 2 ^ 32"
  shows "if list_ex bad_sample samples then (\<exists>e. summarizeSamples samples reason = Inl e)
    else (\<exists>s. summarizeSamples samples reason = Inr s \<and> is_summary samples s)"
  using assms by (rule summary_spec)

theorem summary_percentiles_exact_witness:
  "\<exists>s. summarizeSamples [JFin 7, JFin 3, JFin (5 / 2)] [] = Inr s \<and> is_summary [JFin 7, JFin 3, JFin (5 / 2)] s"
  using summary_percentiles_exact [of "[JFin 7, JFin 3, JFin (5 / 2)]" "[]"] by (simp add: bad_sample_def)

end
