(* ===== verification/LoadIngestion.thy ===== *)
theory LoadIngestion
  imports LoadClient Machines
begin

section \<open>A phase of ingestion (\<open>tools/loadgen/ingestion.ts\<close>)\<close>

text \<open>
  Several workers take the batches of a phase in turn: each creates the next batch, sends it, and
  counts what the answer says before it takes another. The state is the closure's variables, with
  the requests that are under way and the batches that were handed to \<open>send\<close>; answers come in any
  order, and the signal may abort the phase at any time. The lemmas show the accounting invariant
  the code asserts at the end, that every batch is sent once and in order, and that a phase ends.
\<close>

record IngestionCounters =
  requestsScheduled :: int
  requestsStarted :: int
  requestsCompleted :: int
  statusCodes :: "(jsstr \<times> int) list"
  transportFailures :: int
  timeouts :: int
  invalidResponses :: int
  rowsScheduled :: int
  attemptedRows :: int
  confirmedAcceptedRows :: int
  serverRejectedRows :: int
  indeterminateRows :: int

record FinalCounters = IngestionCounters +
  requestsNotStarted :: int
  requestsUnresolved :: int
  rowsNotAttempted :: int

definition assertIngestionAccounting :: "FinalCounters \<Rightarrow> throw + unit" where
  "assertIngestionAccounting c =
     (if requestsScheduled c \<noteq> requestsStarted c + requestsNotStarted c
      then Inl (ErrorMessage (js ''Ingestion request accounting invariant failed.''))
      else if requestsStarted c \<noteq> requestsCompleted c + requestsUnresolved c
      then Inl (ErrorMessage (js ''Ingestion started-request accounting invariant failed.''))
      else if rowsScheduled c \<noteq> attemptedRows c + rowsNotAttempted c \<or>
        attemptedRows c \<noteq> confirmedAcceptedRows c + serverRejectedRows c + indeterminateRows c
      then Inl (ErrorMessage (js ''Ingestion row accounting invariant failed.''))
      else Inr ())"

definition immutableCounters :: "IngestionCounters \<Rightarrow> throw + FinalCounters" where
  "immutableCounters m =
     (let result = IngestionCounters.extend m
        (FinalCounters.fields (requestsScheduled m - requestsStarted m) (requestsStarted m - requestsCompleted m)
          (rowsScheduled m - attemptedRows m))
      in case assertIngestionAccounting result of Inl e \<Rightarrow> Inl e | Inr u \<Rightarrow> Inr result)"

definition countStatus :: "int \<Rightarrow> IngestionCounters \<Rightarrow> IngestionCounters" where
  "countStatus status c =
     c\<lparr>statusCodes := assign_key (statusCodes c) (show_int status)
         ((case map_of (statusCodes c) (show_int status) of None \<Rightarrow> 0 | Some n \<Rightarrow> n) + 1)\<rparr>"

record phase_input =
  in_seed :: int
  in_referenceTimeMs :: int
  in_runId :: jsstr
  in_batchSize :: int
  in_concurrency :: int
  in_phase :: WorkloadPhase
  in_totalRows :: int

record IngestionProbe =
  probe_log :: SyntheticLog
  postDispatchMonotonicMs :: rat
  postAcknowledgementMonotonicMs :: "rat option"
  probe_accepted :: bool

record phase_state =
  counters :: IngestionCounters
  latencies :: "rat list"
  nextBatchIndex :: nat
  firstDispatchMs :: "rat option"
  lastTerminalMs :: "rat option"
  probe :: "IngestionProbe option"
  sending :: "(WorkloadBatch \<times> rat) list"
  sentBatches :: "WorkloadBatch list"
  workerErrors :: "throw list"
  signalAborted :: bool

definition phase_batches :: "phase_input \<Rightarrow> int" where
  "phase_batches input = batch_count (in_totalRows input) (in_batchSize input)"

definition initial_phase :: "phase_input \<Rightarrow> phase_state" where
  "initial_phase input =
     \<lparr>counters =
        \<lparr>requestsScheduled = phase_batches input, requestsStarted = 0, requestsCompleted = 0, statusCodes = [],
         transportFailures = 0, timeouts = 0, invalidResponses = 0, rowsScheduled = in_totalRows input,
         attemptedRows = 0, confirmedAcceptedRows = 0, serverRejectedRows = 0, indeterminateRows = 0\<rparr>,
      latencies = [], nextBatchIndex = 0, firstDispatchMs = None, lastTerminalMs = None, probe = None,
      sending = [], sentBatches = [], workerErrors = [], signalAborted = False\<rparr>"

subsection \<open>The worker\<close>

text \<open>From the test of the loop to the call of \<open>send\<close>; \<open>dispatchMs\<close> is what the clock shows there.\<close>

definition next_batch :: "phase_input \<Rightarrow> nat \<Rightarrow> throw + WorkloadBatch" where
  "next_batch input i =
     createWorkloadBatch (in_seed input) (in_referenceTimeMs input) (in_runId input) (in_phase input)
       (in_totalRows input) (in_batchSize input) i"

definition worker_turn :: "phase_input \<Rightarrow> rat \<Rightarrow> phase_state \<Rightarrow> phase_state" where
  "worker_turn input dispatchMs s =
     (if \<not> int (nextBatchIndex s) < phase_batches input \<or> signalAborted s then s
      else
        let s' = s\<lparr>nextBatchIndex := nextBatchIndex s + 1\<rparr>
        in case next_batch input (nextBatchIndex s) of
             Inl e \<Rightarrow> s'\<lparr>workerErrors := workerErrors s' @ [e]\<rparr>
           | Inr batch \<Rightarrow>
               let c = counters s'
               in s'\<lparr>counters := c\<lparr>requestsStarted := requestsStarted c + 1,
                                   attemptedRows := attemptedRows c + int (length (batch_logs batch))\<rparr>,
                     firstDispatchMs := (case firstDispatchMs s' of None \<Rightarrow> Some dispatchMs | Some t \<Rightarrow> Some t),
                     sending := sending s' @ [(batch, dispatchMs)],
                     sentBatches := sentBatches s' @ [batch]\<rparr>)"

text \<open>A \<open>send\<close> that rejects is a transport failure at the time the clock shows.\<close>

definition rejected_send :: "rat \<Rightarrow> rat \<Rightarrow> ingestion_outcome timed_result" where
  "rejected_send dispatchMs completed =
     \<lparr>result_outcome = IngestTransport, startedAtMs = dispatchMs, completedAtMs = completed,
      latencyMs = elapsed completed dispatchMs\<rparr>"

definition count_outcome :: "ingestion_outcome \<Rightarrow> int \<Rightarrow> IngestionCounters \<Rightarrow> IngestionCounters" where
  "count_outcome outcome rowCount c =
     (case outcome of
        IngestSuccess n rejections \<Rightarrow>
          (let c = countStatus 200 c
           in c\<lparr>confirmedAcceptedRows := confirmedAcceptedRows c + n,
                serverRejectedRows := serverRejectedRows c + int (length rejections)\<rparr>)
      | IngestHttp status \<Rightarrow>
          (let c = countStatus status c in c\<lparr>indeterminateRows := indeterminateRows c + rowCount\<rparr>)
      | IngestTimeout \<Rightarrow> c\<lparr>timeouts := timeouts c + 1, indeterminateRows := indeterminateRows c + rowCount\<rparr>
      | IngestTransport \<Rightarrow>
          c\<lparr>transportFailures := transportFailures c + 1, indeterminateRows := indeterminateRows c + rowCount\<rparr>
      | IngestInvalid status \<Rightarrow>
          (let c = countStatus status c
           in c\<lparr>invalidResponses := invalidResponses c + 1, indeterminateRows := indeterminateRows c + rowCount\<rparr>))"

definition probe_of :: "phase_input \<Rightarrow> WorkloadBatch \<Rightarrow> ingestion_outcome timed_result \<Rightarrow> IngestionProbe option \<Rightarrow> IngestionProbe option" where
  "probe_of input batch result old =
     (if batchIndex batch = 0 \<and> in_phase input = Measured \<and> batch_logs batch \<noteq> []
      then
        let ok = (case result_outcome result of
                    IngestSuccess n rejections \<Rightarrow> n = int (length (batch_logs batch)) | _ \<Rightarrow> False)
        in Some \<lparr>probe_log = hd (batch_logs batch), postDispatchMonotonicMs = startedAtMs result,
                 postAcknowledgementMonotonicMs = (if ok then Some (completedAtMs result) else None), probe_accepted = ok\<rparr>
      else old)"

text \<open>A worker continues after its \<open>send\<close>, up to the next one or to its end.\<close>

definition send_settles ::
    "phase_input \<Rightarrow> nat \<Rightarrow> ingestion_outcome timed_result \<Rightarrow> rat \<Rightarrow> phase_state \<Rightarrow> phase_state" where
  "send_settles input i result nextDispatchMs s =
     (let batch = fst (sending s ! i); c = counters s;
          s' = s\<lparr>sending := take i (sending s) @ drop (i + 1) (sending s),
                 counters := count_outcome (result_outcome result) (int (length (batch_logs batch)))
                   (c\<lparr>requestsCompleted := requestsCompleted c + 1\<rparr>),
                 lastTerminalMs := Some (case lastTerminalMs s of None \<Rightarrow> completedAtMs result | Some t \<Rightarrow> max t (completedAtMs result)),
                 latencies := latencies s @ [latencyMs result],
                 probe := probe_of input batch result (probe s)\<rparr>
      in worker_turn input nextDispatchMs s')"

text \<open>The workers begin one after the other, each with its reading of the clock.\<close>

definition worker_count :: "phase_input \<Rightarrow> nat" where
  "worker_count input = nat (min (in_concurrency input) (phase_batches input))"

definition begin_phase :: "phase_input \<Rightarrow> (nat \<Rightarrow> rat) \<Rightarrow> phase_state" where
  "begin_phase input clock = fold (\<lambda>w. worker_turn input (clock w)) [0..<worker_count input] (initial_phase input)"

record IngestionPhaseResult =
  final_counters :: FinalCounters
  durationMs :: "rat option"
  confirmedAcceptedRowsPerSecond :: "jsnum option"
  attemptedRowsPerSecond :: "jsnum option"
  requestLatency :: PercentileSummary
  final_probe :: "IngestionProbe option"

text \<open>The result once every worker has ended: the first rejection, or the accounts.\<close>

definition phase_result :: "phase_input \<Rightarrow> phase_state \<Rightarrow> throw + IngestionPhaseResult" where
  "phase_result input s =
     (if phase_batches input = 0
      then (case (immutableCounters (counters s), summarizeSamples [] (js ''No ingestion requests were configured.'')) of
              (Inr c, Inr l) \<Rightarrow>
                Inr \<lparr>final_counters = c, durationMs = None, confirmedAcceptedRowsPerSecond = None,
                     attemptedRowsPerSecond = None, requestLatency = l, final_probe = None\<rparr>
            | (Inl e, _) \<Rightarrow> Inl e
            | (_, Inl e) \<Rightarrow> Inl e)
      else case workerErrors s of
          e # es \<Rightarrow> Inl e
        | [] \<Rightarrow>
            let duration = (case (firstDispatchMs s, lastTerminalMs s) of
                  (Some a, Some b) \<Rightarrow> Some (elapsed b a) | _ \<Rightarrow> None)
            in case (immutableCounters (counters s), summarizeSamples (map JFin (latencies s)) NO_TERMINAL_SAMPLES) of
                 (Inr c, Inr l) \<Rightarrow>
                   Inr \<lparr>final_counters = c, durationMs = duration,
                        confirmedAcceptedRowsPerSecond = Option.bind duration (\<lambda>d. ratePerSecond (confirmedAcceptedRows c) (JFin d)),
                        attemptedRowsPerSecond = Option.bind duration (\<lambda>d. ratePerSecond (attemptedRows c) (JFin d)),
                        requestLatency = l, final_probe = probe s\<rparr>
               | (Inl e, _) \<Rightarrow> Inl e
               | (_, Inl e) \<Rightarrow> Inl e)"

subsection \<open>Steps\<close>

text \<open>The answer to a request is what the client makes of any behaviour of the network.\<close>

inductive phase_step :: "phase_input \<Rightarrow> phase_state \<Rightarrow> phase_state \<Rightarrow> bool" for input where
  Answered: "i < length (sending s) \<Longrightarrow>
    phase_step input s (send_settles input i (ingestion_sender (fst (sending s ! i)) fetched started completed) nextMs s)"
| Rejected: "i < length (sending s) \<Longrightarrow>
    phase_step input s (send_settles input i (rejected_send (snd (sending s ! i)) completed) nextMs s)"
| Aborted: "phase_step input s (s\<lparr>signalAborted := True\<rparr>)"

inductive_cases phase_stepE: "phase_step input s t"

subsection \<open>The accounts\<close>

definition row_sum :: "WorkloadBatch list \<Rightarrow> int" where
  "row_sum batches = sum_list (map (\<lambda>b. int (length (batch_logs b))) batches)"

lemma row_sum_simps [simp]: "row_sum [] = 0" "row_sum (b # bs) = int (length (batch_logs b)) + row_sum bs"
  "row_sum (xs @ ys) = row_sum xs + row_sum ys"
  by (simp_all add: row_sum_def)

text \<open>
  A configuration the program computes with exactly; the option parser admits no other, but for
  reference times in the first four weeks of the year 0.
\<close>

definition wf_input :: "phase_input \<Rightarrow> bool" where
  "wf_input input \<longleftrightarrow>
     wf_run (in_referenceTimeMs input) (in_totalRows input) (in_batchSize input) \<and>
     1 \<le> in_concurrency input \<and> phase_batches input < 2 ^ 32"

text \<open>The accounts of a request, each kind of outcome in one place.\<close>

definition accounts :: "IngestionCounters \<Rightarrow> bool" where
  "accounts c \<longleftrightarrow>
     requestsCompleted c = sum_list (map snd (statusCodes c)) + transportFailures c + timeouts c"

definition judged_rows :: "IngestionCounters \<Rightarrow> int" where
  "judged_rows c = confirmedAcceptedRows c + serverRejectedRows c + indeterminateRows c"

definition phase_inv :: "phase_input \<Rightarrow> nat \<Rightarrow> phase_state \<Rightarrow> bool" where
  "phase_inv input workers s \<longleftrightarrow>
     (let c = counters s in
      requestsScheduled c = phase_batches input \<and> rowsScheduled c = in_totalRows input \<and> accounts c \<and>
      requestsStarted c = int (length (sentBatches s)) \<and> requestsStarted c = requestsCompleted c + int (length (sending s)) \<and>
      attemptedRows c = row_sum (sentBatches s) \<and> attemptedRows c = judged_rows c + row_sum (map fst (sending s)) \<and>
      requestsCompleted c = int (length (latencies s)) \<and> (\<forall>t \<in> set (latencies s). 0 \<le> t) \<and>
      workerErrors s = [] \<and> int (nextBatchIndex s) \<le> phase_batches input \<and>
      traverse (next_batch input) [0..<nextBatchIndex s] = Inr (sentBatches s) \<and>
      length (sending s) \<le> workers \<and>
      (signalAborted s \<or> int (nextBatchIndex s) = phase_batches input \<or> length (sending s) = workers))"

lemma traverse_snoc: "traverse f xs = Inr ys \<Longrightarrow> f x = Inr y \<Longrightarrow> traverse f (xs @ [x]) = Inr (ys @ [y])"
  by (induction xs arbitrary: ys) (auto split: sum.splits)

lemma phase_batches_nonneg: "wf_input input \<Longrightarrow> 0 \<le> phase_batches input"
  using batch_count_exact [of "in_totalRows input" "in_batchSize input"]
  by (simp add: wf_input_def wf_run_def phase_batches_def max_safe_integer_def)

lemma next_batch_created:
  assumes "wf_input input" "int i < phase_batches input"
  shows "\<exists>batch. next_batch input i = Inr batch"
proof -
  have "i < nat (batch_count (in_totalRows input) (in_batchSize input))" using assms(2) by (simp add: phase_batches_def)
  then have "int i * in_batchSize input < in_totalRows input" using rows_of_batches(1) assms(1) by (auto simp: wf_input_def)
  then show ?thesis using created_batch assms(1) by (simp add: wf_input_def next_batch_def)
qed

lemma initial_phase_inv: "wf_input input \<Longrightarrow> phase_inv input 0 (initial_phase input)"
  using phase_batches_nonneg by (simp add: phase_inv_def initial_phase_def accounts_def judged_rows_def)

lemma worker_turn_inv:
  assumes "wf_input input" "phase_inv input workers s"
  shows "phase_inv input (Suc workers) (worker_turn input dispatchMs s)"
proof (cases "int (nextBatchIndex s) < phase_batches input \<and> \<not> signalAborted s")
  case True
  then obtain batch where batch: "next_batch input (nextBatchIndex s) = Inr batch" using next_batch_created [OF assms(1)] by blast
  have "traverse (next_batch input) ([0..<nextBatchIndex s] @ [nextBatchIndex s]) = Inr (sentBatches s @ [batch])"
    using assms(2) batch by (intro traverse_snoc) (simp_all add: phase_inv_def Let_def)
  then show ?thesis using True assms(2) batch
    by (auto simp: phase_inv_def worker_turn_def Let_def accounts_def judged_rows_def)
next
  case False
  then show ?thesis using assms(2) by (auto simp: phase_inv_def worker_turn_def Let_def)
qed

lemma sum_assign_key:
  "sum_list (map snd (assign_key kvs k ((case map_of kvs k of None \<Rightarrow> 0 | Some n \<Rightarrow> n) + 1))) = sum_list (map snd kvs) + (1 :: int)"
  by (induction kvs) (auto split: option.splits)

lemma countStatus_simps [simp]:
  "sum_list (map snd (statusCodes (countStatus status c))) = sum_list (map snd (statusCodes c)) + 1"
  "requestsScheduled (countStatus status c) = requestsScheduled c" "rowsScheduled (countStatus status c) = rowsScheduled c"
  "requestsStarted (countStatus status c) = requestsStarted c" "requestsCompleted (countStatus status c) = requestsCompleted c"
  "attemptedRows (countStatus status c) = attemptedRows c" "timeouts (countStatus status c) = timeouts c"
  "transportFailures (countStatus status c) = transportFailures c" "judged_rows (countStatus status c) = judged_rows c"
  "confirmedAcceptedRows (countStatus status c) = confirmedAcceptedRows c"
  "serverRejectedRows (countStatus status c) = serverRejectedRows c" "indeterminateRows (countStatus status c) = indeterminateRows c"
  using sum_assign_key [of "statusCodes c" "show_int status"]
  by (simp_all add: countStatus_def judged_rows_def)

text \<open>An outcome accounts for the rows of its batch.\<close>

definition accounts_for :: "ingestion_outcome \<Rightarrow> int \<Rightarrow> bool" where
  "accounts_for outcome rows \<longleftrightarrow>
     (case outcome of IngestSuccess n rejections \<Rightarrow> n + int (length rejections) = rows | _ \<Rightarrow> True)"

lemma count_outcome_simps:
  "requestsScheduled (count_outcome r n c) = requestsScheduled c" "rowsScheduled (count_outcome r n c) = rowsScheduled c"
  "requestsStarted (count_outcome r n c) = requestsStarted c" "requestsCompleted (count_outcome r n c) = requestsCompleted c"
  "attemptedRows (count_outcome r n c) = attemptedRows c"
  "accounts_for r n \<Longrightarrow> judged_rows (count_outcome r n c) = judged_rows c + n"
  "accounts c \<Longrightarrow> m = requestsCompleted c + 1 \<Longrightarrow> accounts (count_outcome r n (c\<lparr>requestsCompleted := m\<rparr>))"
  by (cases r; simp add: count_outcome_def Let_def accounts_for_def judged_rows_def accounts_def)+

lemma remove_nth:
  assumes "i < length xs"
  shows "length (take i xs @ drop (i + 1) xs) = length xs - 1"
    and "row_sum (map fst (take i xs @ drop (i + 1) xs)) = row_sum (map fst xs) - int (length (batch_logs (fst (xs ! i))))"
proof -
  have split: "xs = take i xs @ xs ! i # drop (i + 1) xs" using assms id_take_nth_drop [of i xs] by simp
  have "row_sum (map fst xs) = row_sum (map fst (take i xs @ xs ! i # drop (i + 1) xs))" by (subst split) (rule refl)
  then show "row_sum (map fst (take i xs @ drop (i + 1) xs)) = row_sum (map fst xs) - int (length (batch_logs (fst (xs ! i))))" by simp
qed (use assms in simp)

lemma send_settles_inv:
  assumes wf: "wf_input input" and inv: "phase_inv input workers s" and i: "i < length (sending s)"
    and result: "accounts_for (result_outcome result) (int (length (batch_logs (fst (sending s ! i)))))" "0 \<le> latencyMs result"
  shows "phase_inv input workers (send_settles input i result nextMs s)"
proof -
  obtain k where k: "workers = Suc k" using inv i by (cases workers) (auto simp: phase_inv_def Let_def)
  note facts = inv [unfolded phase_inv_def Let_def]
  have "phase_inv input k (s\<lparr>sending := take i (sending s) @ drop (i + 1) (sending s),
      counters := count_outcome (result_outcome result) (int (length (batch_logs (fst (sending s ! i)))))
        (counters s\<lparr>requestsCompleted := requestsCompleted (counters s) + 1\<rparr>),
      lastTerminalMs := Some (case lastTerminalMs s of None \<Rightarrow> completedAtMs result | Some t \<Rightarrow> max t (completedAtMs result)),
      latencies := latencies s @ [latencyMs result], probe := probe_of input (fst (sending s ! i)) result (probe s)\<rparr>)"
    using facts result i k remove_nth [OF i]
    unfolding phase_inv_def Let_def
    by (simp add: count_outcome_simps) (auto simp: judged_rows_def)
  from worker_turn_inv [OF wf this] show ?thesis by (simp add: send_settles_def Let_def k)
qed

subsection \<open>Every phase keeps its accounts\<close>

definition phase_machine_inv :: "phase_input \<Rightarrow> phase_state \<Rightarrow> bool" where
  "phase_machine_inv input s \<longleftrightarrow> wf_input input \<and> phase_inv input (worker_count input) s"

lemma begin_phase_inv: "wf_input input \<Longrightarrow> phase_inv input (worker_count input) (begin_phase input clock)"
proof -
  assume wf: "wf_input input"
  have "phase_inv input n (fold (\<lambda>w. worker_turn input (clock w)) [0..<n] (initial_phase input))" for n
    by (induction n) (simp_all add: initial_phase_inv wf worker_turn_inv)
  then show ?thesis by (simp add: begin_phase_def)
qed

lemma accounts_for_sender:
  "accounts_for (result_outcome (ingestion_sender batch fetched started completed)) (int (length (batch_logs batch)))"
  using sender_accounts [of batch fetched started completed] by (auto simp: accounts_for_def split: ingestion_outcome.splits)

lemma phase_step_inv: "phase_machine_inv input s \<Longrightarrow> phase_step input s t \<Longrightarrow> phase_machine_inv input t"
proof (erule phase_stepE)
  fix i fetched started completed nextMs
  assume "phase_machine_inv input s" "i < length (sending s)"
    "t = send_settles input i (ingestion_sender (fst (sending s ! i)) fetched started completed) nextMs s"
  then show ?thesis using send_settles_inv accounts_for_sender sender_latency by (simp add: phase_machine_inv_def)
next
  fix i completed nextMs
  assume "phase_machine_inv input s" "i < length (sending s)"
    "t = send_settles input i (rejected_send (snd (sending s ! i)) completed) nextMs s"
  then show ?thesis
    using send_settles_inv by (simp add: phase_machine_inv_def rejected_send_def accounts_for_def elapsed_nonneg)
next
  assume "phase_machine_inv input s" "t = s\<lparr>signalAborted := True\<rparr>"
  then show ?thesis by (auto simp: phase_machine_inv_def phase_inv_def Let_def)
qed

inductive phase_move :: "phase_input \<Rightarrow> phase_state \<Rightarrow> phase_state \<Rightarrow> bool" for input where
  "i < length (sending s) \<Longrightarrow>
    phase_move input s (send_settles input i (ingestion_sender (fst (sending s ! i)) fetched started completed) nextMs s)"
| "i < length (sending s) \<Longrightarrow>
    phase_move input s (send_settles input i (rejected_send (snd (sending s ! i)) completed) nextMs s)"

inductive_cases phase_moveE: "phase_move input s t"

definition phase_over :: "phase_state \<Rightarrow> bool" where
  "phase_over s \<longleftrightarrow> sending s = []"

definition phase_work :: "phase_input \<Rightarrow> phase_state \<Rightarrow> nat" where
  "phase_work input s = nat (2 * (phase_batches input - int (nextBatchIndex s))) + length (sending s)"

lemma worker_turn_work: "phase_work input (worker_turn input ms s) \<le> phase_work input s"
  by (auto simp: worker_turn_def phase_work_def Let_def split: sum.splits)

lemma send_settles_work:
  assumes "i < length (sending s)"
  shows "phase_work input (send_settles input i result nextMs s) < phase_work input s"
proof -
  have "phase_work input (s\<lparr>sending := take i (sending s) @ drop (i + 1) (sending s), counters := c, lastTerminalMs := l, latencies := ls, probe := p\<rparr>)
      < phase_work input s" for c l ls p
    using assms remove_nth(1) [OF assms] by (simp add: phase_work_def)
  then show ?thesis unfolding send_settles_def Let_def by (rule le_less_trans [OF worker_turn_work])
qed

lemma phase_progress: "\<not> phase_over s \<Longrightarrow> \<exists>t. phase_move input s t"
  using phase_move.intros(2) [of 0 s] by (auto simp: phase_over_def)

interpretation ingestion_phase: draining_machine "\<lambda>s. wf_input input \<and> (\<exists>clock. s = begin_phase input clock)"
    "phase_step input" "phase_machine_inv input" "phase_move input" "\<lambda>s. True" phase_over "phase_work input" for input
proof
  show "wf_input input \<and> (\<exists>clock. s = begin_phase input clock) \<Longrightarrow> phase_machine_inv input s" for s
    using begin_phase_inv by (auto simp: phase_machine_inv_def)
  show "phase_machine_inv input s \<Longrightarrow> phase_step input s t \<Longrightarrow> phase_machine_inv input t" for s t by (rule phase_step_inv)
  show "phase_move input s t \<Longrightarrow> phase_step input s t" for s t by (erule phase_moveE) (auto intro: phase_step.intros)
  show "phase_move input s t \<Longrightarrow> phase_work input t < phase_work input s" for s t
    by (erule phase_moveE) (simp_all add: send_settles_work)
qed (use phase_progress in auto)

lemma reachable_phase:
  assumes "wf_input input" "(phase_step input)\<^sup>*\<^sup>* (begin_phase input clock) s"
  shows "phase_machine_inv input s"
  using ingestion_phase.reachable_inv [of input "begin_phase input clock" s] assms by blast

lemma immutable_total:
  assumes "attemptedRows c = judged_rows c"
  shows "\<exists>f. immutableCounters c = Inr f \<and> requestsNotStarted f = requestsScheduled c - requestsStarted c \<and>
    requestsUnresolved f = requestsStarted c - requestsCompleted c \<and> rowsNotAttempted f = rowsScheduled c - attemptedRows c \<and>
    confirmedAcceptedRows f = confirmedAcceptedRows c"
  using assms
  by (simp add: immutableCounters_def assertIngestionAccounting_def judged_rows_def Let_def IngestionCounters.defs FinalCounters.defs)

lemma phase_ends_well:
  assumes inv: "phase_machine_inv input s" and over: "phase_over s"
  shows "\<exists>result. phase_result input s = Inr result \<and>
    requestsUnresolved (final_counters result) = 0 \<and>
    rowsNotAttempted (final_counters result) = in_totalRows input - row_sum (sentBatches s) \<and>
    requestsNotStarted (final_counters result) = phase_batches input - int (length (sentBatches s))"
proof -
  note facts = inv [unfolded phase_machine_inv_def phase_inv_def Let_def]
  have judged: "attemptedRows (counters s) = judged_rows (counters s)" using facts over by (simp add: phase_over_def)
  obtain f where f: "immutableCounters (counters s) = Inr f" "requestsUnresolved f = 0"
    "rowsNotAttempted f = in_totalRows input - row_sum (sentBatches s)"
    "requestsNotStarted f = phase_batches input - int (length (sentBatches s))"
    using immutable_total [OF judged] facts over by (auto simp: phase_over_def)
  have "length (sentBatches s) \<le> nextBatchIndex s" using facts traverse_length by fastforce
  then have "int (length (latencies s)) < int (2 ^ 32)" using facts over by (simp add: phase_over_def wf_input_def)
  then have "length (map JFin (latencies s)) < 2 ^ 32" by (simp only: of_nat_less_iff length_map)
  moreover have "\<not> list_ex bad_sample (map JFin (latencies s))" using facts by (auto simp: list_ex_iff bad_sample_def)
  ultimately obtain l where "summarizeSamples (map JFin (latencies s)) NO_TERMINAL_SAMPLES = Inr l"
    using summary_spec [of "map JFin (latencies s)" NO_TERMINAL_SAMPLES] by auto
  with f facts show ?thesis by (simp add: phase_result_def Let_def summarizeSamples_def)
qed

text \<open>
  C26. The accounts of the generator are right at every moment: however the answers of the workers'
  requests are ordered, whatever they are, and whenever the phase is aborted, the requests that
  were started are the batches from the first on, in order, each completed or under way, never
  more than the workers; every completed request is counted under exactly one kind; the attempted
  rows are the confirmed, rejected and indeterminate ones and those under way; and when no request
  is under way the final accounts pass the assertion and the phase returns its result.
\<close>

theorem phase_accounts:
  assumes "wf_input input" "(phase_step input)\<^sup>*\<^sup>* (begin_phase input clock) s"
  shows "let c = counters s in
    traverse (next_batch input) [0..<length (sentBatches s)] = Inr (sentBatches s) \<and>
    requestsStarted c = int (length (sentBatches s)) \<and> requestsStarted c = requestsCompleted c + int (length (sending s)) \<and>
    length (sending s) \<le> worker_count input \<and>
    requestsCompleted c = sum_list (map snd (statusCodes c)) + transportFailures c + timeouts c \<and>
    attemptedRows c = row_sum (sentBatches s) \<and>
    attemptedRows c = confirmedAcceptedRows c + serverRejectedRows c + indeterminateRows c + row_sum (map fst (sending s)) \<and>
    (sending s \<noteq> [] \<or> (\<exists>result. phase_result input s = Inr result \<and> requestsUnresolved (final_counters result) = 0))"
proof -
  have inv: "phase_machine_inv input s" by (rule reachable_phase [OF assms(1,2)])
  note facts = inv [unfolded phase_machine_inv_def phase_inv_def Let_def]
  have "length (sentBatches s) = nextBatchIndex s" using facts traverse_length by fastforce
  moreover have "sending s \<noteq> [] \<or> (\<exists>result. phase_result input s = Inr result \<and> requestsUnresolved (final_counters result) = 0)"
    using phase_ends_well [OF inv] by (auto simp: phase_over_def)
  ultimately show ?thesis using facts by (simp add: Let_def accounts_def judged_rows_def)
qed




definition sample_phase :: phase_input where
  "sample_phase =
     \<lparr>in_seed = 7, in_referenceTimeMs = 1786622400000, in_runId = js ''r'', in_batchSize = 2, in_concurrency = 2,
      in_phase = Measured, in_totalRows = 3\<rparr>"

lemma sample_phase_wf: "wf_input sample_phase"
proof -
  have "batch_count 3 2 \<le> 2" using batch_count_exact [of 3 2] by simp
  then show ?thesis using sample_workload by (simp add: wf_input_def sample_phase_def phase_batches_def)
qed

theorem phase_accounts_witness:
  "\<exists>s. (phase_step sample_phase)\<^sup>*\<^sup>* (begin_phase sample_phase (\<lambda>w. 0)) s \<and> signalAborted s \<and>
     requestsStarted (counters s) = requestsCompleted (counters s) + int (length (sending s)) \<and>
     length (sending s) \<le> worker_count sample_phase"
proof -
  let ?s = "begin_phase sample_phase (\<lambda>w. 0)\<lparr>signalAborted := True\<rparr>"
  have reach: "(phase_step sample_phase)\<^sup>*\<^sup>* (begin_phase sample_phase (\<lambda>w. 0)) ?s" using phase_step.Aborted by blast
  from phase_accounts [OF sample_phase_wf reach] reach show ?thesis
    unfolding Let_def by (elim conjE) (rule exI [of _ ?s], intro conjI, assumption, simp, assumption, assumption)
qed


end
