(* ===== verification/LoadConfig.thy ===== *)
theory LoadConfig
  imports Config LoadIngestion
begin

section \<open>The configuration of the load generator (\<open>tools/loadgen/config.ts\<close>)\<close>

text \<open>
  The options of the command line, each with its grammar, range and default, and the resolved
  configuration of a run with its marker, the name of its containers' project and the command
  that reproduces it. The parser of URLs and \<open>path.resolve\<close> are arguments. The lemmas show that
  accepted options make a run whose phases are well-formed and that the reproduction command,
  parsed again, gives the same run.
\<close>

subsection \<open>Errors of the tools\<close>

text \<open>The two error classes of the load generator beside the ones other code throws.\<close>

datatype tool_error = LoadGeneratorConfigurationError jsstr | SafeCommandError jsstr | ThrownByOther throw

subsection \<open>Options\<close>

datatype LoadGeneratorRunKind = Smoke | Baseline

record LoadGeneratorOptions =
  opt_measuredRows :: int
  opt_warmupRows :: int
  opt_batchSize :: int
  opt_concurrency :: int
  opt_seed :: int
  opt_outputPath :: jsstr
  opt_requestTimeoutMs :: int
  opt_referenceTimeUtc :: "jsstr option"
  opt_baseUrl :: jsstr
  opt_runKind :: LoadGeneratorRunKind

datatype NumericFlag = MeasuredRows | WarmupRows | BatchSize | Concurrency | Seed | RequestTimeoutMs

fun flag_text :: "NumericFlag \<Rightarrow> jsstr" where
  "flag_text MeasuredRows = js ''--measured-rows''"
| "flag_text WarmupRows = js ''--warmup-rows''"
| "flag_text BatchSize = js ''--batch-size''"
| "flag_text Concurrency = js ''--concurrency''"
| "flag_text Seed = js ''--seed''"
| "flag_text RequestTimeoutMs = js ''--request-timeout-ms''"

fun flag_default :: "NumericFlag \<Rightarrow> int" where
  "flag_default MeasuredRows = 5000"
| "flag_default WarmupRows = 500"
| "flag_default BatchSize = 100"
| "flag_default Concurrency = 4"
| "flag_default Seed = 20260812"
| "flag_default RequestTimeoutMs = 5000"

definition DEFAULT_OUTPUT_PATH :: jsstr where
  "DEFAULT_OUTPUT_PATH = js ''docs/performance/results/load-generator-smoke.json''"

definition DEFAULT_BASE_URL :: jsstr where "DEFAULT_BASE_URL = js ''http://127.0.0.1:8080''"
definition DEFAULT_RUN_KIND :: jsstr where "DEFAULT_RUN_KIND = js ''smoke''"
definition MAX_REQUESTS :: int where "MAX_REQUESTS = 250000"

fun flag_limits :: "NumericFlag \<Rightarrow> int \<times> int" where
  "flag_limits MeasuredRows = (1, 5000000)"
| "flag_limits WarmupRows = (0, 1000000)"
| "flag_limits BatchSize = (1, 50000)"
| "flag_limits Concurrency = (1, 256)"
| "flag_limits Seed = (0, 4294967295)"
| "flag_limits RequestTimeoutMs = (100, 120000)"

definition NUMERIC_FLAGS :: "NumericFlag list" where
  "NUMERIC_FLAGS = [MeasuredRows, WarmupRows, BatchSize, Concurrency, Seed, RequestTimeoutMs]"

definition STRING_OPTIONS :: "jsstr list" where
  "STRING_OPTIONS = [js ''--output'', js ''--reference-time'', js ''--base-url'', js ''--run-kind'']"

definition supported :: "jsstr list" where
  "supported = map flag_text NUMERIC_FLAGS @ STRING_OPTIONS"

text \<open>
  The lower case of a text as a pattern of ASCII letters sees it: beside the capitals only the
  Kelvin sign has an ASCII lower case.
\<close>

definition lower_unit :: "code_unit \<Rightarrow> code_unit" where
  "lower_unit c = (if 65 \<le> c \<and> c \<le> 90 then c + 32 else if c = 0x212A then 107 else c)"

definition compose_unit :: "code_unit \<Rightarrow> bool" where
  "compose_unit c \<longleftrightarrow> cu CHR ''a'' \<le> c \<and> c \<le> cu CHR ''z'' \<or> is_digit c \<or> c = cu CHR ''-''"

definition compose_project_pattern :: "jsstr \<Rightarrow> bool" where
  "compose_project_pattern s \<longleftrightarrow>
     starts_with (js ''logstream-loadgen-'') s \<and>
     (let rest = drop 18 s in 1 \<le> length rest \<and> length rest \<le> 48 \<and> list_all compose_unit rest)"

definition run_id_pattern :: "jsstr \<Rightarrow> bool" where
  "run_id_pattern s \<longleftrightarrow>
     length s = 34 \<and> starts_with (js ''lg-v1-'') s \<and> list_all is_hex (take 8 (drop 6 s)) \<and> s ! 14 = cu CHR ''-'' \<and>
     all_digits (take 8 (drop 15 s)) \<and> s ! 23 = cu CHR ''t'' \<and> all_digits (take 9 (drop 24 s)) \<and> s ! 33 = cu CHR ''z''"

subsection \<open>Reading the values\<close>

definition readValue :: "jsstr \<Rightarrow> jsstr list \<Rightarrow> tool_error + jsstr" where
  "readValue flag following =
     (case following of
        [] \<Rightarrow> Inl (LoadGeneratorConfigurationError (flag @ js '' requires a value.''))
      | v # _ \<Rightarrow>
          if starts_with (js ''--'') v then Inl (LoadGeneratorConfigurationError (flag @ js '' requires a value.''))
          else Inr v)"

text \<open>\<open>/^(?:0|[1-9][0-9]*)$/\<close>.\<close>

definition unsigned_pattern :: "jsstr \<Rightarrow> bool" where
  "unsigned_pattern s \<longleftrightarrow> s = js ''0'' \<or> s \<noteq> [] \<and> all_digits s \<and> hd s \<noteq> cu CHR ''0''"

definition parseInteger :: "NumericFlag \<Rightarrow> jsstr \<Rightarrow> tool_error + int" where
  "parseInteger flag v =
     (if \<not> unsigned_pattern v
      then Inl (LoadGeneratorConfigurationError (flag_text flag @ js '' must be an unsigned base-10 integer.''))
      else
        let parsed = num v; (minimum, maximum) = flag_limits flag
        in if \<not> safe_int parsed \<or> parsed < minimum \<or> maximum < parsed
           then Inl (LoadGeneratorConfigurationError
             (flag_text flag @ js '' must be between '' @ show_int minimum @ js '' and '' @ show_int maximum @ js ''.''))
           else Inr parsed)"

text \<open>\<open>/^(\d{4}-\d{2}-\d{2}T\d{2}:\d{2}:\d{2})(?:\.(\d{1,3}))?Z$/\<close>, the fraction empty when it is absent.\<close>

definition reference_pattern :: "jsstr \<Rightarrow> (date_time_text \<times> jsstr) option" where
  "reference_pattern v = do {
     (dt, r) \<leftarrow> match_date_time v;
     (if r = js ''Z'' then Some (dt, [])
      else do {
        r \<leftarrow> expect CHR ''.'' r; (f, r) \<leftarrow> take_digits1 r;
        (if length f \<le> 3 \<and> r = js ''Z'' then Some (dt, f) else None)
      })
   }"

definition parseReferenceTime :: "jsstr \<Rightarrow> tool_error + jsstr" where
  "parseReferenceTime v =
     (case reference_pattern v of
        None \<Rightarrow> Inl (LoadGeneratorConfigurationError (js ''--reference-time must be a UTC ISO 8601 timestamp ending in Z.''))
      | Some (dt, f) \<Rightarrow>
          (case date_parse_fields (num (t_year dt)) (num (t_month dt)) (num (t_day dt)) (num (t_hour dt))
              (num (t_minute dt)) (num (t_second dt)) (num (pad_end 3 (cu CHR ''0'') f)) of
             None \<Rightarrow> Inl (LoadGeneratorConfigurationError (js ''--reference-time is outside the supported range.''))
           | Some t \<Rightarrow>
               if toISOString t \<noteq> dt_text dt @ js ''.'' @ pad_end 3 (cu CHR ''0'') f @ js ''Z''
               then Inl (LoadGeneratorConfigurationError (js ''--reference-time must identify a real instant.''))
               else Inr (toISOString t)))"

text \<open>What the program reads of a parsed URL, and its text.\<close>

record base_url =
  u_protocol :: jsstr
  u_username :: jsstr
  u_password :: jsstr
  u_hostname :: jsstr
  u_port :: jsstr
  u_pathname :: jsstr
  u_search :: jsstr
  u_hash :: jsstr
  u_href :: jsstr

definition drop_last_slash :: "jsstr \<Rightarrow> jsstr" where
  "drop_last_slash s = (if s \<noteq> [] \<and> last s = cu CHR ''/'' then butlast s else s)"

definition parseBaseUrl :: "(jsstr \<Rightarrow> base_url option) \<Rightarrow> jsstr \<Rightarrow> tool_error + jsstr" where
  "parseBaseUrl parse_url v =
     (case parse_url v of
        None \<Rightarrow> Inl (LoadGeneratorConfigurationError (js ''--base-url must be a valid URL.''))
      | Some parsed \<Rightarrow>
          if u_username parsed \<noteq> [] \<or> u_password parsed \<noteq> []
          then Inl (LoadGeneratorConfigurationError (js ''--base-url must not contain credentials.''))
          else if u_protocol parsed \<noteq> js ''http:'' \<or> u_hostname parsed \<notin> {js ''127.0.0.1'', js ''localhost''} \<or>
            u_port parsed \<noteq> js ''8080'' \<or> u_pathname parsed \<noteq> js ''/'' \<or> u_search parsed \<noteq> [] \<or> u_hash parsed \<noteq> []
          then Inl (LoadGeneratorConfigurationError (js ''Managed mode requires http://127.0.0.1:8080 or http://localhost:8080.''))
          else Inr (drop_last_slash (u_href parsed)))"

definition json_path :: "jsstr \<Rightarrow> bool" where
  "json_path v \<longleftrightarrow> v \<noteq> [] \<and> trim_text v = v \<and> map lower_unit (drop (length v - 5) v) = js ''.json'' \<and> \<not> contains_nul v"

definition validateOutputPath :: "(jsstr \<Rightarrow> jsstr) \<Rightarrow> jsstr \<Rightarrow> tool_error + jsstr" where
  "validateOutputPath resolve v =
     (if \<not> json_path v then Inl (LoadGeneratorConfigurationError (js ''--output must be an unpadded JSON file path.''))
      else Inr (resolve v))"

fun run_kind_text :: "LoadGeneratorRunKind \<Rightarrow> jsstr" where
  "run_kind_text Smoke = js ''smoke''"
| "run_kind_text Baseline = js ''baseline''"

definition parseRunKind :: "jsstr \<Rightarrow> tool_error + LoadGeneratorRunKind" where
  "parseRunKind v =
     (if v = js ''smoke'' then Inr Smoke else if v = js ''baseline'' then Inr Baseline
      else Inl (LoadGeneratorConfigurationError (js ''--run-kind must be smoke or baseline.'')))"

subsection \<open>The command line\<close>

fun read_arguments :: "jsstr list \<Rightarrow> (jsstr \<rightharpoonup> jsstr) \<Rightarrow> tool_error + (jsstr \<rightharpoonup> jsstr)" where
  "read_arguments [] raw = Inr raw"
| "read_arguments (flag # following) raw =
     (if flag \<notin> set supported then Inl (LoadGeneratorConfigurationError (js ''Unknown load-generator option.''))
      else if raw flag \<noteq> None then Inl (LoadGeneratorConfigurationError (flag @ js '' must not be repeated.''))
      else case readValue flag following of
          Inl e \<Rightarrow> Inl e
        | Inr v \<Rightarrow> read_arguments (drop 1 following) (raw(flag \<mapsto> v)))"

text \<open>\<open>raw.get(flag) ?? fallback\<close>.\<close>

definition given_or :: "(jsstr \<rightharpoonup> jsstr) \<Rightarrow> jsstr \<Rightarrow> jsstr \<Rightarrow> jsstr" where
  "given_or raw flag fallback = (case raw flag of None \<Rightarrow> fallback | Some v \<Rightarrow> v)"

definition read_numeric :: "(jsstr \<rightharpoonup> jsstr) \<Rightarrow> NumericFlag \<Rightarrow> tool_error + int" where
  "read_numeric raw flag = parseInteger flag (given_or raw (flag_text flag) (show_int (flag_default flag)))"

definition request_count :: "int \<Rightarrow> int \<Rightarrow> int \<Rightarrow> int" where
  "request_count measured warmup batch = batch_count measured batch + batch_count warmup batch"

definition read_reference :: "(jsstr \<rightharpoonup> jsstr) \<Rightarrow> tool_error + jsstr option" where
  "read_reference raw =
     (case raw (js ''--reference-time'') of
        None \<Rightarrow> Inr None
      | Some v \<Rightarrow> or_error (parseReferenceTime v) (\<lambda>t. Inr (Some t)))"

definition build_options ::
    "(jsstr \<Rightarrow> base_url option) \<Rightarrow> (jsstr \<Rightarrow> jsstr) \<Rightarrow> (jsstr \<rightharpoonup> jsstr) \<Rightarrow> tool_error + LoadGeneratorOptions" where
  "build_options parse_url resolve raw =
     or_error (read_numeric raw MeasuredRows) (\<lambda>measured.
     or_error (read_numeric raw WarmupRows) (\<lambda>warmup.
     or_error (read_numeric raw BatchSize) (\<lambda>batch.
     or_error (read_numeric raw Concurrency) (\<lambda>concurrency.
     or_error (read_numeric raw Seed) (\<lambda>seed.
     or_error (read_numeric raw RequestTimeoutMs) (\<lambda>timeout.
     let requests = request_count measured warmup batch
     in if MAX_REQUESTS < requests
        then Inl (LoadGeneratorConfigurationError
          (js ''Configuration schedules '' @ show_int requests @ js '' ingestion requests; the tool limit is '' @ show_int MAX_REQUESTS @ js ''.''))
        else
          or_error (validateOutputPath resolve (given_or raw (js ''--output'') DEFAULT_OUTPUT_PATH)) (\<lambda>output.
          or_error (read_reference raw) (\<lambda>reference.
          or_error (parseBaseUrl parse_url (given_or raw (js ''--base-url'') DEFAULT_BASE_URL)) (\<lambda>base.
          or_error (parseRunKind (given_or raw (js ''--run-kind'') DEFAULT_RUN_KIND)) (\<lambda>kind.
            Inr \<lparr>opt_measuredRows = measured, opt_warmupRows = warmup, opt_batchSize = batch, opt_concurrency = concurrency,
                 opt_seed = seed, opt_outputPath = output, opt_requestTimeoutMs = timeout,
                 opt_referenceTimeUtc = reference, opt_baseUrl = base, opt_runKind = kind\<rparr>))))))))))"

definition parseLoadGeneratorOptions ::
    "(jsstr \<Rightarrow> base_url option) \<Rightarrow> (jsstr \<Rightarrow> jsstr) \<Rightarrow> jsstr list \<Rightarrow> tool_error + LoadGeneratorOptions" where
  "parseLoadGeneratorOptions parse_url resolve arguments =
     or_error (read_arguments arguments (\<lambda>_. None)) (build_options parse_url resolve)"

subsection \<open>The resolved run\<close>

definition createRunId :: "int \<Rightarrow> jsstr \<Rightarrow> tool_error + jsstr" where
  "createRunId seed referenceTimeUtc =
     (let seedHex = pad_start 8 (cu CHR ''0'') (show_hex seed);
          compactTime = map lower_unit (filter (\<lambda>c. c \<notin> set (js ''-:.'')) referenceTimeUtc);
          runId = js ''lg-v1-'' @ seedHex @ js ''-'' @ compactTime
      in if \<not> run_id_pattern runId then Inl (LoadGeneratorConfigurationError (js ''Generated run marker is invalid.''))
         else Inr runId)"

definition createComposeProjectName :: "int \<Rightarrow> int \<Rightarrow> jsstr \<Rightarrow> tool_error + jsstr" where
  "createComposeProjectName nowMs processId suffix =
     (let compact = map lower_unit (take 14 (filter is_digit (toISOString nowMs)));
          project = js ''logstream-loadgen-'' @ compact @ js ''-'' @ show_int processId @ js ''-'' @ map lower_unit suffix
      in if \<not> compose_project_pattern project
         then Inl (LoadGeneratorConfigurationError (js ''Generated Compose project name is invalid.''))
         else Inr project)"

definition assertValidComposeProjectName :: "jsstr \<Rightarrow> tool_error + unit" where
  "assertValidComposeProjectName project =
     (if \<not> compose_project_pattern project
      then Inl (LoadGeneratorConfigurationError (js ''Compose project name failed validation.'')) else Inr ())"

text \<open>A run; no time value for a reference time that is not a date.\<close>

record ResolvedRunConfiguration = LoadGeneratorOptions +
  run_referenceTimeUtc :: jsstr
  run_referenceTimeMs :: "int option"
  runId :: jsstr
  composeProject :: jsstr
  reproductionCommand :: "jsstr list"

definition reproduction_command :: "LoadGeneratorOptions \<Rightarrow> jsstr \<Rightarrow> jsstr list" where
  "reproduction_command options referenceTimeUtc =
     [js ''npm'', js ''run'', js ''loadgen'', js ''--'',
      js ''--measured-rows'', show_int (opt_measuredRows options),
      js ''--warmup-rows'', show_int (opt_warmupRows options),
      js ''--batch-size'', show_int (opt_batchSize options),
      js ''--concurrency'', show_int (opt_concurrency options),
      js ''--seed'', show_int (opt_seed options),
      js ''--output'', opt_outputPath options,
      js ''--request-timeout-ms'', show_int (opt_requestTimeoutMs options),
      js ''--reference-time'', referenceTimeUtc,
      js ''--base-url'', opt_baseUrl options,
      js ''--run-kind'', run_kind_text (opt_runKind options)]"

definition resolveRunConfiguration ::
    "LoadGeneratorOptions \<Rightarrow> int \<Rightarrow> int \<Rightarrow> jsstr \<Rightarrow> tool_error + ResolvedRunConfiguration" where
  "resolveRunConfiguration options nowMs processId suffix =
     (let reference = (case opt_referenceTimeUtc options of None \<Rightarrow> toISOString nowMs | Some t \<Rightarrow> t)
      in or_error (createComposeProjectName nowMs processId suffix) (\<lambda>project.
         or_error (createRunId (opt_seed options) reference) (\<lambda>marker.
           Inr (LoadGeneratorOptions.extend (options\<lparr>opt_referenceTimeUtc := Some reference\<rparr>)
             (ResolvedRunConfiguration.fields reference (date_parse reference) marker project
               (reproduction_command options reference))))))"

text \<open>What the orchestrator gives to a phase (\<open>tools/loadgen/orchestrator.ts\<close>).\<close>

definition phase_of :: "ResolvedRunConfiguration \<Rightarrow> WorkloadPhase \<Rightarrow> phase_input" where
  "phase_of c phase =
     \<lparr>in_seed = opt_seed c, in_referenceTimeMs = the (run_referenceTimeMs c), in_runId = runId c,
      in_batchSize = opt_batchSize c, in_concurrency = opt_concurrency c, in_phase = phase,
      in_totalRows = (if phase = Warmup then opt_warmupRows c else opt_measuredRows c)\<rparr>"

subsection \<open>Values that are printed and read\<close>

lemma digit_head: "s \<noteq> [] \<Longrightarrow> is_digit (hd s) \<Longrightarrow> \<not> starts_with (js ''--'') s"
  by (cases s) (auto simp: starts_with_def js_def)

lemma unsigned_show: "0 \<le> n \<Longrightarrow> unsigned_pattern (show_int n) \<and> num (show_int n) = n \<and> \<not> starts_with (js ''--'') (show_int n)"
proof -
  assume n: "0 \<le> n"
  then have s: "show_int n = show_nat (nat n)" by (simp add: show_int_def show_pos_nat)
  have "show_nat 0 = js ''0''" by (subst show_nat.simps) (simp add: js_def cu_zero)
  moreover have "hd (show_nat (nat n)) \<noteq> cu CHR ''0''" if "n \<noteq> 0" using hd_show_nat [of "nat n"] n that by (simp add: cu_zero)
  ultimately have "unsigned_pattern (show_int n)" using s by (cases "n = 0") (simp_all add: unsigned_pattern_def)
  moreover have "is_digit (hd (show_int n))"
    using all_digits_show_nat [of "nat n"] show_nat_nonempty [of "nat n"] unfolding s all_digits_def by (simp add: list_all_iff)
  moreover have "show_int n \<noteq> []" by (simp add: s)
  ultimately show ?thesis using n s digit_head by (simp add: num_def)
qed

lemma parse_show: "fst (flag_limits flag) \<le> n \<Longrightarrow> n \<le> snd (flag_limits flag) \<Longrightarrow> parseInteger flag (show_int n) = Inr n"
proof -
  assume n: "fst (flag_limits flag) \<le> n" "n \<le> snd (flag_limits flag)"
  then have "0 \<le> n" "safe_int n" by (cases flag; simp add: safe_int_def max_safe_integer_def)+
  with n unsigned_show [of n] show ?thesis by (simp add: parseInteger_def split_beta)
qed

lemma parse_range: "parseInteger flag v = Inr n \<Longrightarrow> fst (flag_limits flag) \<le> n \<and> n \<le> snd (flag_limits flag)"
  by (auto simp: parseInteger_def split_beta Let_def split: if_splits)

lemma read_numeric_range: "read_numeric raw flag = Inr n \<Longrightarrow> fst (flag_limits flag) \<le> n \<and> n \<le> snd (flag_limits flag)"
  unfolding read_numeric_def by (rule parse_range)

subsection \<open>Reference times\<close>

lemma num_pad_three: "all_digits f \<Longrightarrow> length f = 3 \<Longrightarrow> num (pad_end 3 (cu CHR ''0'') f) = milliseconds_of f"
  by (simp add: milliseconds_of_def pad_end_def)

lemma parse_fields_iso:
  assumes "four_digit_year t"
  defines "f \<equiv> fix_digits 3 (nat (t mod 1000))" and "dt \<equiv> dt_of t"
  shows "date_parse_fields (num (t_year dt)) (num (t_month dt)) (num (t_day dt)) (num (t_hour dt))
      (num (t_minute dt)) (num (t_second dt)) (num f) = Some t"
proof -
  have ok: "components_ok dt" and time: "time_value dt = t - t mod 1000" using dt_of_values [OF assms(1)] by (auto simp: dt_def)
  note v = components_ok_valid [OF ok]
  have ms: "num f = t mod 1000" using num_fix_digits [of "nat (t mod 1000)" 3] by (simp add: f_def nat_less_iff)
  have "make_time (num (t_year dt)) (num (t_month dt)) (num (t_day dt)) (num (t_hour dt)) (num (t_minute dt)) (num (t_second dt)) (num f) = t"
    using time by (simp add: time_value_def make_time_def ms)
  moreover have "time_clip t = Some t" using four_digit_year_bounds [OF assms(1)] by (simp add: time_clip_def)
  ultimately show ?thesis using v valid_date_ranges [OF v(1)] by (simp add: date_parse_fields_def)
qed

lemma date_parse_iso: "four_digit_year t \<Longrightarrow> date_parse (toISOString t) = Some t"
proof -
  assume t: "four_digit_year t"
  let ?f = "fix_digits 3 (nat (t mod 1000))"
  have f: "all_digits ?f" "?f \<noteq> []" "length ?f = 3" by (simp_all add: numeral_3_eq_3)
  have "milliseconds_of ?f = num ?f" using f(3) by (simp add: milliseconds_of_def pad_end_def)
  then show ?thesis
    using date_parse_dt [OF wf_dt_of f(1,2), of t] parse_fields_iso [OF t] by (simp add: toISOString_text [OF t])
qed

lemma parse_reference_iso: "four_digit_year t \<Longrightarrow> parseReferenceTime (toISOString t) = Inr (toISOString t)"
proof -
  assume t: "four_digit_year t"
  let ?f = "fix_digits 3 (nat (t mod 1000))"
  have f: "all_digits ?f" "?f \<noteq> []" "length ?f = 3" by (simp_all add: numeral_3_eq_3)
  have iso: "toISOString t = dt_text (dt_of t) @ js ''.'' @ ?f @ js ''Z''" by (rule toISOString_text [OF t])
  have m: "match_date_time (toISOString t) = Some (dt_of t, js ''.'' @ ?f @ js ''Z'')"
    by (simp add: match_date_time_iff iso)
  have d: "take_digits1 (?f @ js ''Z'') = Some (?f, js ''Z'')" using f by (simp add: take_digits1_iff js_def)
  have "js ''.'' @ ?f @ js ''Z'' \<noteq> js ''Z''" by (simp add: js_def)
  moreover have "expect CHR ''.'' (js ''.'' @ ?f @ js ''Z'') = Some (?f @ js ''Z'')" by (simp add: expect_iff js_def)
  ultimately have "reference_pattern (toISOString t) = Some (dt_of t, ?f)"
    using m d f(3) by (simp add: reference_pattern_def)
  moreover have "pad_end 3 (cu CHR ''0'') ?f = ?f" using f(3) by (simp add: pad_end_def)
  ultimately show ?thesis
    using parse_fields_iso [OF t] iso by (simp add: parseReferenceTime_def)
qed

lemma sign_of_year: "\<not> four_digit_year t \<Longrightarrow> \<exists>c r. toISOString t = c # r \<and> \<not> is_digit c"
proof -
  assume t: "\<not> four_digit_year t"
  obtain y m d where civ: "civil_of_day (t div ms_per_day) = (y, m, d)" by (metis prod_cases3)
  then have "\<not> (0 \<le> y \<and> y \<le> 9999)" using t by (simp add: four_digit_year_def year_of_def)
  then obtain c r where "show_year y = c # r" "\<not> is_digit c" by (auto simp: show_year_def)
  then show ?thesis by (auto simp: toISOString_def iso_date_def civ)
qed

lemma reference_canonical: "parseReferenceTime v = Inr w \<Longrightarrow> \<exists>t. four_digit_year t \<and> w = toISOString t"
proof -
  assume "parseReferenceTime v = Inr w"
  then obtain dt f t where r: "reference_pattern v = Some (dt, f)" "w = toISOString t"
    "toISOString t = dt_text dt @ js ''.'' @ pad_end 3 (cu CHR ''0'') f @ js ''Z''"
    by (auto simp: parseReferenceTime_def split: option.splits prod.splits if_splits)
  have "wf_dt dt" using r(1) by (auto simp: reference_pattern_def match_date_time_iff bind_eq_Some_conv split: if_splits)
  then obtain c y where "t_year dt = c # y" "is_digit c" by (cases "t_year dt") (auto simp: wf_dt_def)
  then have "hd (toISOString t) = c" by (simp add: r(3) dt_text_def)
  then have "four_digit_year t" using sign_of_year [of t] \<open>is_digit c\<close> by fastforce
  with r(2) show ?thesis by blast
qed

subsection \<open>Markers and names\<close>

lemma hex_digits: "0 \<le> i \<Longrightarrow> list_all is_hex (show_hex i) \<and> show_hex i \<noteq> []"
proof (induction i rule: show_hex.induct)
  case (1 i)
  have "nat (i mod 16) < 16" by (simp add: nat_less_iff)
  moreover have "nat i < 16" if "i < 16" using that by simp
  ultimately show ?case using 1 by (subst (1 2) show_hex.simps) (auto simp: is_hex_unit pos_imp_zdiv_nonneg_iff)
qed

lemma hex_length: "0 \<le> i \<Longrightarrow> i < 16 ^ k \<Longrightarrow> 0 < k \<Longrightarrow> length (show_hex i) \<le> k"
proof (induction k arbitrary: i)
  case (Suc k)
  show ?case
  proof (cases "i < 16")
    case True
    with Suc.prems show ?thesis by (subst show_hex.simps) simp
  next
    case False
    then have "0 < k" "i div 16 < 16 ^ k" using Suc.prems by (cases k; simp add: div_less_iff_less_mult)+
    with Suc.IH [of "i div 16"] False show ?thesis by (subst show_hex.simps) simp
  qed
qed simp

lemma lower_digits: "all_digits s \<Longrightarrow> map lower_unit s = s"
  by (induction s) (auto simp: lower_unit_def is_digit_def word_le_nat_alt)

lemma digits_keep: "all_digits s \<Longrightarrow> filter (\<lambda>c. c \<notin> set (js ''-:.'')) s = s"
  by (induction s) (auto simp: js_def)

lemma compact_iso:
  assumes t: "four_digit_year t"
  shows "\<exists>date clock. length date = 8 \<and> all_digits date \<and> length clock = 9 \<and> all_digits clock \<and>
    map lower_unit (filter (\<lambda>c. c \<notin> set (js ''-:.'')) (toISOString t)) = date @ js ''t'' @ clock @ js ''z'' \<and>
    filter is_digit (toISOString t) = date @ clock"
proof -
  let ?d = "dt_of t" and ?f = "fix_digits 3 (nat (t mod 1000))"
  let ?date = "t_year ?d @ t_month ?d @ t_day ?d" and ?clock = "t_hour ?d @ t_minute ?d @ t_second ?d @ ?f"
  have wf: "wf_dt ?d" by simp
  have digits: "all_digits s \<Longrightarrow> filter is_digit s = s" for s by (simp add: all_digits_def list_all_iff)
  have "map lower_unit (filter (\<lambda>c. c \<notin> set (js ''-:.'')) (toISOString t)) = ?date @ js ''t'' @ ?clock @ js ''z''"
    unfolding toISOString_text [OF t] dt_text_def filter_append map_append using wf
    by (simp add: wf_dt_def digits_keep lower_digits) (simp add: js_def lower_unit_def cu_def)
  moreover have "filter is_digit (toISOString t) = ?date @ ?clock"
    unfolding toISOString_text [OF t] dt_text_def filter_append using wf
    by (simp add: wf_dt_def digits) (simp add: js_def)
  ultimately show ?thesis using wf by (intro exI [of _ ?date] exI [of _ ?clock]) (simp add: wf_dt_def)
qed

lemma marker_pattern:
  assumes "length h = 8" "list_all is_hex h" "length date = 8" "all_digits date" "length clock = 9" "all_digits clock"
  shows "run_id_pattern (js ''lg-v1-'' @ h @ js ''-'' @ date @ js ''t'' @ clock @ js ''z'')"
  using assms by (simp add: run_id_pattern_def nth_append) (simp add: js_def)

lemma run_marker:
  assumes "0 \<le> seed" "seed < 2 ^ 32" "four_digit_year t"
  shows "\<exists>marker. createRunId seed (toISOString t) = Inr marker \<and> run_id_pattern marker \<and> \<not> contains_nul marker"
proof -
  let ?h = "pad_start 8 (cu CHR ''0'') (show_hex seed)"
  have "list_all is_hex ?h"
    using hex_digits [OF assms(1)] by (auto simp: pad_start_def list_all_iff is_hex_def cu_zero)
  moreover have "length (show_hex seed) \<le> 8" using hex_length [of seed 8] assms by simp
  ultimately have h: "list_all is_hex ?h" "length ?h = 8" by (simp_all add: pad_start_def)
  obtain date clock where c: "length date = 8" "all_digits date" "length clock = 9" "all_digits clock"
    "map lower_unit (filter (\<lambda>c. c \<notin> set (js ''-:.'')) (toISOString t)) = date @ js ''t'' @ clock @ js ''z''"
    using compact_iso [OF assms(3)] by blast
  let ?m = "js ''lg-v1-'' @ ?h @ js ''-'' @ date @ js ''t'' @ clock @ js ''z''"
  have p: "run_id_pattern ?m" by (rule marker_pattern) (use h c in auto)
  have "\<not> contains_nul ?m"
    using h(1) c(2,4) by (auto simp: contains_nul_def list_all_iff all_digits_def is_hex_def is_digit_def js_def cu_def)
  with p c show ?thesis by (auto simp: createRunId_def Let_def)
qed

lemma long_year:
  assumes "\<not> four_digit_year t"
  shows "21 \<le> length (filter (\<lambda>c. c \<notin> set (js ''-:.'')) (toISOString t))"
proof -
  let ?keep = "filter (\<lambda>c. c \<notin> set (js ''-:.''))"
  have d: "all_digits (show2 n)" "2 \<le> length (show2 n)" "all_digits (show3 n)" "3 \<le> length (show3 n)" for n
    by (simp_all add: show2_def show3_def pad_start_def cu_zero)
  obtain y m e where civ: "civil_of_day (t div ms_per_day) = (y, m, e)" by (metis prod_cases3)
  then have "\<not> (0 \<le> y \<and> y \<le> 9999)" using assms by (simp add: four_digit_year_def year_of_def)
  moreover have "all_digits (pad_start 6 (cu CHR ''0'') (show_nat k))" "6 \<le> length (pad_start 6 (cu CHR ''0'') (show_nat k))" for k
    by (simp_all add: pad_start_def cu_zero)
  ultimately have "6 \<le> length (?keep (show_year y))" by (auto simp: show_year_def digits_keep)
  moreover have "?keep (js ''T'') = js ''T''" "?keep (js ''Z'') = js ''Z''" "?keep (js '':'') = []" "?keep (js ''-'') = []" "?keep (js ''.'') = []"
    by (simp_all add: js_def)
  moreover have "length (js ''T'') = 1" "length (js ''Z'') = 1" by simp_all
  ultimately have "length (?keep (toISOString t)) \<ge> 6 + length (show2 m) + length (show2 e) + 1 + length (show2 (t mod ms_per_day div 3600000)) +
      length (show2 (t mod ms_per_day div 60000 mod 60)) + length (show2 (t mod ms_per_day div 1000 mod 60)) + length (show3 (t mod 1000)) + 1"
    by (simp only: toISOString_def iso_date_def iso_clock_def civ prod.case filter_append length_append digits_keep [OF d(1)]
      digits_keep [OF d(3)] append_Nil)
  moreover note d(2) [of m] d(2) [of e] d(2) [of "t mod ms_per_day div 3600000"] d(2) [of "t mod ms_per_day div 60000 mod 60"]
    d(2) [of "t mod ms_per_day div 1000 mod 60"] d(4) [of "t mod 1000"]
  ultimately show ?thesis by linarith
qed

lemma marker_time: "createRunId seed (toISOString t) = Inr marker \<Longrightarrow> four_digit_year t"
proof (rule ccontr)
  assume r: "createRunId seed (toISOString t) = Inr marker" "\<not> four_digit_year t"
  then have "length (js ''lg-v1-'' @ pad_start 8 (cu CHR ''0'') (show_hex seed) @ js ''-'' @
      map lower_unit (filter (\<lambda>c. c \<notin> set (js ''-:.'')) (toISOString t))) = 34"
    by (auto simp: createRunId_def run_id_pattern_def Let_def simp del: js_simps split: if_splits)
  then show False using long_year [OF r(2)] by simp
qed

lemma project_named:
  assumes "four_digit_year nowMs" "0 \<le> pid" "pid < 10 ^ 26" "length suffix = 6" "list_all is_hex suffix"
  shows "\<exists>project. createComposeProjectName nowMs pid suffix = Inr project \<and> compose_project_pattern project"
proof -
  obtain date clock where c: "length date = 8" "all_digits date" "length clock = 9" "all_digits clock"
    "filter is_digit (toISOString nowMs) = date @ clock"
    using compact_iso [OF assms(1)] by blast
  let ?t = "take 14 (date @ clock)"
  have t: "all_digits ?t" using c(2,4) all_digits_take_drop [of "date @ clock" 14] by simp
  have unit: "compose_unit x" if "is_digit x \<or> is_hex x" for x
  proof -
    have "cu CHR ''f'' \<le> cu CHR ''z''" by (simp add: cu_def)
    with that show ?thesis by (auto simp: compose_unit_def is_hex_def intro: order_trans)
  qed
  have hex: "lower_unit x = x" if "is_hex x" for x
    using that by (auto simp: is_hex_def lower_unit_def is_digit_def cu_def word_le_nat_alt)
  have pid: "show_int pid = show_nat (nat pid)" using assms(2) by (simp add: show_int_def show_pos_nat)
  have len: "length (show_nat (nat pid)) \<le> 26"
    using assms(2,3) by (intro length_show_nat) (simp_all add: nat_less_iff)
  have "map lower_unit suffix = suffix" using assms(5) hex by (simp add: list_all_iff map_idI)
  then have "createComposeProjectName nowMs pid suffix =
      (let project = js ''logstream-loadgen-'' @ ?t @ js ''-'' @ show_nat (nat pid) @ js ''-'' @ suffix
       in if \<not> compose_project_pattern project then Inl (LoadGeneratorConfigurationError (js ''Generated Compose project name is invalid.''))
          else Inr project)"
    by (simp only: createComposeProjectName_def Let_def pid c(5) lower_digits [OF t])
  moreover have "compose_project_pattern (js ''logstream-loadgen-'' @ ?t @ js ''-'' @ show_nat (nat pid) @ js ''-'' @ suffix)"
    using t len assms(4,5) c unit all_digits_show_nat [of "nat pid"]
    by (auto simp: compose_project_pattern_def Let_def list_all_iff all_digits_def compose_unit_def [of "cu CHR ''-''"] js_def starts_with_def)
  ultimately show ?thesis by (simp add: Let_def)
qed

subsection \<open>Accepted options\<close>

text \<open>What the options of an accepted command line satisfy.\<close>

definition wf_options :: "LoadGeneratorOptions \<Rightarrow> bool" where
  "wf_options opts \<longleftrightarrow>
     1 \<le> opt_measuredRows opts \<and> opt_measuredRows opts \<le> 5000000 \<and> 0 \<le> opt_warmupRows opts \<and> opt_warmupRows opts \<le> 1000000 \<and>
     1 \<le> opt_batchSize opts \<and> opt_batchSize opts \<le> 50000 \<and> 1 \<le> opt_concurrency opts \<and> opt_concurrency opts \<le> 256 \<and>
     0 \<le> opt_seed opts \<and> opt_seed opts < 2 ^ 32 \<and> 100 \<le> opt_requestTimeoutMs opts \<and> opt_requestTimeoutMs opts \<le> 120000 \<and>
     request_count (opt_measuredRows opts) (opt_warmupRows opts) (opt_batchSize opts) \<le> 250000 \<and>
     (\<forall>r. opt_referenceTimeUtc opts = Some r \<longrightarrow> (\<exists>t. four_digit_year t \<and> r = toISOString t))"

lemma reference_read: "read_reference raw = Inr (Some r) \<Longrightarrow> \<exists>t. four_digit_year t \<and> r = toISOString t"
  by (auto simp: read_reference_def or_error_Inr split: option.splits dest: reference_canonical)

lemma build_options_Inr:
  assumes "build_options parse_url resolve raw = Inr opts"
  shows "read_numeric raw MeasuredRows = Inr (opt_measuredRows opts) \<and> read_numeric raw WarmupRows = Inr (opt_warmupRows opts) \<and>
    read_numeric raw BatchSize = Inr (opt_batchSize opts) \<and> read_numeric raw Concurrency = Inr (opt_concurrency opts) \<and>
    read_numeric raw Seed = Inr (opt_seed opts) \<and> read_numeric raw RequestTimeoutMs = Inr (opt_requestTimeoutMs opts) \<and>
    request_count (opt_measuredRows opts) (opt_warmupRows opts) (opt_batchSize opts) \<le> MAX_REQUESTS \<and>
    validateOutputPath resolve (given_or raw (js ''--output'') DEFAULT_OUTPUT_PATH) = Inr (opt_outputPath opts) \<and>
    read_reference raw = Inr (opt_referenceTimeUtc opts) \<and>
    parseBaseUrl parse_url (given_or raw (js ''--base-url'') DEFAULT_BASE_URL) = Inr (opt_baseUrl opts) \<and>
    parseRunKind (given_or raw (js ''--run-kind'') DEFAULT_RUN_KIND) = Inr (opt_runKind opts)"
  using assms by (auto simp: build_options_def or_error_Inr Let_def split: if_splits)

lemma build_options_by:
  assumes "read_numeric raw MeasuredRows = Inr (opt_measuredRows opts)" "read_numeric raw WarmupRows = Inr (opt_warmupRows opts)"
    "read_numeric raw BatchSize = Inr (opt_batchSize opts)" "read_numeric raw Concurrency = Inr (opt_concurrency opts)"
    "read_numeric raw Seed = Inr (opt_seed opts)" "read_numeric raw RequestTimeoutMs = Inr (opt_requestTimeoutMs opts)"
    "request_count (opt_measuredRows opts) (opt_warmupRows opts) (opt_batchSize opts) \<le> MAX_REQUESTS"
    "validateOutputPath resolve (given_or raw (js ''--output'') DEFAULT_OUTPUT_PATH) = Inr (opt_outputPath opts)"
    "read_reference raw = Inr (opt_referenceTimeUtc opts)"
    "parseBaseUrl parse_url (given_or raw (js ''--base-url'') DEFAULT_BASE_URL) = Inr (opt_baseUrl opts)"
    "parseRunKind (given_or raw (js ''--run-kind'') DEFAULT_RUN_KIND) = Inr (opt_runKind opts)"
  shows "build_options parse_url resolve raw = Inr (opts :: LoadGeneratorOptions)"
  using assms by (simp add: build_options_def or_error_def not_less)

lemma accepted_options:
  assumes "parseLoadGeneratorOptions parse_url resolve arguments = Inr opts"
  shows "wf_options opts"
proof -
  obtain raw where b: "build_options parse_url resolve raw = Inr opts"
    using assms by (auto simp: parseLoadGeneratorOptions_def or_error_Inr)
  note parts = build_options_Inr [OF b]
  show ?thesis
    using parts read_numeric_range [of raw MeasuredRows] read_numeric_range [of raw WarmupRows] read_numeric_range [of raw BatchSize]
      read_numeric_range [of raw Concurrency] read_numeric_range [of raw Seed] read_numeric_range [of raw RequestTimeoutMs] reference_read [of raw]
    unfolding wf_options_def MAX_REQUESTS_def by fastforce
qed

lemma resolved_parts:
  assumes "resolveRunConfiguration opts nowMs pid suffix = Inr c"
    and given: "\<And>r. opt_referenceTimeUtc opts = Some r \<Longrightarrow> \<exists>t. r = toISOString t"
  shows "\<exists>t. four_digit_year t \<and> run_referenceTimeUtc c = toISOString t \<and> run_referenceTimeMs c = Some t \<and>
    (case opt_referenceTimeUtc opts of None \<Rightarrow> t = nowMs | Some r \<Rightarrow> r = toISOString t) \<and>
    createRunId (opt_seed opts) (toISOString t) = Inr (runId c) \<and> createComposeProjectName nowMs pid suffix = Inr (composeProject c) \<and>
    LoadGeneratorOptions.truncate c = opts\<lparr>opt_referenceTimeUtc := Some (toISOString t)\<rparr> \<and>
    reproductionCommand c = reproduction_command opts (toISOString t)"
proof -
  obtain t where t: "(case opt_referenceTimeUtc opts of None \<Rightarrow> t = nowMs | Some r \<Rightarrow> r = toISOString t)"
    "(case opt_referenceTimeUtc opts of None \<Rightarrow> toISOString nowMs | Some t \<Rightarrow> t) = toISOString t"
    using given by (cases "opt_referenceTimeUtc opts") auto
  then have "createRunId (opt_seed opts) (toISOString t) = Inr (runId c)"
    using assms by (auto simp: resolveRunConfiguration_def or_error_Inr Let_def LoadGeneratorOptions.defs ResolvedRunConfiguration.defs)
  note year = marker_time [OF this]
  with t assms show ?thesis
    using date_parse_iso [OF year]
    by (auto simp: resolveRunConfiguration_def or_error_Inr Let_def LoadGeneratorOptions.defs ResolvedRunConfiguration.defs)
qed

subsection \<open>A resolved run\<close>

lemma phase_counts:
  assumes "wf_options opts"
  shows "0 \<le> batch_count (opt_measuredRows opts) (opt_batchSize opts) \<and> 0 \<le> batch_count (opt_warmupRows opts) (opt_batchSize opts) \<and>
    batch_count (opt_measuredRows opts) (opt_batchSize opts) + batch_count (opt_warmupRows opts) (opt_batchSize opts) \<le> 250000"
proof -
  have b: "1 \<le> opt_batchSize opts" "opt_batchSize opts < 2 ^ 53" using assms by (simp_all add: wf_options_def)
  have "0 \<le> opt_measuredRows opts" "opt_measuredRows opts < 2 ^ 53" "0 \<le> opt_warmupRows opts" "opt_warmupRows opts < 2 ^ 53"
    using assms by (simp_all add: wf_options_def)
  with batch_count_exact [of "opt_measuredRows opts" "opt_batchSize opts"] batch_count_exact [of "opt_warmupRows opts" "opt_batchSize opts"] b assms
  show ?thesis by (simp add: wf_options_def request_count_def)
qed

text \<open>
  C33. An accepted command line makes a run: with a clock of a four-digit year, any process
  identifier and six hexadecimal digits, the options resolve; the marker and the project name have
  their shapes, the marker can be stored, the two phases have at most 250000 requests together, and
  unless the reference time is in the first four weeks of the year 0 both phases are inputs for
  which the accounts of the generator are right.
\<close>

theorem accepted_options_make_a_run:
  assumes options: "parseLoadGeneratorOptions parse_url resolve arguments = Inr opts"
    and host: "four_digit_year nowMs" "0 \<le> pid" "pid < 10 ^ 26" "length suffix = 6" "list_all is_hex suffix"
  shows "\<exists>c ref. resolveRunConfiguration opts nowMs pid suffix = Inr c \<and> run_referenceTimeMs c = Some ref \<and>
    run_id_pattern (runId c) \<and> \<not> contains_nul (runId c) \<and> compose_project_pattern (composeProject c) \<and>
    phase_batches (phase_of c Warmup) + phase_batches (phase_of c Measured) \<le> 250000 \<and>
    (four_digit_year (ref - TWENTY_EIGHT_DAYS_MS) \<longrightarrow> wf_input (phase_of c Warmup) \<and> wf_input (phase_of c Measured))"
proof -
  have wf: "wf_options opts" by (rule accepted_options [OF options])
  obtain project where project: "createComposeProjectName nowMs pid suffix = Inr project" "compose_project_pattern project"
    using project_named [OF host] by blast
  obtain t where t: "four_digit_year t" "(case opt_referenceTimeUtc opts of None \<Rightarrow> toISOString nowMs | Some r \<Rightarrow> r) = toISOString t"
    using wf host(1) by (cases "opt_referenceTimeUtc opts") (auto simp: wf_options_def)
  obtain marker where marker: "createRunId (opt_seed opts) (toISOString t) = Inr marker" "run_id_pattern marker" "\<not> contains_nul marker"
    using run_marker [OF _ _ t(1), of "opt_seed opts"] wf by (auto simp: wf_options_def)
  let ?c = "LoadGeneratorOptions.extend (opts\<lparr>opt_referenceTimeUtc := Some (toISOString t)\<rparr>)
             (ResolvedRunConfiguration.fields (toISOString t) (Some t) marker project (reproduction_command opts (toISOString t)))"
  have c: "resolveRunConfiguration opts nowMs pid suffix = Inr ?c"
    using t(2) project(1) marker(1) date_parse_iso [OF t(1)] by (simp add: resolveRunConfiguration_def or_error_def Let_def)
  have fields: "runId ?c = marker" "run_referenceTimeMs ?c = Some t" "composeProject ?c = project"
    "phase_of ?c phase = \<lparr>in_seed = opt_seed opts, in_referenceTimeMs = t, in_runId = marker, in_batchSize = opt_batchSize opts,
      in_concurrency = opt_concurrency opts, in_phase = phase,
      in_totalRows = (if phase = Warmup then opt_warmupRows opts else opt_measuredRows opts)\<rparr>" for phase
    by (simp_all add: LoadGeneratorOptions.defs ResolvedRunConfiguration.defs phase_of_def)
  note counts = phase_counts [OF wf]
  have "wf_input (phase_of ?c Warmup) \<and> wf_input (phase_of ?c Measured)" if "four_digit_year (t - TWENTY_EIGHT_DAYS_MS)"
    using that t(1) wf counts by (simp add: fields wf_input_def wf_run_def wf_options_def phase_batches_def max_safe_integer_def)
  then show ?thesis
    using c marker project counts by (intro exI [of _ ?c] exI [of _ t]) (simp add: fields(1-3) fields(4) phase_batches_def)
qed

subsection \<open>The reproduction command\<close>

text \<open>
  What the code relies on of the host: \<open>path.resolve\<close> gives an absolute path that ends like its
  argument and resolves to itself; a parsed URL without path, query and fragment is the parse of its
  own text, with or without the last slash.
\<close>

definition host_laws :: "(jsstr \<Rightarrow> base_url option) \<Rightarrow> (jsstr \<Rightarrow> jsstr) \<Rightarrow> bool" where
  "host_laws parse_url resolve \<longleftrightarrow>
     (\<forall>v. json_path v \<longrightarrow> json_path (resolve v) \<and> \<not> starts_with (js ''--'') (resolve v) \<and> resolve (resolve v) = resolve v) \<and>
     (\<forall>v u. parse_url v = Some u \<and> u_protocol u = js ''http:'' \<and> u_pathname u = js ''/'' \<and> u_search u = [] \<and> u_hash u = [] \<longrightarrow>
        starts_with (js ''http:'') (drop_last_slash (u_href u)) \<and> parse_url (drop_last_slash (u_href u)) = Some u)"

lemma base_url_again:
  assumes "host_laws parse_url resolve" "parseBaseUrl parse_url v = Inr b"
  shows "parseBaseUrl parse_url b = Inr b \<and> \<not> starts_with (js ''--'') b"
proof -
  obtain u where u: "parse_url v = Some u" "u_username u = []" "u_password u = []" "u_protocol u = js ''http:''"
    "u_hostname u \<in> {js ''127.0.0.1'', js ''localhost''}" "u_port u = js ''8080''" "u_pathname u = js ''/''" "u_search u = []" "u_hash u = []"
    "b = drop_last_slash (u_href u)"
    using assms(2) by (auto simp: parseBaseUrl_def split: option.splits if_splits)
  with assms(1) have again: "starts_with (js ''http:'') b" "parse_url b = Some u" unfolding host_laws_def by blast+
  then have "parseBaseUrl parse_url b = Inr b" using u by (simp add: parseBaseUrl_def)
  moreover have "take 2 b = js ''ht''" using arg_cong [OF again(1) [unfolded starts_with_def], of "take 2"] by (simp add: js_def numeral_2_eq_2)
  then have "\<not> starts_with (js ''--'') b" by (simp add: starts_with_def js_def numeral_2_eq_2)
  ultimately show ?thesis by blast
qed

lemma path_again:
  assumes "host_laws parse_url resolve" "validateOutputPath resolve v = Inr p"
  shows "validateOutputPath resolve p = Inr p \<and> \<not> starts_with (js ''--'') p"
  using assms by (auto simp: host_laws_def validateOutputPath_def split: if_splits)

lemma kind_again: "parseRunKind (run_kind_text k) = Inr k \<and> \<not> starts_with (js ''--'') (run_kind_text k)"
  by (cases k) (simp_all add: parseRunKind_def starts_with_def js_def)

lemma iso_head: "four_digit_year t \<Longrightarrow> \<not> starts_with (js ''--'') (toISOString t)"
proof (rule digit_head)
  assume "four_digit_year t"
  moreover have "wf_dt (dt_of t)" by simp
  then obtain c r where "t_year (dt_of t) = c # r" "is_digit c" by (cases "t_year (dt_of t)") (auto simp: wf_dt_def)
  ultimately show "toISOString t \<noteq> []" "is_digit (hd (toISOString t))" by (simp_all add: toISOString_text dt_text_def)
qed

lemma read_flag:
  "flag \<in> set supported \<Longrightarrow> raw flag = None \<Longrightarrow> \<not> starts_with (js ''--'') v \<Longrightarrow>
   read_arguments (flag # v # following) raw = read_arguments following (raw(flag \<mapsto> v))"
  by (simp add: readValue_def)

lemma flags_supported: "flag_text f \<in> set supported" "x \<in> set STRING_OPTIONS \<Longrightarrow> x \<in> set supported"
  by (cases f; simp add: supported_def NUMERIC_FLAGS_def) (simp add: supported_def)

definition command_values :: "LoadGeneratorOptions \<Rightarrow> jsstr \<Rightarrow> jsstr \<rightharpoonup> jsstr" where
  "command_values opts reference =
     [flag_text MeasuredRows \<mapsto> show_int (opt_measuredRows opts), flag_text WarmupRows \<mapsto> show_int (opt_warmupRows opts),
      flag_text BatchSize \<mapsto> show_int (opt_batchSize opts), flag_text Concurrency \<mapsto> show_int (opt_concurrency opts),
      flag_text Seed \<mapsto> show_int (opt_seed opts), js ''--output'' \<mapsto> opt_outputPath opts,
      flag_text RequestTimeoutMs \<mapsto> show_int (opt_requestTimeoutMs opts), js ''--reference-time'' \<mapsto> reference,
      js ''--base-url'' \<mapsto> opt_baseUrl opts, js ''--run-kind'' \<mapsto> run_kind_text (opt_runKind opts)]"

lemma command_read:
  assumes "wf_options opts" "\<not> starts_with (js ''--'') (opt_outputPath opts)" "\<not> starts_with (js ''--'') reference"
    "\<not> starts_with (js ''--'') (opt_baseUrl opts)"
  shows "read_arguments (drop 4 (reproduction_command opts reference)) (\<lambda>_. None) = Inr (command_values opts reference)"
proof -
  have n: "\<not> starts_with (js ''--'') (show_int n)" if "0 \<le> n" for n using unsigned_show [OF that] by blast
  have nums: "0 \<le> opt_measuredRows opts" "0 \<le> opt_warmupRows opts" "0 \<le> opt_batchSize opts" "0 \<le> opt_concurrency opts"
    "0 \<le> opt_seed opts" "0 \<le> opt_requestTimeoutMs opts"
    using assms(1) by (simp_all add: wf_options_def)
  have s: "js ''--measured-rows'' \<in> set supported" "js ''--warmup-rows'' \<in> set supported" "js ''--batch-size'' \<in> set supported"
    "js ''--concurrency'' \<in> set supported" "js ''--seed'' \<in> set supported" "js ''--request-timeout-ms'' \<in> set supported"
    "js ''--output'' \<in> set supported" "js ''--reference-time'' \<in> set supported" "js ''--base-url'' \<in> set supported" "js ''--run-kind'' \<in> set supported"
    by (simp_all add: supported_def NUMERIC_FLAGS_def STRING_OPTIONS_def)
  have d: "drop 4 (a # b # c # e # xs) = xs" for a b c e :: jsstr and xs by simp
  note kind = kind_again [of "opt_runKind opts", THEN conjunct2]
  show ?thesis
    unfolding reproduction_command_def d command_values_def flag_text.simps
    by (simp add: read_flag s n nums assms(2-4) kind del: read_arguments.simps(2))
qed

lemma command_options:
  assumes host: "host_laws parse_url resolve"
    and options: "parseLoadGeneratorOptions parse_url resolve arguments = Inr opts" and year: "four_digit_year t"
  shows "parseLoadGeneratorOptions parse_url resolve (drop 4 (reproduction_command opts (toISOString t))) =
    Inr (opts\<lparr>opt_referenceTimeUtc := Some (toISOString t)\<rparr>)"
proof -
  obtain raw where b: "build_options parse_url resolve raw = Inr opts"
    using options by (auto simp: parseLoadGeneratorOptions_def or_error_Inr)
  note parts = build_options_Inr [OF b]
  have wf: "wf_options opts" by (rule accepted_options [OF options])
  note path = path_again [OF host conjunct1 [OF parts [THEN conjunct2, THEN conjunct2, THEN conjunct2, THEN conjunct2, THEN conjunct2,
    THEN conjunct2, THEN conjunct2]]]
  have base: "parseBaseUrl parse_url (opt_baseUrl opts) = Inr (opt_baseUrl opts) \<and> \<not> starts_with (js ''--'') (opt_baseUrl opts)"
    using parts base_url_again [OF host] by blast
  let ?raw = "command_values opts (toISOString t)"
  have num: "read_numeric ?raw f = Inr n" if "?raw (flag_text f) = Some (show_int n)" "fst (flag_limits f) \<le> n" "n \<le> snd (flag_limits f)" for f n
    using parse_show [OF that(2,3)] that(1) by (simp add: read_numeric_def given_or_def)
  have ref: "read_reference ?raw = Inr (Some (toISOString t))"
    using parse_reference_iso [OF year] by (simp add: read_reference_def command_values_def or_error_def)
  have nums: "read_numeric ?raw MeasuredRows = Inr (opt_measuredRows opts)" "read_numeric ?raw WarmupRows = Inr (opt_warmupRows opts)"
    "read_numeric ?raw BatchSize = Inr (opt_batchSize opts)" "read_numeric ?raw Concurrency = Inr (opt_concurrency opts)"
    "read_numeric ?raw Seed = Inr (opt_seed opts)" "read_numeric ?raw RequestTimeoutMs = Inr (opt_requestTimeoutMs opts)"
    by (rule num; use wf in \<open>simp add: command_values_def wf_options_def\<close>)+
  have "build_options parse_url resolve ?raw = Inr (opts\<lparr>opt_referenceTimeUtc := Some (toISOString t)\<rparr>)"
  proof (rule build_options_by, goal_cases)
    case 7
    then show ?case using parts by simp
  next
    case 8
    then show ?case using path by (simp add: given_or_def command_values_def)
  next
    case 9
    then show ?case using ref by simp
  next
    case 10
    then show ?case using base by (simp add: given_or_def command_values_def)
  next
    case 11
    then show ?case using kind_again by (simp add: given_or_def command_values_def)
  qed (simp_all add: nums)
  moreover have "read_arguments (drop 4 (reproduction_command opts (toISOString t))) (\<lambda>_. None) = Inr ?raw"
    using command_read [OF wf] path base iso_head [OF year] by blast
  ultimately show ?thesis by (simp add: parseLoadGeneratorOptions_def or_error_def)
qed

lemma resolved_given:
  assumes "resolveRunConfiguration opts nowMs pid suffix = Inr c" "opt_referenceTimeUtc opts = Some (toISOString t)" "four_digit_year t"
  shows "run_referenceTimeUtc c = toISOString t \<and> run_referenceTimeMs c = Some t \<and> createRunId (opt_seed opts) (toISOString t) = Inr (runId c) \<and>
    LoadGeneratorOptions.truncate c = opts \<and> reproductionCommand c = reproduction_command opts (toISOString t)"
  using assms date_parse_iso [OF assms(3)]
  by (cases opts) (auto simp: resolveRunConfiguration_def or_error_Inr Let_def LoadGeneratorOptions.defs ResolvedRunConfiguration.defs)

lemma same_run:
  fixes c c' :: ResolvedRunConfiguration
  assumes "LoadGeneratorOptions.truncate c' = LoadGeneratorOptions.truncate c" "run_referenceTimeUtc c' = run_referenceTimeUtc c"
    "run_referenceTimeMs c' = run_referenceTimeMs c" "runId c' = runId c" "reproductionCommand c' = reproductionCommand c"
  shows "c' = c\<lparr>composeProject := composeProject c'\<rparr>"
  using assms by (cases c; cases c') (simp add: LoadGeneratorOptions.defs)

text \<open>
  C34. The reproduction command reproduces the run: its arguments, read by the same parser, give
  the options of the run with the reference time fixed, and whenever they are resolved later the
  run has the same marker, reference time and command; only the containers' project has a new name.
\<close>

theorem reproduction_command_reproduces:
  assumes host: "host_laws parse_url resolve"
    and options: "parseLoadGeneratorOptions parse_url resolve arguments = Inr opts"
    and run: "resolveRunConfiguration opts nowMs pid suffix = Inr c"
  shows "\<exists>again. parseLoadGeneratorOptions parse_url resolve (drop 4 (reproductionCommand c)) = Inr again \<and>
    again = LoadGeneratorOptions.truncate c \<and>
    (\<forall>later pid' suffix' c'. resolveRunConfiguration again later pid' suffix' = Inr c' \<longrightarrow> c' = c\<lparr>composeProject := composeProject c'\<rparr>)"
proof -
  have wf: "wf_options opts" by (rule accepted_options [OF options])
  obtain t where t: "four_digit_year t" "run_referenceTimeUtc c = toISOString t" "run_referenceTimeMs c = Some t"
    "createRunId (opt_seed opts) (toISOString t) = Inr (runId c)"
    "LoadGeneratorOptions.truncate c = opts\<lparr>opt_referenceTimeUtc := Some (toISOString t)\<rparr>"
    "reproductionCommand c = reproduction_command opts (toISOString t)"
    using resolved_parts [OF run] wf by (auto simp: wf_options_def)
  let ?again = "opts\<lparr>opt_referenceTimeUtc := Some (toISOString t)\<rparr>"
  have "c' = c\<lparr>composeProject := composeProject c'\<rparr>" if later: "resolveRunConfiguration ?again later pid' suffix' = Inr c'" for later pid' suffix' c'
  proof -
    note t' = resolved_given [OF later _ t(1)]
    show ?thesis by (rule same_run) (use t t' in \<open>simp_all add: reproduction_command_def\<close>)
  qed
  with command_options [OF host options t(1)] t(5,6) show ?thesis by auto
qed

subsection \<open>Examples\<close>

definition sample_url :: "jsstr \<Rightarrow> base_url option" where
  "sample_url v =
     (if v = js ''http://127.0.0.1:8080'' \<or> v = js ''http://127.0.0.1:8080/''
      then Some \<lparr>u_protocol = js ''http:'', u_username = [], u_password = [], u_hostname = js ''127.0.0.1'', u_port = js ''8080'',
                 u_pathname = js ''/'', u_search = [], u_hash = [], u_href = js ''http://127.0.0.1:8080/''\<rparr>
      else None)"

definition sample_resolve :: "jsstr \<Rightarrow> jsstr" where
  "sample_resolve v = (if starts_with (js ''/'') v then v else js ''/repo/'' @ v)"

lemma dropWhile_same: "xs \<noteq> [] \<Longrightarrow> dropWhile P xs = xs \<longleftrightarrow> \<not> P (hd xs)"
proof (cases xs)
  case (Cons x r)
  then have "dropWhile P r \<noteq> x # r" using length_dropWhile_le [of P r] by (metis length_Cons not_less_eq_eq order_refl)
  with Cons show ?thesis by simp
qed simp

lemma trimmed: "v \<noteq> [] \<Longrightarrow> trim_text v = v \<longleftrightarrow> \<not> space_class (hd v) \<and> \<not> space_class (last v)"
proof -
  assume v: "v \<noteq> []"
  have le: "length (trim_text v) \<le> length (dropWhile space_class v)" "length (dropWhile space_class v) \<le> length v"
    by (simp_all add: trim_text_def length_dropWhile_le order_trans [OF length_dropWhile_le])
  have "dropWhile space_class v = v" if "trim_text v = v"
    using le that length_dropWhile_le [of space_class "tl v"] by (cases v) (auto split: if_splits)
  then show ?thesis using v dropWhile_same [of v space_class] dropWhile_same [of "rev v" space_class]
    by (auto simp: trim_text_def hd_rev rev_swap)
qed

lemma sample_host: "host_laws sample_url sample_resolve"
proof -
  have "json_path (sample_resolve v) \<and> \<not> starts_with (js ''--'') (sample_resolve v) \<and> sample_resolve (sample_resolve v) = sample_resolve v"
    if v: "json_path v" for v
  proof (cases "starts_with (js ''/'') v")
    case True
    then obtain r where "v = cu CHR ''/'' # r" by (cases v) (auto simp: starts_with_def js_def)
    with v True show ?thesis by (simp add: sample_resolve_def starts_with_def js_def)
  next
    case False
    have ne: "v \<noteq> []" and last: "\<not> space_class (last v)" and ext: "map lower_unit (drop (length v - 5) v) = js ''.json''"
      using v trimmed [of v] by (auto simp: json_path_def)
    have "length (drop (length v - 5) v) = 5" using arg_cong [OF ext, of length] by simp
    then have "5 \<le> length v" by simp
    then have "drop (length (js ''/repo/'' @ v) - 5) (js ''/repo/'' @ v) = drop (length v - 5) v"
      by (simp add: numeral_eq_Suc)
    moreover have "\<not> space_class (hd (js ''/repo/'' @ v))" by (simp add: js_def cu_def space_class_def)
    ultimately have "json_path (js ''/repo/'' @ v)"
      using v ne last ext trimmed [of "js ''/repo/'' @ v"] by (auto simp: json_path_def contains_nul_def js_def cu_def)
    then show ?thesis using False by (simp add: sample_resolve_def) (simp add: starts_with_def js_def)
  qed
  moreover have "drop_last_slash (js ''http://127.0.0.1:8080/'') = js ''http://127.0.0.1:8080''" by (simp add: drop_last_slash_def js_def)
  moreover have "starts_with (js ''http:'') (js ''http://127.0.0.1:8080'')" by (simp add: starts_with_def js_def)
  ultimately show ?thesis unfolding host_laws_def by (auto simp: sample_url_def split: if_splits)
qed

definition sample_arguments :: "jsstr list" where
  "sample_arguments = map js [''--measured-rows'', ''300'', ''--seed'', ''7'', ''--output'', ''out.json'', ''--reference-time'', ''2026-08-13T12:00:00Z'']"

definition sample_options :: LoadGeneratorOptions where
  "sample_options =
     \<lparr>opt_measuredRows = 300, opt_warmupRows = 500, opt_batchSize = 100, opt_concurrency = 4, opt_seed = 7,
      opt_outputPath = js ''/repo/out.json'', opt_requestTimeoutMs = 5000,
      opt_referenceTimeUtc = Some (js ''2026-08-13T12:00:00.000Z''), opt_baseUrl = js ''http://127.0.0.1:8080'', opt_runKind = Smoke\<rparr>"

lemma sample_parsed: "parseLoadGeneratorOptions sample_url sample_resolve sample_arguments = Inr sample_options"
  by code_simp

theorem accepted_options_make_a_run_witness:
  "\<exists>c. resolveRunConfiguration sample_options 1786622400000 4711 (js ''0a1b2c'') = Inr c \<and> run_id_pattern (runId c)"
proof -
  have "four_digit_year 1786622400000" "list_all is_hex (js ''0a1b2c'')" by code_simp+
  from accepted_options_make_a_run [OF sample_parsed this(1) _ _ _ this(2), of 4711] show ?thesis by (simp del: js_simps(1)) blast
qed

theorem reproduction_command_reproduces_witness:
  "\<exists>c. resolveRunConfiguration sample_options 1786622400000 4711 (js ''0a1b2c'') = Inr c \<and>
     parseLoadGeneratorOptions sample_url sample_resolve (drop 4 (reproductionCommand c)) = Inr (LoadGeneratorOptions.truncate c)"
proof -
  have "createComposeProjectName 1786622400000 4711 (js ''0a1b2c'') = Inr (js ''logstream-loadgen-20260813120000-4711-0a1b2c'')" by code_simp
  moreover have "createRunId 7 (js ''2026-08-13T12:00:00.000Z'') = Inr (js ''lg-v1-00000007-20260813t120000000z'')" by code_simp
  ultimately obtain c where c: "resolveRunConfiguration sample_options 1786622400000 4711 (js ''0a1b2c'') = Inr c"
    by (simp add: resolveRunConfiguration_def sample_options_def or_error_def Let_def)
  from reproduction_command_reproduces [OF sample_host sample_parsed c] c show ?thesis by auto
qed

end
