(* ===== verification/LoadAggregation.thy ===== *)
theory LoadAggregation
  imports LoadConfig
begin

section \<open>The aggregation scheduler of the load generator (\<open>tools/loadgen/aggregation.ts\<close>)\<close>

text \<open>
  While a phase runs, a scheduler sends one aggregation request per interval, whatever the answers
  take: a tick whose request cannot start, or whose time has passed, is counted as missed. The
  state is the closure's variables with the position of the scheduling loop and of \<open>stop\<close>; clock
  readings, answers, the abort signal and the call of \<open>stop\<close> come in any order. An iteration of the
  loop that does not wait is a step of its own, and a request that settles is counted and leaves the
  set in one step, as no timer runs between its two callbacks. The lemmas show that the three
  accounts the code checks hold at every moment, that no tick before the end is left out, and that
  the loop that counts the ticks missed at the end returns.
\<close>

record AggregationCounters =
  scheduledTicks :: int
  startedRequests :: int
  completedRequests :: int
  successfulResponses :: int
  httpFailures :: int
  timeoutFailures :: int
  agg_transportFailures :: int
  agg_invalidResponses :: int
  missedTicks :: int

record FinalAggregationCounters = AggregationCounters +
  unresolvedRequests :: int

definition immutableAggregationCounters :: "AggregationCounters \<Rightarrow> int \<Rightarrow> throw + FinalAggregationCounters" where
  "immutableAggregationCounters mutable unresolved =
     (let c = AggregationCounters.extend mutable (FinalAggregationCounters.fields unresolved)
      in if scheduledTicks c \<noteq> startedRequests c + missedTicks c
         then Inl (ErrorMessage (js ''Aggregation scheduling accounting invariant failed.''))
         else if startedRequests c \<noteq> completedRequests c + unresolvedRequests c
         then Inl (ErrorMessage (js ''Aggregation terminal accounting invariant failed.''))
         else if completedRequests c \<noteq>
           successfulResponses c + httpFailures c + timeoutFailures c + agg_transportFailures c + agg_invalidResponses c
         then Inl (ErrorMessage (js ''Aggregation outcome accounting invariant failed.''))
         else Inr c)"

record AggregationResult =
  agg_counters :: FinalAggregationCounters
  achievedStartRatePerSecond :: "jsnum option"
  requestLatencySuccessful :: PercentileSummary
  requestLatencyAllTerminal :: PercentileSummary
  lagSummary :: PercentileSummary
  drainTimedOut :: bool

record scheduler_config =
  measuredStartMs :: rat
  intervalMs :: rat
  maximumInFlight :: nat
  drainTimeoutMs :: rat

datatype loop_position = LoopAt nat | LoopSleeping nat | LoopAwake nat | LoopDone

datatype stop_position =
    NotStopped | AwaitingLoop | Draining rat | AbortGrace | Stopped "throw + AggregationResult"

record scheduler_state =
  agg :: AggregationCounters
  successfulLatencies :: "rat list"
  terminalLatencies :: "rat list"
  schedulingLag :: "rat list"
  inFlight :: "rat list"
  measuredEndMs :: "rat option"
  loop_at :: loop_position
  stop_at :: stop_position
  agg_aborted :: bool

definition initial_scheduler :: scheduler_state where
  "initial_scheduler =
     \<lparr>agg = \<lparr>scheduledTicks = 0, startedRequests = 0, completedRequests = 0, successfulResponses = 0, httpFailures = 0,
        timeoutFailures = 0, agg_transportFailures = 0, agg_invalidResponses = 0, missedTicks = 0\<rparr>,
      successfulLatencies = [], terminalLatencies = [], schedulingLag = [], inFlight = [], measuredEndMs = None,
      loop_at = LoopAt 0, stop_at = NotStopped, agg_aborted = False\<rparr>"

text \<open>The flag \<open>stopping\<close> is set with the end of the measurement.\<close>

definition isStopping :: "scheduler_state \<Rightarrow> bool" where
  "isStopping s \<longleftrightarrow> measuredEndMs s \<noteq> None"

definition shouldStop :: "rat \<Rightarrow> scheduler_state \<Rightarrow> bool" where
  "shouldStop deadline s \<longleftrightarrow>
     isStopping s \<or> (case measuredEndMs s of None \<Rightarrow> False | Some e \<Rightarrow> e \<le> deadline) \<or> agg_aborted s"

subsection \<open>Times\<close>

definition add_double :: "rat \<Rightarrow> rat \<Rightarrow> rat" where
  "add_double a b = (if 0 \<le> a + b then round_double (a + b) else - round_double (- (a + b)))"

definition tick_deadline :: "scheduler_config \<Rightarrow> nat \<Rightarrow> rat" where
  "tick_deadline cfg tick = add_double (measuredStartMs cfg) (round_double (of_nat tick * intervalMs cfg))"

subsection \<open>Requests\<close>

text \<open>One tick: \<open>nowMs\<close> and \<open>startedMs\<close> are the two readings of the clock.\<close>

definition dispatch :: "scheduler_config \<Rightarrow> rat \<Rightarrow> rat \<Rightarrow> rat \<Rightarrow> scheduler_state \<Rightarrow> scheduler_state" where
  "dispatch cfg deadlineMs nowMs startedMs s =
     (let c = (agg s)\<lparr>scheduledTicks := scheduledTicks (agg s) + 1\<rparr>; lag = schedulingLag s @ [elapsed nowMs deadlineMs]
      in if maximumInFlight cfg \<le> length (inFlight s) \<or> agg_aborted s
         then s\<lparr>agg := c\<lparr>missedTicks := missedTicks c + 1\<rparr>, schedulingLag := lag\<rparr>
         else s\<lparr>agg := c\<lparr>startedRequests := startedRequests c + 1\<rparr>, schedulingLag := lag, inFlight := inFlight s @ [startedMs]\<rparr>)"

definition count_answer :: "aggregation_kind \<Rightarrow> AggregationCounters \<Rightarrow> AggregationCounters" where
  "count_answer kind c =
     (case kind of
        AggSuccess \<Rightarrow> c\<lparr>successfulResponses := successfulResponses c + 1\<rparr>
      | AggHttp \<Rightarrow> c\<lparr>httpFailures := httpFailures c + 1\<rparr>
      | AggTimeout \<Rightarrow> c\<lparr>timeoutFailures := timeoutFailures c + 1\<rparr>
      | AggTransport \<Rightarrow> c\<lparr>agg_transportFailures := agg_transportFailures c + 1\<rparr>
      | AggInvalid \<Rightarrow> c\<lparr>agg_invalidResponses := agg_invalidResponses c + 1\<rparr>)"

definition leave_flight :: "nat \<Rightarrow> scheduler_state \<Rightarrow> scheduler_state" where
  "leave_flight i s = s\<lparr>inFlight := take i (inFlight s) @ drop (i + 1) (inFlight s)\<rparr>"

definition request_settles :: "nat \<Rightarrow> aggregation_kind timed_result \<Rightarrow> scheduler_state \<Rightarrow> scheduler_state" where
  "request_settles i result s =
     leave_flight i
       (s\<lparr>agg := count_answer (result_outcome result) ((agg s)\<lparr>completedRequests := completedRequests (agg s) + 1\<rparr>),
          terminalLatencies := terminalLatencies s @ [latencyMs result],
          successfulLatencies := (if result_outcome result = AggSuccess then successfulLatencies s @ [latencyMs result] else successfulLatencies s)\<rparr>)"

definition request_rejects :: "nat \<Rightarrow> rat \<Rightarrow> scheduler_state \<Rightarrow> scheduler_state" where
  "request_rejects i nowMs s =
     leave_flight i
       (s\<lparr>agg := (agg s)\<lparr>completedRequests := completedRequests (agg s) + 1, agg_transportFailures := agg_transportFailures (agg s) + 1\<rparr>,
          terminalLatencies := terminalLatencies s @ [elapsed nowMs (inFlight s ! i)]\<rparr>)"

subsection \<open>The scheduling loop\<close>

definition miss_tick :: "rat \<Rightarrow> scheduler_state \<Rightarrow> scheduler_state" where
  "miss_tick lag s =
     s\<lparr>agg := (agg s)\<lparr>scheduledTicks := scheduledTicks (agg s) + 1, missedTicks := missedTicks (agg s) + 1\<rparr>,
       schedulingLag := schedulingLag s @ [lag]\<rparr>"

text \<open>A loop without a bound of its own: no value when it does not end.\<close>

partial_function (option) accountTicksMissedAtStop :: "scheduler_config \<Rightarrow> rat \<Rightarrow> nat \<Rightarrow> scheduler_state \<Rightarrow> scheduler_state option" where
  "accountTicksMissedAtStop cfg endMs tick s =
     (if endMs \<le> tick_deadline cfg tick then Some s
      else accountTicksMissedAtStop cfg endMs (tick + 1) (miss_tick (elapsed endMs (tick_deadline cfg tick)) s))"

declare accountTicksMissedAtStop.simps [code]

definition finish_loop :: "scheduler_config \<Rightarrow> nat \<Rightarrow> scheduler_state \<Rightarrow> scheduler_state option" where
  "finish_loop cfg tick s =
     (case measuredEndMs s of
        None \<Rightarrow> Some s
      | Some e \<Rightarrow> map_option (\<lambda>t. t\<lparr>loop_at := LoopDone\<rparr>) (accountTicksMissedAtStop cfg e tick s))"

text \<open>An iteration up to its waiting.\<close>

definition loop_turn :: "scheduler_config \<Rightarrow> nat \<Rightarrow> rat \<Rightarrow> scheduler_state \<Rightarrow> scheduler_state option" where
  "loop_turn cfg tick nowMs s =
     (if isStopping s then finish_loop cfg tick s
      else if agg_aborted s then Some (s\<lparr>loop_at := LoopDone\<rparr>)
      else if 0 < sub_double (tick_deadline cfg tick) nowMs then Some (s\<lparr>loop_at := LoopSleeping tick\<rparr>)
      else Some (s\<lparr>loop_at := LoopAwake tick\<rparr>))"

definition skip_passed :: "scheduler_config \<Rightarrow> nat \<Rightarrow> rat \<Rightarrow> scheduler_state \<Rightarrow> scheduler_state" where
  "skip_passed cfg tick nowMs s =
     (let next = tick_deadline cfg tick
      in if next \<le> nowMs then
           let skipped = nat (\<lfloor>round_double (sub_double nowMs next / intervalMs cfg)\<rfloor> + 1)
           in s\<lparr>agg := (agg s)\<lparr>scheduledTicks := scheduledTicks (agg s) + int skipped, missedTicks := missedTicks (agg s) + int skipped\<rparr>,
                schedulingLag := schedulingLag s @
                  map (\<lambda>k. sub_double nowMs (add_double next (round_double (of_nat k * intervalMs cfg)))) [0..<skipped],
                loop_at := LoopAt (tick + skipped)\<rparr>
         else s\<lparr>loop_at := LoopAt tick\<rparr>)"

text \<open>The rest of the iteration, with its three readings of the clock.\<close>

definition loop_continue :: "scheduler_config \<Rightarrow> nat \<Rightarrow> rat \<Rightarrow> rat \<Rightarrow> rat \<Rightarrow> scheduler_state \<Rightarrow> scheduler_state option" where
  "loop_continue cfg tick nowMs startedMs laterMs s =
     (if isStopping s then finish_loop cfg tick s
      else if shouldStop (tick_deadline cfg tick) s then Some (s\<lparr>loop_at := LoopDone\<rparr>)
      else Some (skip_passed cfg (tick + 1) laterMs (dispatch cfg (tick_deadline cfg tick) nowMs startedMs s)))"

subsection \<open>Stopping\<close>

definition NO_SUCCESSFUL_SAMPLES :: jsstr where
  "NO_SUCCESSFUL_SAMPLES = js ''No successful aggregation responses were recorded.''"

definition NO_AGGREGATION_SAMPLES :: jsstr where
  "NO_AGGREGATION_SAMPLES = js ''No aggregation requests reached a terminal outcome.''"

definition NO_TICKS :: jsstr where
  "NO_TICKS = js ''No aggregation ticks were scheduled.''"

definition scheduler_result :: "scheduler_config \<Rightarrow> bool \<Rightarrow> scheduler_state \<Rightarrow> throw + AggregationResult" where
  "scheduler_result cfg timedOut s =
     (let elapsedMs = (case measuredEndMs s of None \<Rightarrow> 0 | Some e \<Rightarrow> elapsed e (measuredStartMs cfg))
      in or_error (immutableAggregationCounters (agg s) (int (length (inFlight s)))) (\<lambda>c.
         or_error (summarizeSamples (map JFin (successfulLatencies s)) NO_SUCCESSFUL_SAMPLES) (\<lambda>successful.
         or_error (summarizeSamples (map JFin (terminalLatencies s)) NO_AGGREGATION_SAMPLES) (\<lambda>terminal.
         or_error (summarizeSamples (map JFin (schedulingLag s)) NO_TICKS) (\<lambda>lag.
           Inr \<lparr>agg_counters = c, achievedStartRatePerSecond = ratePerSecond (startedRequests c) (JFin elapsedMs),
                requestLatencySuccessful = successful, requestLatencyAllTerminal = terminal, lagSummary = lag,
                drainTimedOut = timedOut\<rparr>)))))"

definition scheduler_stop :: "rat \<Rightarrow> scheduler_state \<Rightarrow> scheduler_state" where
  "scheduler_stop endMs s = s\<lparr>measuredEndMs := Some endMs, stop_at := AwaitingLoop\<rparr>"

text \<open>After the loop that waits for the requests, when none is left and when some are.\<close>

definition after_drain :: "scheduler_config \<Rightarrow> scheduler_state \<Rightarrow> scheduler_state" where
  "after_drain cfg s =
     (if inFlight s = [] then s\<lparr>stop_at := Stopped (scheduler_result cfg False s)\<rparr> else s\<lparr>stop_at := AbortGrace\<rparr>)"

definition drain_check :: "scheduler_config \<Rightarrow> rat \<Rightarrow> rat \<Rightarrow> scheduler_state \<Rightarrow> scheduler_state" where
  "drain_check cfg drainStarted nowMs s =
     (if inFlight s \<noteq> [] \<and> sub_double nowMs drainStarted < drainTimeoutMs cfg then s\<lparr>stop_at := Draining drainStarted\<rparr>
      else after_drain cfg s)"

definition grace_ends :: "scheduler_config \<Rightarrow> scheduler_state \<Rightarrow> scheduler_state" where
  "grace_ends cfg s = s\<lparr>stop_at := Stopped (scheduler_result cfg True s)\<rparr>"

subsection \<open>Steps\<close>

text \<open>
  A sleep rejects only when the signal aborted it. The grace after the abort ends when every request
  settled or when its time is over.
\<close>

inductive scheduler_step :: "scheduler_config \<Rightarrow> scheduler_state \<Rightarrow> scheduler_state \<Rightarrow> bool" for cfg where
  Turn: "loop_at s = LoopAt k \<Longrightarrow> loop_turn cfg k nowMs s = Some t \<Longrightarrow> scheduler_step cfg s t"
| Wakes: "loop_at s = LoopSleeping k \<Longrightarrow> scheduler_step cfg s (s\<lparr>loop_at := LoopAwake k\<rparr>)"
| SleepRejected: "loop_at s = LoopSleeping k \<Longrightarrow> agg_aborted s \<Longrightarrow> scheduler_step cfg s (s\<lparr>loop_at := LoopDone\<rparr>)"
| Continues: "loop_at s = LoopAwake k \<Longrightarrow> loop_continue cfg k nowMs startedMs laterMs s = Some t \<Longrightarrow> scheduler_step cfg s t"
| Settles: "i < length (inFlight s) \<Longrightarrow>
    scheduler_step cfg s (request_settles i (aggregation_sender parse_date fetched startedMs completed) s)"
| Rejects: "i < length (inFlight s) \<Longrightarrow> scheduler_step cfg s (request_rejects i nowMs s)"
| Aborts: "scheduler_step cfg s (s\<lparr>agg_aborted := True\<rparr>)"
| Stops: "stop_at s = NotStopped \<Longrightarrow> scheduler_step cfg s (scheduler_stop endMs s)"
| DrainBegins: "stop_at s = AwaitingLoop \<Longrightarrow> loop_at s = LoopDone \<Longrightarrow> scheduler_step cfg s (drain_check cfg startedMs nowMs s)"
| DrainWakes: "stop_at s = Draining startedMs \<Longrightarrow> scheduler_step cfg s (drain_check cfg startedMs nowMs s)"
| DrainRejected: "stop_at s = Draining startedMs \<Longrightarrow> agg_aborted s \<Longrightarrow> scheduler_step cfg s (after_drain cfg s)"
| GraceEnds: "stop_at s = AbortGrace \<Longrightarrow> scheduler_step cfg s (grace_ends cfg s)"

inductive_cases scheduler_stepE: "scheduler_step cfg s t"

subsection \<open>The accounts\<close>

definition outcomes :: "AggregationCounters \<Rightarrow> int" where
  "outcomes c = successfulResponses c + httpFailures c + timeoutFailures c + agg_transportFailures c + agg_invalidResponses c"

text \<open>What holds of the accounts in every state, and of the ticks at each position of the loop.\<close>

definition ticks_done :: "scheduler_config \<Rightarrow> loop_position \<Rightarrow> int \<Rightarrow> bool \<Rightarrow> rat option \<Rightarrow> bool" where
  "ticks_done cfg position ticks abort measuredEnd \<longleftrightarrow>
     (case position of
        LoopAt k \<Rightarrow> ticks = int k
      | LoopSleeping k \<Rightarrow> ticks = int k
      | LoopAwake k \<Rightarrow> ticks = int k
      | LoopDone \<Rightarrow> 0 \<le> ticks \<and> (abort \<or> (\<exists>e. measuredEnd = Some e \<and> e \<le> tick_deadline cfg (nat ticks))))"

definition books :: "scheduler_config \<Rightarrow> scheduler_state \<Rightarrow> bool" where
  "books cfg s \<longleftrightarrow>
     scheduledTicks (agg s) = startedRequests (agg s) + missedTicks (agg s) \<and>
     startedRequests (agg s) = completedRequests (agg s) + int (length (inFlight s)) \<and>
     completedRequests (agg s) = outcomes (agg s) \<and>
     scheduledTicks (agg s) = int (length (schedulingLag s)) \<and>
     completedRequests (agg s) = int (length (terminalLatencies s)) \<and>
     successfulResponses (agg s) = int (length (successfulLatencies s)) \<and>
     length (inFlight s) \<le> maximumInFlight cfg \<and>
     (\<forall>t \<in> set (terminalLatencies s) \<union> set (successfulLatencies s). 0 \<le> t)"

definition positions :: "scheduler_config \<Rightarrow> scheduler_state \<Rightarrow> bool" where
  "positions cfg s \<longleftrightarrow>
     ticks_done cfg (loop_at s) (scheduledTicks (agg s)) (agg_aborted s) (measuredEndMs s) \<and> (stop_at s = NotStopped \<longleftrightarrow> measuredEndMs s = None) \<and>
     (stop_at s \<in> {NotStopped, AwaitingLoop} \<or> loop_at s = LoopDone)"

definition scheduler_inv :: "scheduler_config \<Rightarrow> scheduler_state \<Rightarrow> bool" where
  "scheduler_inv cfg s \<longleftrightarrow> books cfg s \<and> positions cfg s"

lemma initial_scheduler_inv: "scheduler_inv cfg initial_scheduler"
  by (simp add: scheduler_inv_def books_def positions_def initial_scheduler_def outcomes_def ticks_done_def)

lemma outcomes_update [simp]:
  "outcomes (c\<lparr>completedRequests := n\<rparr>) = outcomes c" "outcomes (c\<lparr>startedRequests := n\<rparr>) = outcomes c"
  "outcomes (c\<lparr>scheduledTicks := n\<rparr>) = outcomes c" "outcomes (c\<lparr>missedTicks := n\<rparr>) = outcomes c"
  "outcomes (c\<lparr>agg_transportFailures := n\<rparr>) = outcomes c - agg_transportFailures c + n"
  by (simp_all add: outcomes_def)

lemma count_answer_simps [simp]:
  "outcomes (count_answer kind c) = outcomes c + 1" "scheduledTicks (count_answer kind c) = scheduledTicks c"
  "startedRequests (count_answer kind c) = startedRequests c" "completedRequests (count_answer kind c) = completedRequests c"
  "missedTicks (count_answer kind c) = missedTicks c"
  "successfulResponses (count_answer kind c) = successfulResponses c + (if kind = AggSuccess then 1 else 0)"
  by (cases kind; simp add: count_answer_def outcomes_def)+

lemma aggregation_latency: "0 \<le> latencyMs (aggregation_sender parse_date fetched started completed)"
  by (simp add: aggregation_sender_def requestJson_def Let_def elapsed_nonneg)

lemma settles_inv:
  assumes inv: "scheduler_inv cfg s" and i: "i < length (inFlight s)" and l: "0 \<le> latencyMs result"
  shows "scheduler_inv cfg (request_settles i result s)"
proof -
  have n: "int (length (take i (inFlight s) @ drop (Suc i) (inFlight s))) = int (length (inFlight s)) - 1" using i by auto
  have "books cfg (request_settles i result s)"
    using inv l n i by (auto simp: scheduler_inv_def books_def request_settles_def leave_flight_def)
  moreover have "positions cfg (request_settles i result s)"
    using inv by (auto simp: scheduler_inv_def positions_def request_settles_def leave_flight_def)
  ultimately show ?thesis by (simp add: scheduler_inv_def)
qed

lemma rejects_inv:
  assumes inv: "scheduler_inv cfg s" and i: "i < length (inFlight s)"
  shows "scheduler_inv cfg (request_rejects i nowMs s)"
proof -
  have n: "int (length (take i (inFlight s) @ drop (Suc i) (inFlight s))) = int (length (inFlight s)) - 1" using i by auto
  have "books cfg (request_rejects i nowMs s)"
    using inv n i elapsed_nonneg by (auto simp: scheduler_inv_def books_def request_rejects_def leave_flight_def)
  moreover have "positions cfg (request_rejects i nowMs s)"
    using inv by (auto simp: scheduler_inv_def positions_def request_rejects_def leave_flight_def)
  ultimately show ?thesis by (simp add: scheduler_inv_def)
qed

text \<open>The counting loop, when it returns: the ticks before the end from the given one on are missed.\<close>

definition missed_from :: "scheduler_config \<Rightarrow> rat \<Rightarrow> nat \<Rightarrow> scheduler_state \<Rightarrow> scheduler_state \<Rightarrow> bool" where
  "missed_from cfg endMs tick s t \<longleftrightarrow>
     (\<exists>lags. endMs \<le> tick_deadline cfg (tick + length lags) \<and> (\<forall>j < length lags. tick_deadline cfg (tick + j) < endMs) \<and>
        (\<forall>x \<in> set lags. 0 \<le> x) \<and>
        t = s\<lparr>agg := (agg s)\<lparr>scheduledTicks := scheduledTicks (agg s) + int (length lags),
                missedTicks := missedTicks (agg s) + int (length lags)\<rparr>,
              schedulingLag := schedulingLag s @ lags\<rparr>)"

lemma missed_none: "endMs \<le> tick_deadline cfg tick \<Longrightarrow> missed_from cfg endMs tick s s"
  unfolding missed_from_def by (rule exI [of _ "[]"]) simp

lemma missed_one:
  assumes "tick_deadline cfg tick < endMs" "0 \<le> lag" "missed_from cfg endMs (tick + 1) (miss_tick lag s) t"
  shows "missed_from cfg endMs tick s t"
proof -
  obtain lags where l: "endMs \<le> tick_deadline cfg (tick + 1 + length lags)" "\<forall>j < length lags. tick_deadline cfg (tick + 1 + j) < endMs"
    "\<forall>x \<in> set lags. 0 \<le> x"
    "t = (miss_tick lag s)\<lparr>agg := (agg (miss_tick lag s))\<lparr>scheduledTicks := scheduledTicks (agg (miss_tick lag s)) + int (length lags),
         missedTicks := missedTicks (agg (miss_tick lag s)) + int (length lags)\<rparr>, schedulingLag := schedulingLag (miss_tick lag s) @ lags\<rparr>"
    using assms(3) unfolding missed_from_def by blast
  have "tick_deadline cfg (tick + j) < endMs" if "j < length (lag # lags)" for j
    using that l(2) assms(1) by (cases j) auto
  with l assms(2) show ?thesis unfolding missed_from_def
    by (intro exI [of _ "lag # lags"]) (simp add: miss_tick_def)
qed

lemma account_returns:
  assumes "accountTicksMissedAtStop cfg endMs tick s = Some t"
  shows "missed_from cfg endMs tick s t"
proof (rule accountTicksMissedAtStop.raw_induct [where P = missed_from, OF _ assms], goal_cases)
  case (1 account cfg endMs tick s t)
  show ?case
  proof (cases "endMs \<le> tick_deadline cfg tick")
    case True
    with 1(2) show ?thesis by (simp add: missed_none)
  next
    case False
    with 1(2) have "missed_from cfg endMs (tick + 1) (miss_tick (elapsed endMs (tick_deadline cfg tick)) s) t"
      by (intro 1(1)) simp
    with False show ?thesis by (simp add: missed_one [OF _ elapsed_nonneg])
  qed
qed

text \<open>It returns when the interval is at least a millisecond and the measurement began at a time that is not negative.\<close>

definition wf_scheduler :: "scheduler_config \<Rightarrow> bool" where
  "wf_scheduler cfg \<longleftrightarrow> 1 \<le> intervalMs cfg \<and> 0 \<le> measuredStartMs cfg"

lemma round_double_half: "1 \<le> r \<Longrightarrow> r / 2 \<le> round_double r"
proof -
  assume "1 \<le> r"
  then have "\<bar>round_double r - r\<bar> \<le> r / 2 ^ 53" using round_double_error [of r 0] by simp
  moreover have "r / 2 ^ 53 \<le> r / 2" using \<open>1 \<le> r\<close> by (intro divide_left_mono) simp_all
  ultimately show ?thesis by linarith
qed

lemma deadline_grows:
  assumes "wf_scheduler cfg" "4 \<le> tick"
  shows "of_nat tick / 4 \<le> tick_deadline cfg tick"
proof -
  let ?m = "round_double (of_nat tick * intervalMs cfg)"
  have t: "(4 :: rat) \<le> of_nat tick" using assms(2) by (metis of_nat_le_iff of_nat_numeral)
  have "of_nat tick * 1 \<le> of_nat tick * intervalMs cfg" using assms(1) by (intro mult_left_mono) (simp_all add: wf_scheduler_def)
  then have "of_nat tick / 2 \<le> ?m" using round_double_half [of "of_nat tick * intervalMs cfg"] t by linarith
  then have sum: "of_nat tick / 2 \<le> measuredStartMs cfg + ?m" using assms(1) by (simp add: wf_scheduler_def)
  then have "1 \<le> measuredStartMs cfg + ?m" using t by linarith
  from round_double_half [OF this] sum this show ?thesis by (simp add: tick_deadline_def add_double_def)
qed

lemma account_ends:
  assumes "\<And>k. n \<le> k \<Longrightarrow> endMs \<le> tick_deadline cfg k"
  shows "\<exists>t. accountTicksMissedAtStop cfg endMs tick s = Some t"
proof (induction "n - tick" arbitrary: tick s)
  case 0
  then show ?case using assms [of tick] by (subst accountTicksMissedAtStop.simps) simp
next
  case (Suc d)
  then have "d = n - (tick + 1)" by simp
  from Suc.hyps(1) [OF this] show ?case by (subst accountTicksMissedAtStop.simps) simp
qed

lemma account_total:
  assumes "wf_scheduler cfg"
  shows "\<exists>t. accountTicksMissedAtStop cfg endMs tick s = Some t"
proof -
  let ?n = "max 4 (nat \<lceil>4 * endMs\<rceil>)"
  have "endMs \<le> tick_deadline cfg k" if "?n \<le> k" for k
  proof -
    have "4 * endMs \<le> of_nat k" using that by (meson le_nat_iff max.boundedE of_nat_ceiling order_trans of_nat_le_iff)
    moreover have "of_nat k / 4 \<le> tick_deadline cfg k" using deadline_grows [OF assms] that by simp
    ultimately show ?thesis by linarith
  qed
  then show ?thesis by (rule account_ends)
qed

text \<open>The tick a position of the loop is at.\<close>

lemma tick_at:
  assumes "scheduler_inv cfg s" "loop_at s \<in> {LoopAt k, LoopSleeping k, LoopAwake k}"
  shows "scheduledTicks (agg s) = int k"
  using assms by (auto simp: scheduler_inv_def positions_def ticks_done_def)

lemma missed_inv:
  assumes inv: "scheduler_inv cfg s" and tick: "scheduledTicks (agg s) = int k" and e: "measuredEndMs s = Some e" and m: "missed_from cfg e k s t"
  shows "scheduler_inv cfg (t\<lparr>loop_at := LoopDone\<rparr>)"
proof -
  obtain lags where l: "e \<le> tick_deadline cfg (k + length lags)" "\<forall>x \<in> set lags. 0 \<le> x"
    "t = s\<lparr>agg := (agg s)\<lparr>scheduledTicks := scheduledTicks (agg s) + int (length lags),
        missedTicks := missedTicks (agg s) + int (length lags)\<rparr>, schedulingLag := schedulingLag s @ lags\<rparr>"
    using m unfolding missed_from_def by blast
  have "books cfg (t\<lparr>loop_at := LoopDone\<rparr>)" using inv by (auto simp: scheduler_inv_def books_def l(3))
  moreover have "nat (int k + int (length lags)) = k + length lags" by simp
  then have "positions cfg (t\<lparr>loop_at := LoopDone\<rparr>)"
    using inv l(1) e tick by (auto simp: scheduler_inv_def positions_def ticks_done_def l(3))
  ultimately show ?thesis by (simp add: scheduler_inv_def)
qed

lemma finish_inv:
  assumes "scheduler_inv cfg s" "scheduledTicks (agg s) = int k" "isStopping s" "finish_loop cfg k s = Some t"
  shows "scheduler_inv cfg t"
  using assms missed_inv account_returns by (fastforce simp: finish_loop_def isStopping_def)

lemma moved_inv:
  assumes "scheduler_inv cfg s" "scheduledTicks (agg s) = int k" "measuredEndMs s = None"
    "p \<in> {LoopAt k, LoopSleeping k, LoopAwake k} \<or> p = LoopDone \<and> agg_aborted s"
  shows "scheduler_inv cfg (s\<lparr>loop_at := p\<rparr>)"
  using assms by (auto simp: scheduler_inv_def positions_def ticks_done_def books_def)

lemma turn_inv:
  assumes inv: "scheduler_inv cfg s" and k: "loop_at s = LoopAt k" and t: "loop_turn cfg k nowMs s = Some t"
  shows "scheduler_inv cfg t"
proof -
  have tick: "scheduledTicks (agg s) = int k" by (rule tick_at [OF inv]) (simp add: k)
  show ?thesis
  proof (cases "isStopping s")
    case True
    then show ?thesis using t finish_inv [OF inv tick True] by (simp add: loop_turn_def)
  next
    case False
    then have "measuredEndMs s = None" by (simp add: isStopping_def)
    from moved_inv [OF inv tick this] t False show ?thesis by (auto simp: loop_turn_def split: if_splits)
  qed
qed

lemma dispatch_inv:
  assumes inv: "scheduler_inv cfg s" and tick: "scheduledTicks (agg s) = int k"
  shows "books cfg (dispatch cfg d nowMs startedMs s) \<and> scheduledTicks (agg (dispatch cfg d nowMs startedMs s)) = int (k + 1) \<and>
    measuredEndMs (dispatch cfg d nowMs startedMs s) = measuredEndMs s \<and> stop_at (dispatch cfg d nowMs startedMs s) = stop_at s"
  using inv tick by (auto simp: scheduler_inv_def books_def dispatch_def Let_def)

lemma skip_inv:
  assumes b: "books cfg s" and tick: "scheduledTicks (agg s) = int k" and stop: "measuredEndMs s = None" "stop_at s = NotStopped"
  shows "scheduler_inv cfg (skip_passed cfg k nowMs s)"
  using assms
  by (auto simp: scheduler_inv_def books_def positions_def ticks_done_def skip_passed_def Let_def)

lemma continue_inv:
  assumes inv: "scheduler_inv cfg s" and k: "loop_at s = LoopAwake k" and t: "loop_continue cfg k nowMs startedMs laterMs s = Some t"
  shows "scheduler_inv cfg t"
proof -
  have tick: "scheduledTicks (agg s) = int k" by (rule tick_at [OF inv]) (simp add: k)
  show ?thesis
  proof (cases "isStopping s")
    case True
    then show ?thesis using t finish_inv [OF inv tick True] by (simp add: loop_continue_def)
  next
    case False
    then have e: "measuredEndMs s = None" by (simp add: isStopping_def)
    then have "stop_at s = NotStopped" using inv by (simp add: scheduler_inv_def positions_def)
    with e dispatch_inv [OF inv tick]
    have "scheduler_inv cfg (skip_passed cfg (k + 1) laterMs (dispatch cfg (tick_deadline cfg k) nowMs startedMs s))"
      by (intro skip_inv) auto
    with moved_inv [OF inv tick e, of LoopDone] t False e show ?thesis
      by (auto simp: loop_continue_def shouldStop_def split: if_splits)
  qed
qed

lemma stopping_inv:
  assumes inv: "scheduler_inv cfg s"
  shows "stop_at s = NotStopped \<Longrightarrow> scheduler_inv cfg (scheduler_stop endMs s)"
    and "loop_at s = LoopDone \<Longrightarrow> measuredEndMs s \<noteq> None \<Longrightarrow> scheduler_inv cfg (after_drain cfg s)"
    and "loop_at s = LoopDone \<Longrightarrow> measuredEndMs s \<noteq> None \<Longrightarrow> scheduler_inv cfg (drain_check cfg startedMs nowMs s)"
    and "loop_at s = LoopDone \<Longrightarrow> measuredEndMs s \<noteq> None \<Longrightarrow> scheduler_inv cfg (grace_ends cfg s)"
  using inv
  by (auto simp: scheduler_inv_def positions_def books_def ticks_done_def scheduler_stop_def drain_check_def after_drain_def grace_ends_def
      split: loop_position.splits)

lemma stopped_end:
  "scheduler_inv cfg s \<Longrightarrow> stop_at s = AwaitingLoop \<Longrightarrow> measuredEndMs s \<noteq> None"
  "scheduler_inv cfg s \<Longrightarrow> stop_at s = Draining d \<Longrightarrow> measuredEndMs s \<noteq> None"
  "scheduler_inv cfg s \<Longrightarrow> stop_at s = AbortGrace \<Longrightarrow> measuredEndMs s \<noteq> None"
  by (simp_all add: scheduler_inv_def positions_def)

lemma stopped_loop:
  "scheduler_inv cfg s \<Longrightarrow> stop_at s = Draining d \<Longrightarrow> loop_at s = LoopDone"
  "scheduler_inv cfg s \<Longrightarrow> stop_at s = AbortGrace \<Longrightarrow> loop_at s = LoopDone"
  by (simp_all add: scheduler_inv_def positions_def)

lemma scheduler_step_inv: "scheduler_inv cfg s \<Longrightarrow> scheduler_step cfg s t \<Longrightarrow> scheduler_inv cfg t"
proof (erule scheduler_stepE, goal_cases)
  case 1
  then show ?case using turn_inv by blast
next
  case 2
  then show ?case by (auto simp: scheduler_inv_def positions_def books_def ticks_done_def)
next
  case 3
  then show ?case by (auto simp: scheduler_inv_def positions_def books_def ticks_done_def)
next
  case 4
  then show ?case using continue_inv by blast
next
  case 5
  then show ?case using settles_inv [OF _ _ aggregation_latency] by blast
next
  case 6
  then show ?case using rejects_inv by blast
next
  case 7
  then show ?case by (auto simp: scheduler_inv_def positions_def books_def ticks_done_def split: loop_position.splits)
next
  case 8
  then show ?case using stopping_inv(1) by blast
next
  case 9
  then show ?case using stopping_inv(3) stopped_end by blast
next
  case 10
  show ?case unfolding 10(2) by (rule stopping_inv(3) [OF 10(1) stopped_loop(1) [OF 10(1,3)] stopped_end(2) [OF 10(1,3)]])
next
  case 11
  show ?case unfolding 11(2) by (rule stopping_inv(2) [OF 11(1) stopped_loop(1) [OF 11(1,3)] stopped_end(2) [OF 11(1,3)]])
next
  case 12
  show ?case unfolding 12(2) by (rule stopping_inv(4) [OF 12(1) stopped_loop(2) [OF 12(1,3)] stopped_end(3) [OF 12(1,3)]])
qed

interpretation scheduler: invariant_machine "\<lambda>s. s = initial_scheduler" "scheduler_step cfg" "scheduler_inv cfg" for cfg
  by standard (auto simp: initial_scheduler_inv intro: scheduler_step_inv)


subsection \<open>The properties\<close>

lemma reachable_scheduler: "(scheduler_step cfg)\<^sup>*\<^sup>* initial_scheduler s \<Longrightarrow> scheduler_inv cfg s"
  using scheduler.reachable_inv [of initial_scheduler cfg s] by blast

lemma turns_return:
  assumes "wf_scheduler cfg"
  shows "loop_turn cfg k nowMs s \<noteq> None" "loop_continue cfg k nowMs startedMs laterMs s \<noteq> None"
proof -
  have "finish_loop cfg k s \<noteq> None"
    using account_total [OF assms] by (auto simp: finish_loop_def split: option.splits)
  then show "loop_turn cfg k nowMs s \<noteq> None" "loop_continue cfg k nowMs startedMs laterMs s \<noteq> None"
    by (auto simp: loop_turn_def loop_continue_def)
qed

lemma books_close:
  assumes "books cfg s"
  shows "\<exists>final. immutableAggregationCounters (agg s) (int (length (inFlight s))) = Inr final \<and>
    unresolvedRequests final = int (length (inFlight s)) \<and> AggregationCounters.truncate final = agg s"
  using assms
  by (cases "agg s") (simp add: books_def outcomes_def immutableAggregationCounters_def Let_def AggregationCounters.defs FinalAggregationCounters.defs)

lemma result_given:
  assumes b: "books cfg s" and lag: "\<forall>x \<in> set (schedulingLag s). 0 \<le> x"
  shows "\<exists>r. scheduler_result cfg timedOut s = Inr r \<and> AggregationCounters.truncate (agg_counters r) = agg s \<and>
    unresolvedRequests (agg_counters r) = int (length (inFlight s)) \<and> drainTimedOut r = timedOut"
proof -
  have good: "\<not> list_ex bad_sample (map JFin xs)" if "\<forall>x \<in> set xs. 0 \<le> x" for xs using that by (auto simp: list_ex_iff bad_sample_def)
  obtain c where c: "immutableAggregationCounters (agg s) (int (length (inFlight s))) = Inr c"
    "unresolvedRequests c = int (length (inFlight s))" "AggregationCounters.truncate c = agg s"
    using books_close [OF b] by blast
  have pos: "\<forall>x \<in> set (successfulLatencies s). 0 \<le> x" "\<forall>x \<in> set (terminalLatencies s). 0 \<le> x" using b by (auto simp: books_def)
  obtain x y z where "summarizeSamples (map JFin (successfulLatencies s)) NO_SUCCESSFUL_SAMPLES = Inr x"
    "summarizeSamples (map JFin (terminalLatencies s)) NO_AGGREGATION_SAMPLES = Inr y"
    "summarizeSamples (map JFin (schedulingLag s)) NO_TICKS = Inr z"
    using summarize_total [OF good [OF pos(1)]] summarize_total [OF good [OF pos(2)]] summarize_total [OF good [OF lag]] by blast
  with c show ?thesis by (simp add: scheduler_result_def or_error_def Let_def)
qed

lemma deadlines_ascend:
  assumes "wf_scheduler cfg" "j \<le> k"
  shows "tick_deadline cfg j \<le> tick_deadline cfg k"
proof -
  have i: "0 \<le> intervalMs cfg" "0 \<le> measuredStartMs cfg" using assms(1) by (auto simp: wf_scheduler_def)
  have nn: "0 \<le> of_nat n * intervalMs cfg" for n using i by simp
  have "of_nat j * intervalMs cfg \<le> of_nat k * intervalMs cfg" using assms(2) i by (intro mult_right_mono) simp_all
  from round_double_mono [OF nn this] have "round_double (of_nat j * intervalMs cfg) \<le> round_double (of_nat k * intervalMs cfg)" .
  moreover have "0 \<le> round_double (of_nat n * intervalMs cfg)" for n by (rule round_double_nonneg [OF nn])
  ultimately show ?thesis using i by (auto simp: tick_deadline_def add_double_def intro!: round_double_mono)
qed

text \<open>
  C29. The scheduler keeps its books: in every state it can reach, whatever the clock shows, the
  requests answer and whenever it is stopped or aborted, at most the allowed number of requests is
  under way and the three accounts that are checked at the end hold; every turn of its loop returns,
  the one that counts the ticks missed at the end too; unless it was aborted, a loop that has ended
  has counted every tick before the end of the measurement; and \<open>stop\<close> gives a result with these
  counters unless a clock that ran backwards made a lag negative.
\<close>

theorem scheduler_keeps_its_books:
  assumes cfg: "wf_scheduler cfg" and reach: "(scheduler_step cfg)\<^sup>*\<^sup>* initial_scheduler s"
  shows "length (inFlight s) \<le> maximumInFlight cfg \<and>
    (\<exists>final. immutableAggregationCounters (agg s) (int (length (inFlight s))) = Inr final) \<and>
    loop_turn cfg k nowMs s \<noteq> None \<and> loop_continue cfg k nowMs startedMs laterMs s \<noteq> None \<and>
    (loop_at s \<noteq> LoopDone \<or> agg_aborted s \<or>
      (\<exists>e. measuredEndMs s = Some e \<and> {j. tick_deadline cfg j < e} \<subseteq> {j. int j < scheduledTicks (agg s)})) \<and>
    (list_ex (\<lambda>x. x < 0) (schedulingLag s) \<or>
      (\<exists>r. scheduler_result cfg timedOut s = Inr r \<and> AggregationCounters.truncate (agg_counters r) = agg s \<and>
         unresolvedRequests (agg_counters r) = int (length (inFlight s)) \<and> drainTimedOut r = timedOut))"
proof -
  have inv: "scheduler_inv cfg s" by (rule reachable_scheduler [OF reach])
  have b: "books cfg s" using inv by (simp add: scheduler_inv_def)
  have "{j. tick_deadline cfg j < e} \<subseteq> {j. int j < scheduledTicks (agg s)}"
    if e: "e \<le> tick_deadline cfg (nat (scheduledTicks (agg s)))" "0 \<le> scheduledTicks (agg s)" for e
  proof (rule subsetI, rule ccontr)
    fix j assume j: "j \<in> {j. tick_deadline cfg j < e}" "j \<notin> {j. int j < scheduledTicks (agg s)}"
    then have "nat (scheduledTicks (agg s)) \<le> j" by simp
    from deadlines_ascend [OF cfg this] e j(1) show False by simp
  qed
  moreover have "loop_at s \<noteq> LoopDone \<or> agg_aborted s \<or>
      (\<exists>e. measuredEndMs s = Some e \<and> e \<le> tick_deadline cfg (nat (scheduledTicks (agg s))) \<and> 0 \<le> scheduledTicks (agg s))"
    using inv by (auto simp: scheduler_inv_def positions_def ticks_done_def)
  ultimately have "loop_at s \<noteq> LoopDone \<or> agg_aborted s \<or>
      (\<exists>e. measuredEndMs s = Some e \<and> {j. tick_deadline cfg j < e} \<subseteq> {j. int j < scheduledTicks (agg s)})"
    by blast
  moreover have "list_ex (\<lambda>x. x < 0) (schedulingLag s) \<or>
      (\<exists>r. scheduler_result cfg timedOut s = Inr r \<and> AggregationCounters.truncate (agg_counters r) = agg s \<and>
         unresolvedRequests (agg_counters r) = int (length (inFlight s)) \<and> drainTimedOut r = timedOut)"
    using result_given [OF b, of timedOut] unfolding list_ex_iff by (meson not_less)
  ultimately show ?thesis using turns_return [OF cfg] books_close [OF b] b unfolding books_def by blast
qed

definition sample_scheduler :: scheduler_config where
  "sample_scheduler = \<lparr>measuredStartMs = 1000, intervalMs = 1000, maximumInFlight = 4, drainTimeoutMs = 10000\<rparr>"

definition sample_awake :: scheduler_state where
  "sample_awake = the (loop_turn sample_scheduler 0 1000 initial_scheduler)"

definition sample_started :: scheduler_state where
  "sample_started = the (loop_continue sample_scheduler 0 1000 1000 1001 sample_awake)"

definition sample_ended :: scheduler_state where
  "sample_ended = the (loop_turn sample_scheduler 1 3500 (scheduler_stop 3500 sample_started))"

lemma sample_scheduler_wf: "wf_scheduler sample_scheduler"
  by (simp add: wf_scheduler_def sample_scheduler_def)

lemma sample_positions:
  "loop_at initial_scheduler = LoopAt 0" "loop_at sample_awake = LoopAwake 0" "loop_at sample_started = LoopAt 1" "stop_at sample_started = NotStopped"
  by code_simp+

lemma sample_reach: "(scheduler_step sample_scheduler)\<^sup>*\<^sup>* initial_scheduler sample_ended"
proof -
  have 1: "scheduler_step sample_scheduler initial_scheduler sample_awake"
    by (rule Turn [OF sample_positions(1), of _ 1000]) (use turns_return(1) [OF sample_scheduler_wf] in \<open>simp add: sample_awake_def\<close>)
  have 2: "scheduler_step sample_scheduler sample_awake sample_started"
    by (rule Continues [OF sample_positions(2), of _ 1000 1000 1001]) (use turns_return(2) [OF sample_scheduler_wf] in \<open>simp add: sample_started_def\<close>)
  have 3: "scheduler_step sample_scheduler sample_started (scheduler_stop 3500 sample_started)" by (rule Stops [OF sample_positions(4)])
  have "loop_at (scheduler_stop 3500 sample_started) = LoopAt 1" by (simp add: scheduler_stop_def sample_positions)
  then have 4: "scheduler_step sample_scheduler (scheduler_stop 3500 sample_started) sample_ended"
    by (rule Turn [of _ _ _ 3500]) (use turns_return(1) [OF sample_scheduler_wf] in \<open>simp add: sample_ended_def\<close>)
  from 1 2 3 4 show ?thesis by (meson rtranclp.rtrancl_refl rtranclp.rtrancl_into_rtrancl)
qed

theorem scheduler_keeps_its_books_witness:
  "\<exists>final. immutableAggregationCounters (agg sample_ended) (int (length (inFlight sample_ended))) = Inr final \<and>
     scheduledTicks (agg sample_ended) = 3 \<and> missedTicks (agg sample_ended) = 2 \<and> length (inFlight sample_ended) = 1"
proof -
  have "scheduledTicks (agg sample_ended) = 3" "missedTicks (agg sample_ended) = 2" "length (inFlight sample_ended) = 1" by code_simp+
  with scheduler_keeps_its_books [OF sample_scheduler_wf sample_reach] show ?thesis by blast
qed

end
