(* ===== verification/LoadFreshness.thy ===== *)
theory LoadFreshness
  imports LoadAggregation
begin

section \<open>The freshness probe and the tool's queries (\<open>tools/loadgen/freshness.ts\<close>)\<close>

text \<open>
  After the first measured batch was acknowledged, the tool polls the service for one of its rows
  until an answer contains it or a deadline passes. What a poll meets (clock readings, the signal,
  the answer, whether the sleep ends) is an argument, one record for each poll. The lemmas show that
  the service parses both queries of the tool as they are meant, that the result says what the
  polls met, and that polling ends when every round takes some time.
\<close>

subsection \<open>The queries\<close>

text \<open>The search parameters of the two requests; the path is resolved against the base by \<open>URL\<close>.\<close>

definition buildFreshnessUrl :: "IngestionProbe \<Rightarrow> (jsstr \<times> jsstr) list" where
  "buildFreshnessUrl p =
     (let a = syn_attributes (probe_log p)
      in [(js ''attr.loadgen_run_id'', loadgen_run_id a), (js ''attr.loadgen_phase'', phase_text (loadgen_phase a)),
          (js ''attr.loadgen_sequence'', loadgen_sequence a), (js ''limit'', js ''1'')])"

definition buildPrimaryAggregationUrl :: "int \<Rightarrow> throw + (jsstr \<times> jsstr) list" where
  "buildPrimaryAggregationUrl referenceTimeMs =
     (case (time_clip (referenceTimeMs - 24 * 60 * 60 * 1000), time_clip (referenceTimeMs + 1)) of
        (Some a, Some b) \<Rightarrow>
          Inr [(js ''since'', toISOString a), (js ''until'', toISOString b), (js ''bucket'', js ''5m''), (js ''group_by'', js ''service'')]
      | _ \<Rightarrow> Inl (ErrorMessage (js ''Invalid time value'')))"

text \<open>The query string as the service receives it, each name once.\<close>

definition query_object :: "(jsstr \<times> jsstr) list \<Rightarrow> jsval" where
  "query_object kvs = plain (map (\<lambda>(k, v). (k, JStr v)) kvs)"

subsection \<open>Answers\<close>

definition is_probe_item :: "IngestionProbe \<Rightarrow> jsval \<Rightarrow> bool" where
  "is_probe_item p item \<longleftrightarrow>
     is_object_or_array item \<and>
     (let attributes = get_prop item (js ''attributes''); a = syn_attributes (probe_log p)
      in is_object_or_array attributes \<and>
         get_prop attributes (js ''loadgen_run_id'') = JStr (loadgen_run_id a) \<and>
         get_prop attributes (js ''loadgen_phase'') = JStr (phase_text (loadgen_phase a)) \<and>
         get_prop attributes (js ''loadgen_sequence'') = JStr (loadgen_sequence a))"

definition containsProbe :: "jsval \<Rightarrow> IngestionProbe \<Rightarrow> bool" where
  "containsProbe body p \<longleftrightarrow>
     is_object_or_array body \<and>
     (case get_prop body (js ''logs'') of JArr items \<Rightarrow> list_ex (is_probe_item p) items | _ \<Rightarrow> False)"

subsection \<open>Polling\<close>

datatype poll_answer = PollFails | PollStatus | PollNotJson | PollBody jsval

record freshness_poll =
  checkedMs :: rat
  signalAt :: bool
  answer_of :: poll_answer
  visibleMs :: rat
  afterMs :: rat
  sleep_ends :: bool

datatype freshness_outcome = Visible | DeadlineExceeded | ProbeNotAccepted | FreshnessAborted

record FreshnessResult =
  fresh_outcome :: freshness_outcome
  postDispatchToVisibilityMs :: "rat option"
  postAcknowledgementToVisibilityMs :: "rat option"
  pollCount :: int
  pollFailures :: int

fun answer_fails :: "poll_answer \<Rightarrow> bool" where
  "answer_fails (PollBody body) = False"
| "answer_fails _ = True"

fun answer_shows :: "IngestionProbe \<Rightarrow> poll_answer \<Rightarrow> bool" where
  "answer_shows p (PollBody body) = containsProbe body p"
| "answer_shows p _ = False"

definition not_visible :: "freshness_outcome \<Rightarrow> int \<Rightarrow> int \<Rightarrow> FreshnessResult" where
  "not_visible result polled failed =
     \<lparr>fresh_outcome = result, postDispatchToVisibilityMs = None, postAcknowledgementToVisibilityMs = None,
      pollCount = polled, pollFailures = failed\<rparr>"

definition probe_visible :: "IngestionProbe \<Rightarrow> rat \<Rightarrow> int \<Rightarrow> int \<Rightarrow> FreshnessResult" where
  "probe_visible p visibleAt polled failed =
     \<lparr>fresh_outcome = Visible, postDispatchToVisibilityMs = Some (sub_double visibleAt (postDispatchMonotonicMs p)),
      postAcknowledgementToVisibilityMs =
        Some (sub_double visibleAt (case postAcknowledgementMonotonicMs p of None \<Rightarrow> visibleAt | Some t \<Rightarrow> t)),
      pollCount = polled, pollFailures = failed\<rparr>"

text \<open>The loop; no value when it does not end.\<close>

partial_function (option) poll_loop ::
    "IngestionProbe \<Rightarrow> rat \<Rightarrow> (nat \<Rightarrow> freshness_poll) \<Rightarrow> nat \<Rightarrow> int \<Rightarrow> int \<Rightarrow> FreshnessResult option" where
  "poll_loop p expiresAt polls i polled failed =
     (if \<not> checkedMs (polls i) \<le> expiresAt then Some (not_visible DeadlineExceeded polled failed)
      else if signalAt (polls i) then Some (not_visible FreshnessAborted polled failed)
      else
        let polled' = polled + 1; failed' = failed + (if answer_fails (answer_of (polls i)) then 1 else 0)
        in if answer_shows p (answer_of (polls i)) then Some (probe_visible p (visibleMs (polls i)) polled' failed')
           else if sub_double expiresAt (afterMs (polls i)) \<le> 0 then Some (not_visible DeadlineExceeded polled' failed')
           else if \<not> sleep_ends (polls i) then Some (not_visible FreshnessAborted polled' failed')
           else poll_loop p expiresAt polls (i + 1) polled' failed')"

declare poll_loop.simps [code]

definition FRESHNESS_DEADLINE_MS :: rat where "FRESHNESS_DEADLINE_MS = 20000"

definition observeFreshness :: "IngestionProbe option \<Rightarrow> (nat \<Rightarrow> freshness_poll) \<Rightarrow> FreshnessResult option" where
  "observeFreshness candidate polls =
     (case candidate of
        None \<Rightarrow> Some (not_visible ProbeNotAccepted 0 0)
      | Some p \<Rightarrow>
          if \<not> probe_accepted p then Some (not_visible ProbeNotAccepted 0 0)
          else poll_loop p (add_double (postDispatchMonotonicMs p) FRESHNESS_DEADLINE_MS) polls 0 0 0)"

subsection \<open>The result says what the polls met\<close>

text \<open>The rounds that end the loop, the failures before a round, and the result of the round that ends it.\<close>

definition round_ends :: "IngestionProbe \<Rightarrow> rat \<Rightarrow> freshness_poll \<Rightarrow> bool" where
  "round_ends p expiresAt poll \<longleftrightarrow>
     expiresAt < checkedMs poll \<or> signalAt poll \<or> answer_shows p (answer_of poll) \<or>
     sub_double expiresAt (afterMs poll) \<le> 0 \<or> \<not> sleep_ends poll"

definition failed_before :: "(nat \<Rightarrow> freshness_poll) \<Rightarrow> nat \<Rightarrow> int" where
  "failed_before polls n = int (length (filter (\<lambda>j. answer_fails (answer_of (polls j))) [0..<n]))"

definition closing :: "IngestionProbe \<Rightarrow> rat \<Rightarrow> (nat \<Rightarrow> freshness_poll) \<Rightarrow> nat \<Rightarrow> FreshnessResult" where
  "closing p expiresAt polls n =
     (if expiresAt < checkedMs (polls n) then not_visible DeadlineExceeded (int n) (failed_before polls n)
      else if signalAt (polls n) then not_visible FreshnessAborted (int n) (failed_before polls n)
      else if answer_shows p (answer_of (polls n)) then probe_visible p (visibleMs (polls n)) (int n + 1) (failed_before polls (n + 1))
      else not_visible (if sub_double expiresAt (afterMs (polls n)) \<le> 0 then DeadlineExceeded else FreshnessAborted)
             (int n + 1) (failed_before polls (n + 1)))"

lemma failed_Suc: "failed_before polls (Suc n) = failed_before polls n + (if answer_fails (answer_of (polls n)) then 1 else 0)"
  by (simp add: failed_before_def)

lemma poll_loop_closing:
  assumes "round_ends p expiresAt (polls n)" "i \<le> n" "\<And>j. i \<le> j \<Longrightarrow> j < n \<Longrightarrow> \<not> round_ends p expiresAt (polls j)"
  shows "poll_loop p expiresAt polls i (int i) (failed_before polls i) = Some (closing p expiresAt polls n)"
  using assms(2,3)
proof (induction "n - i" arbitrary: i)
  case 0
  then have "i = n" by simp
  then show ?case using assms(1)
    by (subst poll_loop.simps) (auto simp: closing_def round_ends_def failed_Suc Let_def not_le)
next
  case (Suc d)
  then have "i < n" "d = n - Suc i" by simp_all
  from Suc.hyps(1) [OF this(2)] Suc.prems this(1)
  have "poll_loop p expiresAt polls (Suc i) (int (Suc i)) (failed_before polls (Suc i)) = Some (closing p expiresAt polls n)" by simp
  moreover have "\<not> round_ends p expiresAt (polls i)" using Suc.prems(2) [of i] \<open>i < n\<close> by simp
  ultimately show ?case
    by (subst poll_loop.simps) (simp add: round_ends_def failed_Suc Let_def add.commute)
qed

text \<open>
  The freshness result is what the polls met, and polling ends: when the probe was accepted and
  every round takes at least some fixed time, there is a first round that ends the loop, and the
  result is the one of this round: visible exactly when it came in time and its answer contains the
  probe, with the number of polls and of failed polls up to it; no earlier answer contained it.
\<close>

theorem freshness_is_what_polls_met:
  assumes accepted: "probe_accepted p" and delta: "0 < delta" and rounds: "\<And>i. checkedMs (polls i) + delta \<le> checkedMs (polls (i + 1))"
  defines "expiresAt \<equiv> add_double (postDispatchMonotonicMs p) FRESHNESS_DEADLINE_MS"
  shows "\<exists>n. observeFreshness (Some p) polls = Some (closing p expiresAt polls n) \<and> round_ends p expiresAt (polls n) \<and>
    {j. answer_shows p (answer_of (polls j))} \<inter> {j. j < n} = {} \<and> of_nat n * delta \<le> max 0 (expiresAt - checkedMs (polls 0)) + delta"
proof -
  have late: "checkedMs (polls 0) + of_nat k * delta \<le> checkedMs (polls k)" for k
  proof (induction k)
    case (Suc k)
    then show ?case using rounds [of k] by (simp add: ring_distribs)
  qed simp
  obtain k :: nat where "(expiresAt - checkedMs (polls 0)) / delta < of_nat k" using reals_Archimedean2 by blast
  then have "expiresAt < checkedMs (polls k)" using late [of k] delta by (simp add: divide_less_eq)
  then have ends: "round_ends p expiresAt (polls k)" by (simp add: round_ends_def)
  define n where "n = (LEAST k. round_ends p expiresAt (polls k))"
  have n: "round_ends p expiresAt (polls n)" unfolding n_def by (rule LeastI [of _ k]) (rule ends)
  have before: "\<not> round_ends p expiresAt (polls j)" if "j < n" for j using not_less_Least [of j] that by (simp add: n_def)
  have "observeFreshness (Some p) polls = Some (closing p expiresAt polls n)"
    using poll_loop_closing [of p expiresAt polls n 0, OF n] before accepted
    by (simp add: observeFreshness_def expiresAt_def [symmetric] failed_before_def)
  moreover have "{j. answer_shows p (answer_of (polls j))} \<inter> {j. j < n} = {}" using before by (auto simp: round_ends_def)
  moreover have "of_nat n * delta \<le> max 0 (expiresAt - checkedMs (polls 0)) + delta"
  proof (cases n)
    case (Suc m)
    then have "checkedMs (polls m) \<le> expiresAt" using before [of m] by (simp add: round_ends_def not_less)
    then have "of_nat m * delta \<le> expiresAt - checkedMs (polls 0)" using late [of m] by simp
    then show ?thesis by (simp add: Suc ring_distribs)
  qed (use delta in simp)
  ultimately show ?thesis using n by blast
qed

subsection \<open>The service parses the queries\<close>

definition probe_filters :: "IngestionProbe \<Rightarrow> LogFilters" where
  "probe_filters p =
     (let a = syn_attributes (probe_log p)
      in \<lparr>filter_service = None, filter_level = None, filter_since = None, filter_until = None,
          filter_attributes =
            [\<lparr>attr_key = js ''loadgen_phase'', attr_value = phase_text (loadgen_phase a)\<rparr>,
             \<lparr>attr_key = js ''loadgen_run_id'', attr_value = loadgen_run_id a\<rparr>,
             \<lparr>attr_key = js ''loadgen_sequence'', attr_value = loadgen_sequence a\<rparr>],
          filter_q = None\<rparr>)"

lemma attribute_names_sorted:
  "sort_with compare_units [js ''attr.loadgen_run_id'', js ''attr.loadgen_phase'', js ''attr.loadgen_sequence''] =
    [js ''attr.loadgen_phase'', js ''attr.loadgen_run_id'', js ''attr.loadgen_sequence'']"
  by code_simp

lemma freshness_query_parsed:
  assumes "\<not> contains_nul (loadgen_run_id (syn_attributes (probe_log p)))" "\<not> contains_nul (loadgen_sequence (syn_attributes (probe_log p)))"
  shows "parseLogListQuery (query_object (buildFreshnessUrl p)) =
    Inr \<lparr>query_filters = probe_filters p, query_limit = 1, query_cursor = None\<rparr>"
proof -
  let ?a = "syn_attributes (probe_log p)"
  let ?q = "query_object (buildFreshnessUrl p)"
  have q: "?q = plain [(js ''attr.loadgen_run_id'', JStr (loadgen_run_id ?a)), (js ''attr.loadgen_phase'', JStr (phase_text (loadgen_phase ?a))),
      (js ''attr.loadgen_sequence'', JStr (loadgen_sequence ?a)), (js ''limit'', JStr (js ''1''))]"
    by (simp add: query_object_def buildFreshnessUrl_def Let_def)
  have keys: "sort_with compare_units (filter (starts_with ATTRIBUTE_PREFIX) (object_keys ?q)) =
      [js ''attr.loadgen_phase'', js ''attr.loadgen_run_id'', js ''attr.loadgen_sequence'']"
  proof -
    have "filter (starts_with ATTRIBUTE_PREFIX) (object_keys ?q) = [js ''attr.loadgen_run_id'', js ''attr.loadgen_phase'', js ''attr.loadgen_sequence'']"
      by (simp add: q plain_def object_keys_def object_entries_def starts_with_def ATTRIBUTE_PREFIX_def) (simp add: js_def)
    then show ?thesis by (simp only: attribute_names_sorted)
  qed
  have "drop (length ATTRIBUTE_PREFIX) (js ''attr.loadgen_phase'') = js ''loadgen_phase''"
    "drop (length ATTRIBUTE_PREFIX) (js ''attr.loadgen_run_id'') = js ''loadgen_run_id''"
    "drop (length ATTRIBUTE_PREFIX) (js ''attr.loadgen_sequence'') = js ''loadgen_sequence''"
    by (simp_all add: ATTRIBUTE_PREFIX_def js_def)
  moreover have "\<not> contains_nul (js ''loadgen_phase'')" "\<not> contains_nul (js ''loadgen_run_id'')" "\<not> contains_nul (js ''loadgen_sequence'')"
    by (simp_all add: js_def cu_def)
  ultimately have "parseAttributeFilters ?q = Inr (filter_attributes (probe_filters p))"
    unfolding parseAttributeFilters_def keys
    using assms phase_text_no_nul by (simp add: q readScalar_plain probe_filters_def Let_def)
  moreover have "js ''1'' \<noteq> []" "all_digits (js ''1'')" "num (js ''1'') = 1" by code_simp+
  ultimately show ?thesis
    by (simp add: parseLogListQuery_def parseLogFilters_def q readScalar_plain parseOptionalTimestamp_def parseLimit_def option_any_def
        range_error_def probe_filters_def Let_def safe_int_def max_safe_integer_def MINIMUM_LIMIT_def MAXIMUM_LIMIT_def del: js_simps(3))
qed

lemma aggregation_query_parsed:
  assumes years: "four_digit_year (ref - 86400000)" "four_digit_year (ref + 1)"
  shows "\<exists>params q. buildPrimaryAggregationUrl ref = Inr params \<and> parseLogAggregationQuery (query_object params) = Inr q \<and>
    agg_bucket q = js ''5m'' \<and> agg_group_by q = Some (js ''service'') \<and> canUseRollup (agg_filters q) \<and>
    filter_since (agg_filters q) = Some (toISOString (ref - 86400000)) \<and> filter_until (agg_filters q) = Some (toISOString (ref + 1))"
proof -
  let ?params = "[(js ''since'', toISOString (ref - 86400000)), (js ''until'', toISOString (ref + 1)), (js ''bucket'', js ''5m''), (js ''group_by'', js ''service'')]"
  let ?q = "query_object ?params"
  have url: "buildPrimaryAggregationUrl ref = Inr ?params"
    using four_digit_year_bounds [OF years(1)] four_digit_year_bounds [OF years(2)] by (simp add: buildPrimaryAggregationUrl_def time_clip_def)
  obtain a where a: "parseCanonicalTimestamp (toISOString (ref - 86400000)) = Inr a" "canonical a = toISOString (ref - 86400000)"
    "instant a = of_int (ref - 86400000) / 1000"
    using iso_any [OF years(1)] by blast
  obtain b where b: "parseCanonicalTimestamp (toISOString (ref + 1)) = Inr b" "canonical b = toISOString (ref + 1)" "instant b = of_int (ref + 1) / 1000"
    using iso_any [OF years(2)] by blast
  have "(of_int (ref - 86400000) :: rat) \<le> of_int (ref + 1)" by (simp only: of_int_le_iff)
  then have "instant a \<le> instant b" by (simp add: a b divide_right_mono)
  with compare_sgn [OF parse_wf parse_wf, OF b(1) a(1)] have range: "\<not> compareParsedTimestamps b a < 0" by (auto simp: sgn_if split: if_splits)
  have q: "?q = plain [(js ''since'', JStr (toISOString (ref - 86400000))), (js ''until'', JStr (toISOString (ref + 1))),
      (js ''bucket'', JStr (js ''5m'')), (js ''group_by'', JStr (js ''service''))]"
    by (simp add: query_object_def)
  have "filter (starts_with ATTRIBUTE_PREFIX) (object_keys ?q) = []"
    by (simp add: q plain_def object_keys_def object_entries_def starts_with_def ATTRIBUTE_PREFIX_def) (simp add: js_def)
  then have attrs: "parseAttributeFilters ?q = Inr []" by (simp add: parseAttributeFilters_def)
  have scalars: "readAggregationScalar ?q (js ''bucket'') BucketDuplicate BucketValue = Inr (Some (js ''5m''))"
    "readAggregationScalar ?q (js ''group_by'') GroupByDuplicate GroupByValue = Inr (Some (js ''service''))"
    by (simp_all add: q readAggregationScalar_def plain_def own_descriptor_def)
  have known: "isAggregationBucket (js ''5m'')" "isAggregationGroupBy (js ''service'')"
    by (simp_all add: isAggregationBucket_def isAggregationGroupBy_def AGGREGATION_BUCKETS_def AGGREGATION_GROUPS_def)
  have "parseLogFilters ?q = Inr \<lparr>filter_service = None, filter_level = None, filter_since = Some (toISOString (ref - 86400000)),
      filter_until = Some (toISOString (ref + 1)), filter_attributes = [], filter_q = None\<rparr>"
    using attrs a b range by (simp add: parseLogFilters_def q readScalar_plain parseOptionalTimestamp_def option_any_def range_error_def)
  then have "parseLogAggregationQuery ?q = Inr \<lparr>agg_filters = \<lparr>filter_service = None, filter_level = None,
      filter_since = Some (toISOString (ref - 86400000)), filter_until = Some (toISOString (ref + 1)), filter_attributes = [], filter_q = None\<rparr>,
      agg_bucket = js ''5m'', agg_group_by = Some (js ''service'')\<rparr>"
    using scalars known by (simp add: parseLogAggregationQuery_def option_any_def)
  with url show ?thesis by (simp add: canUseRollup_def)
qed

text \<open>A row of the workload, listed by the service, is recognised.\<close>

definition listed_item :: "jsstr \<Rightarrow> SyntheticLog \<Rightarrow> ApiLogResponseItem" where
  "listed_item uuid row =
     \<lparr>item_id = uuid, item_timestamp = syn_timestamp row, item_level = syn_level row, item_service = syn_service row,
      item_message = syn_message row, item_attributes = attributes (synthetic_entry row)\<rparr>"

definition page_json :: "LogQueryResponse \<Rightarrow> jsval" where
  "page_json r =
     plain [(js ''logs'', JArr (map (\<lambda>item. plain
         [(js ''id'', JStr (item_id item)), (js ''timestamp'', JStr (item_timestamp item)), (js ''level'', JStr (item_level item)),
          (js ''service'', JStr (item_service item)), (js ''message'', JStr (item_message item)),
          (js ''attributes'', plain (map (\<lambda>(k, v). (k, attribute_jsval v)) (item_attributes item)))]) (response_logs r))),
       (js ''next_cursor'', case next_cursor r of None \<Rightarrow> JNull | Some c \<Rightarrow> JStr c)]"

lemma listed_row_found:
  "listed_item uuid (probe_log p) \<in> set (response_logs r) \<Longrightarrow> containsProbe (page_json r) p"
  by (auto simp: containsProbe_def page_json_def plain_def list_ex_iff is_probe_item_def listed_item_def synthetic_entry_def Let_def
      get_prop_def own_descriptor_def intro!: bexI [of _ "listed_item uuid (probe_log p)"])

text \<open>
  C30. The tool and the service speak the same language: the service parses the query of the
  freshness poll to the filters that ask for the probe's three attributes and one row, a page that
  lists the row makes the tool see the probe, and it parses the aggregation query to the last day
  in five-minute buckets by service, which the minute aggregates may answer.
\<close>

theorem tool_queries_are_understood:
  assumes marker: "\<not> contains_nul (loadgen_run_id (syn_attributes (probe_log p)))"
    "\<not> contains_nul (loadgen_sequence (syn_attributes (probe_log p)))"
    and years: "four_digit_year (ref - 86400000)" "four_digit_year (ref + 1)"
    and page: "listed_item uuid (probe_log p) \<in> set (response_logs r)"
  shows "parseLogListQuery (query_object (buildFreshnessUrl p)) =
      Inr \<lparr>query_filters = probe_filters p, query_limit = 1, query_cursor = None\<rparr> \<and>
    containsProbe (page_json r) p \<and>
    (\<exists>params q. buildPrimaryAggregationUrl ref = Inr params \<and> parseLogAggregationQuery (query_object params) = Inr q \<and>
      agg_bucket q = js ''5m'' \<and> agg_group_by q = Some (js ''service'') \<and> canUseRollup (agg_filters q) \<and>
      filter_since (agg_filters q) = Some (toISOString (ref - 86400000)) \<and> filter_until (agg_filters q) = Some (toISOString (ref + 1)))"
  using freshness_query_parsed [OF marker] listed_row_found [OF page] aggregation_query_parsed [OF years] by blast

subsection \<open>Examples\<close>

definition sample_probe :: IngestionProbe where
  "sample_probe =
     \<lparr>probe_log = projr (generateLog 7 1786622400000 (js ''r'') Measured 0), postDispatchMonotonicMs = 50,
      postAcknowledgementMonotonicMs = Some 60, probe_accepted = True\<rparr>"

definition sample_page :: LogQueryResponse where
  "sample_page = \<lparr>response_logs = [listed_item [] (probe_log sample_probe)], next_cursor = None\<rparr>"

definition sample_polls :: "nat \<Rightarrow> freshness_poll" where
  "sample_polls i =
     \<lparr>checkedMs = of_nat i * 250 + 100, signalAt = False, answer_of = (if i < 2 then PollFails else PollBody (page_json sample_page)),
      visibleMs = of_nat i * 250 + 110, afterMs = of_nat i * 250 + 120, sleep_ends = True\<rparr>"

theorem freshness_is_what_polls_met_witness:
  "\<exists>n. observeFreshness (Some sample_probe) sample_polls =
      Some (closing sample_probe (add_double (postDispatchMonotonicMs sample_probe) FRESHNESS_DEADLINE_MS) sample_polls n)"
proof -
  have "probe_accepted sample_probe" "(0 :: rat) < 250" "checkedMs (sample_polls i) + 250 \<le> checkedMs (sample_polls (i + 1))" for i
    by (simp_all add: sample_probe_def sample_polls_def ring_distribs)
  from freshness_is_what_polls_met [where polls = sample_polls, OF this] show ?thesis by blast
qed

theorem tool_queries_are_understood_witness:
  "parseLogListQuery (query_object (buildFreshnessUrl sample_probe)) =
      Inr \<lparr>query_filters = probe_filters sample_probe, query_limit = 1, query_cursor = None\<rparr> \<and> containsProbe (page_json sample_page) sample_probe"
proof -
  have "generateLog 7 1786622400000 (js ''r'') Measured 0 = Inr (row_at 7 1786622400000 (js ''r'') Measured 0)"
    using generateLog_row [OF sample_workload, of 0 7 "js ''r''" Measured] by simp
  then have row: "probe_log sample_probe = row_at 7 1786622400000 (js ''r'') Measured 0" by (simp add: sample_probe_def)
  have "workload_row 1786622400000 (js ''r'') Measured 0 (probe_log sample_probe)"
    using generated_row [OF generateLog_row [OF sample_workload, of 0 7 "js ''r''" Measured]] by (simp add: row)
  then have names: "\<not> contains_nul (loadgen_run_id (syn_attributes (probe_log sample_probe)))"
    "\<not> contains_nul (loadgen_sequence (syn_attributes (probe_log sample_probe)))"
    using sequence_no_nul by (auto simp: workload_row_def js_def cu_def)
  have years: "four_digit_year (1786622400000 - 86400000)" "four_digit_year (1786622400000 + 1)" by code_simp+
  have page: "listed_item [] (probe_log sample_probe) \<in> set (response_logs sample_page)" by (simp add: sample_page_def)
  from tool_queries_are_understood [OF names years page] show ?thesis by blast
qed

end
