(* ===== verification/LoadCommands.thy ===== *)
theory LoadCommands
  imports LoadConfig
begin

section \<open>Running a command (\<open>tools/loadgen/commands.ts\<close>)\<close>

text \<open>
  A command is a child process with a time limit and a limit on its output. The state is the
  closure's variables, the timers that are armed, the signals that were sent and every call that
  settles the promise; output, an error of the start, the end of the process and the timers come in
  any order. The lemmas show that the promise is settled once, that what it gives is within the
  limit and complete, and that the timers alone settle it when the process never ends.
\<close>

record CommandInvocation =
  inv_command :: jsstr
  inv_args :: "jsstr list"
  inv_timeoutMs :: int
  inv_stdin :: "jsstr option"

record CommandResult =
  exitCode :: int
  stdout_text :: jsstr
  stderr_text :: jsstr

definition MAX_CAPTURED_OUTPUT_BYTES :: nat where "MAX_CAPTURED_OUTPUT_BYTES = 2097152"

subsection \<open>Reading the output\<close>

text \<open>
  \<open>Buffer.toString("utf8")\<close>: the decoder of the encoding standard, with the replacement character
  where a sequence is malformed. The arguments are the value so far, the bytes still needed and the
  range of the next one.
\<close>

function lenient_utf8 :: "byte list \<Rightarrow> nat \<Rightarrow> nat \<Rightarrow> nat \<Rightarrow> nat \<Rightarrow> jsstr" where
  "lenient_utf8 [] v needed lo hi = (if needed = 0 then [] else [0xFFFD])"
| "lenient_utf8 (b # bs) v 0 lo hi =
     (let n = unat b
      in if n < 0x80 then of_nat n # lenient_utf8 bs 0 0 0x80 0xBF
         else if 0xC2 \<le> n \<and> n \<le> 0xDF then lenient_utf8 bs (n - 0xC0) 1 0x80 0xBF
         else if 0xE0 \<le> n \<and> n \<le> 0xEF then
           lenient_utf8 bs (n - 0xE0) 2 (if n = 0xE0 then 0xA0 else 0x80) (if n = 0xED then 0x9F else 0xBF)
         else if 0xF0 \<le> n \<and> n \<le> 0xF4 then
           lenient_utf8 bs (n - 0xF0) 3 (if n = 0xF0 then 0x90 else 0x80) (if n = 0xF4 then 0x8F else 0xBF)
         else 0xFFFD # lenient_utf8 bs 0 0 0x80 0xBF)"
| "lenient_utf8 (b # bs) v (Suc needed) lo hi =
     (let n = unat b
      in if n < lo \<or> hi < n then 0xFFFD # lenient_utf8 (b # bs) 0 0 0x80 0xBF
         else
           let v' = v * 64 + n mod 64
           in if needed = 0 then scalar_units v' @ lenient_utf8 bs 0 0 0x80 0xBF else lenient_utf8 bs v' needed 0x80 0xBF)"
  by pat_completeness auto
termination
  by (relation "measures [\<lambda>(bs, v, needed, lo, hi). length bs, \<lambda>(bs, v, needed, lo, hi). needed]") auto

definition buffer_text :: "byte list \<Rightarrow> jsstr" where
  "buffer_text bs = lenient_utf8 bs 0 0 0x80 0xBF"

subsection \<open>The process\<close>

datatype kill_signal = KillDefault | KillHard

record child_state =
  child_running :: bool
  out_chunks :: "byte list list"
  err_chunks :: "byte list list"
  capturedBytes :: nat
  timedOut :: bool
  outputExceeded :: bool
  child_settled :: bool
  timeout_armed :: bool
  hardStop_armed :: bool
  outputHardStop_armed :: bool
  kills :: "kill_signal list"
  settlements :: "(tool_error + CommandResult) list"

definition invalid_invocation :: "CommandInvocation \<Rightarrow> bool" where
  "invalid_invocation i \<longleftrightarrow> inv_command i = [] \<or> contains_nul (inv_command i) \<or> list_ex contains_nul (inv_args i)"

text \<open>The state after the call: rejected at once, or with a process and its timeout.\<close>

definition run_child :: "CommandInvocation \<Rightarrow> child_state" where
  "run_child i =
     \<lparr>child_running = (\<not> invalid_invocation i), out_chunks = [], err_chunks = [], capturedBytes = 0, timedOut = False, outputExceeded = False,
      child_settled = invalid_invocation i, timeout_armed = (\<not> invalid_invocation i), hardStop_armed = False,
      outputHardStop_armed = False, kills = [],
      settlements =
        (if invalid_invocation i then [Inl (SafeCommandError (js ''Command invocation contains an invalid argument.''))] else [])\<rparr>"

definition finishWithError :: "tool_error \<Rightarrow> child_state \<Rightarrow> child_state" where
  "finishWithError e s =
     (if child_settled s then s
      else s\<lparr>child_settled := True, timeout_armed := False, hardStop_armed := False, outputHardStop_armed := False,
             settlements := settlements s @ [Inl e]\<rparr>)"

definition EXCESSIVE_OUTPUT :: tool_error where
  "EXCESSIVE_OUTPUT = SafeCommandError (js ''A required local command produced excessive output.'')"

definition TIME_LIMIT :: tool_error where
  "TIME_LIMIT = SafeCommandError (js ''A required local command exceeded its time limit.'')"

text \<open>A chunk of one of the two streams.\<close>

definition capture :: "bool \<Rightarrow> byte list \<Rightarrow> child_state \<Rightarrow> child_state" where
  "capture is_stdout chunk s =
     (if outputExceeded s then s
      else
        let captured = capturedBytes s + length chunk; s' = s\<lparr>capturedBytes := captured\<rparr>
        in if MAX_CAPTURED_OUTPUT_BYTES < captured
           then s'\<lparr>outputExceeded := True, kills := kills s @ [KillDefault], outputHardStop_armed := True\<rparr>
           else if is_stdout then s'\<lparr>out_chunks := out_chunks s @ [chunk]\<rparr> else s'\<lparr>err_chunks := err_chunks s @ [chunk]\<rparr>)"

definition output_hard_stop :: "child_state \<Rightarrow> child_state" where
  "output_hard_stop s = finishWithError EXCESSIVE_OUTPUT (s\<lparr>outputHardStop_armed := False, kills := kills s @ [KillHard]\<rparr>)"

definition start_fails :: "child_state \<Rightarrow> child_state" where
  "start_fails s = finishWithError (SafeCommandError (js ''A required local command failed to start.'')) s"

definition time_is_over :: "child_state \<Rightarrow> child_state" where
  "time_is_over s =
     (let s' = s\<lparr>timeout_armed := False\<rparr>
      in if outputExceeded s' then s'
         else s'\<lparr>timedOut := True, kills := kills s' @ [KillDefault], hardStop_armed := True\<rparr>)"

definition hard_stop :: "child_state \<Rightarrow> child_state" where
  "hard_stop s = finishWithError TIME_LIMIT (s\<lparr>hardStop_armed := False, kills := kills s @ [KillHard]\<rparr>)"

text \<open>The process ended and its streams closed; no code when a signal ended it.\<close>

definition child_closes :: "int option \<Rightarrow> child_state \<Rightarrow> child_state" where
  "child_closes code s =
     (let s' = s\<lparr>child_running := False, timeout_armed := False\<rparr>
      in if child_settled s' then s'
         else
           let s' = s'\<lparr>child_settled := True, hardStop_armed := False, outputHardStop_armed := False\<rparr>;
               outcome =
                 (if timedOut s' then Inl TIME_LIMIT
                  else if outputExceeded s' then Inl EXCESSIVE_OUTPUT
                  else Inr \<lparr>exitCode = (case code of None \<Rightarrow> 1 | Some c \<Rightarrow> c),
                            stdout_text = buffer_text (concat (out_chunks s')), stderr_text = buffer_text (concat (err_chunks s'))\<rparr>)
           in s'\<lparr>settlements := settlements s' @ [outcome]\<rparr>)"

subsection \<open>Steps\<close>

inductive child_step :: "child_state \<Rightarrow> child_state \<Rightarrow> bool" where
  Data: "child_running s \<Longrightarrow> child_step s (capture is_stdout chunk s)"
| StartFails: "child_running s \<Longrightarrow> child_step s (start_fails s)"
| TimeOver: "timeout_armed s \<Longrightarrow> child_step s (time_is_over s)"
| HardStop: "hardStop_armed s \<Longrightarrow> child_step s (hard_stop s)"
| OutputHardStop: "outputHardStop_armed s \<Longrightarrow> child_step s (output_hard_stop s)"
| Closes: "child_running s \<Longrightarrow> child_step s (child_closes code s)"

inductive_cases child_stepE: "child_step s t"

text \<open>The timers alone.\<close>

inductive child_timer :: "child_state \<Rightarrow> child_state \<Rightarrow> bool" where
  "timeout_armed s \<Longrightarrow> child_timer s (time_is_over s)"
| "hardStop_armed s \<Longrightarrow> child_timer s (hard_stop s)"
| "outputHardStop_armed s \<Longrightarrow> child_timer s (output_hard_stop s)"

inductive_cases child_timerE: "child_timer s t"

subsection \<open>Every command settles once\<close>

definition chunk_bytes :: "child_state \<Rightarrow> nat" where
  "chunk_bytes s = length (concat (out_chunks s)) + length (concat (err_chunks s))"

definition complete_result :: "child_state \<Rightarrow> CommandResult \<Rightarrow> bool" where
  "complete_result s r \<longleftrightarrow>
     \<not> child_running s \<and> \<not> timedOut s \<and> \<not> outputExceeded s \<and>
     stdout_text r = buffer_text (concat (out_chunks s)) \<and> stderr_text r = buffer_text (concat (err_chunks s))"

definition child_inv :: "child_state \<Rightarrow> bool" where
  "child_inv s \<longleftrightarrow>
     length (settlements s) = (if child_settled s then 1 else 0) \<and>
     chunk_bytes s \<le> MAX_CAPTURED_OUTPUT_BYTES \<and> (outputExceeded s \<or> capturedBytes s = chunk_bytes s) \<and>
     (child_settled s \<or> timeout_armed s \<or> hardStop_armed s \<or> outputHardStop_armed s) \<and>
     (child_settled s \<or> \<not> outputExceeded s \<or> outputHardStop_armed s) \<and>
     (\<not> child_settled s \<or> \<not> timeout_armed s \<and> \<not> hardStop_armed s) \<and>
     (child_running s \<or> child_settled s) \<and>
     list_all (\<lambda>r. case r of Inl e \<Rightarrow> True | Inr c \<Rightarrow> complete_result s c) (settlements s)"

lemma run_child_inv: "child_inv (run_child i)"
  by (simp add: child_inv_def run_child_def chunk_bytes_def)

lemma capture_inv: "child_inv s \<Longrightarrow> child_running s \<Longrightarrow> child_inv (capture b chunk s)"
  by (auto simp: child_inv_def capture_def chunk_bytes_def complete_result_def Let_def list_all_iff split: sum.splits)

lemma child_step_inv: "child_inv s \<Longrightarrow> child_step s t \<Longrightarrow> child_inv t"
proof (erule child_stepE, goal_cases)
  case 1
  then show ?case using capture_inv by blast
next
  case 2
  then show ?case
    by (auto simp: child_inv_def start_fails_def finishWithError_def chunk_bytes_def complete_result_def)
next
  case 3
  then show ?case
    by (auto simp: child_inv_def time_is_over_def Let_def chunk_bytes_def complete_result_def)
next
  case 4
  then show ?case
    by (auto simp: child_inv_def hard_stop_def finishWithError_def chunk_bytes_def complete_result_def)
next
  case 5
  then show ?case
    by (auto simp: child_inv_def output_hard_stop_def finishWithError_def chunk_bytes_def complete_result_def list_all_iff split: sum.splits)
next
  case 6
  then show ?case
    by (auto simp: child_inv_def child_closes_def Let_def chunk_bytes_def complete_result_def list_all_iff split: sum.splits)
qed

definition child_work :: "child_state \<Rightarrow> nat" where
  "child_work s = (if timeout_armed s then 2 else 0) + (if hardStop_armed s then 1 else 0) + (if outputHardStop_armed s then 1 else 0)"

interpretation child: draining_machine "\<lambda>s. \<exists>i. s = run_child i" child_step child_inv child_timer "\<lambda>s. True" child_settled child_work
proof
  show "\<exists>i. s = run_child i \<Longrightarrow> child_inv s" for s using run_child_inv by blast
  show "child_inv s \<Longrightarrow> child_step s t \<Longrightarrow> child_inv t" for s t by (rule child_step_inv)
  show "child_timer s t \<Longrightarrow> child_step s t" for s t by (erule child_timerE) (auto intro: child_step.intros)
  show "child_inv s \<Longrightarrow> True \<Longrightarrow> \<not> child_settled s \<Longrightarrow> \<exists>t. child_timer s t" for s
    by (auto simp: child_inv_def intro: child_timer.intros)
  show "child_inv s \<Longrightarrow> True \<Longrightarrow> child_timer s t \<Longrightarrow> child_work t < child_work s" for s t
    by (erule child_timerE)
      (auto simp: child_inv_def child_work_def time_is_over_def hard_stop_def output_hard_stop_def finishWithError_def Let_def)
qed auto

lemma child_work_bound: "child_work s \<le> 4"
  by (simp add: child_work_def)

text \<open>
  C32. A command settles once and in time: whatever the process writes, however it ends and whenever
  the timers fire, the promise is settled at most once; at most two mebibytes are kept, and a result
  holds all that was written by a process that ended within both limits; and from any moment on at
  most four timers fire before the promise is settled, even if the process never ends.
\<close>

theorem command_settles_once:
  assumes reach: "child_step\<^sup>*\<^sup>* (run_child i) s" and timers: "(child_timer ^^ n) s t"
  shows "length (settlements s) \<le> 1 \<and> chunk_bytes s \<le> MAX_CAPTURED_OUTPUT_BYTES \<and>
    {c. Inr c \<in> set (settlements s)} \<subseteq> {c. complete_result s c} \<and>
    n \<le> 4 \<and> ((\<exists>u. child_timer t u) \<or> length (settlements t) = 1)"
proof -
  have inv: "child_inv s" using child.reachable_inv [OF _ reach] by blast
  from child.run_bound [OF timers inv TrueI] have "n \<le> child_work s" and t: "child_inv t" by simp_all
  then have "n \<le> 4" using child_work_bound [of s] by linarith
  moreover have "(\<exists>u. child_timer t u) \<or> length (settlements t) = 1"
    using child.stuck_rests [OF timers inv TrueI] t by (auto simp: child_inv_def)
  moreover have "length (settlements s) \<le> 1 \<and> chunk_bytes s \<le> MAX_CAPTURED_OUTPUT_BYTES \<and>
    {c. Inr c \<in> set (settlements s)} \<subseteq> {c. complete_result s c}"
    using inv by (auto simp: child_inv_def list_all_iff)
  ultimately show ?thesis by blast
qed

definition sample_invocation :: CommandInvocation where
  "sample_invocation = \<lparr>inv_command = js ''docker'', inv_args = [js ''ps''], inv_timeoutMs = 10000, inv_stdin = None\<rparr>"

definition sample_output :: child_state where
  "sample_output = capture True [104, 105, 10] (run_child sample_invocation)"

lemma sample_command_valid: "\<not> invalid_invocation sample_invocation"
  by code_simp

lemma sample_command_facts:
  "child_running (run_child sample_invocation)" "timeout_armed sample_output"
  "hardStop_armed (time_is_over sample_output)"
  "settlements (hard_stop (time_is_over sample_output)) = [Inl TIME_LIMIT]" "chunk_bytes sample_output = 3"
  by (simp_all add: sample_output_def run_child_def sample_command_valid capture_def Let_def
      MAX_CAPTURED_OUTPUT_BYTES_def time_is_over_def hard_stop_def finishWithError_def chunk_bytes_def)

theorem command_settles_once_witness:
  "child_step\<^sup>*\<^sup>* (run_child sample_invocation) sample_output \<and>
     (child_timer ^^ 2) sample_output (hard_stop (time_is_over sample_output)) \<and>
     settlements (hard_stop (time_is_over sample_output)) = [Inl TIME_LIMIT] \<and>
     chunk_bytes sample_output = 3 \<and> length (settlements sample_output) \<le> 1"
proof -
  have "child_step (run_child sample_invocation) sample_output"
    unfolding sample_output_def by (rule child_step.Data [OF sample_command_facts(1)])
  then have reach: "child_step\<^sup>*\<^sup>* (run_child sample_invocation) sample_output" by (rule r_into_rtranclp)
  have "child_timer sample_output (time_is_over sample_output)"
    "child_timer (time_is_over sample_output) (hard_stop (time_is_over sample_output))"
    by (rule child_timer.intros(1) [OF sample_command_facts(2)], rule child_timer.intros(2) [OF sample_command_facts(3)])
  then have timers: "(child_timer ^^ 2) sample_output (hard_stop (time_is_over sample_output))"
    by (simp only: numeral_2_eq_2 relpowp.simps eq_OO relcomppI)
  show ?thesis
    using command_settles_once [OF reach timers] reach timers sample_command_facts(4,5) by (intro conjI) simp_all
qed

end
