(* ===== verification/LoadDocker.thy ===== *)
theory LoadDocker
  imports LoadCommands
begin

section \<open>Containers and the count of the stored rows (\<open>tools/loadgen/docker.ts\<close>, \<open>reconciliation.ts\<close>)\<close>

text \<open>
  The tool starts its own containers, checks their limits, counts the rows of its run in their
  database and removes them at the end. Each operation runs commands; what a command gives is an
  argument that may depend on every command before it, and the commands that were run are recorded.
  The lemmas show that a count is what the database printed, and that a cleanup passes exactly when
  the removal succeeded and the listings of this project's containers, networks and volumes are
  empty, and touches no other project.
\<close>

subsection \<open>Running commands\<close>

type_synonym command_log = "(CommandInvocation \<times> (tool_error + CommandResult)) list"

type_synonym command_runner = "command_log \<Rightarrow> CommandInvocation \<Rightarrow> tool_error + CommandResult"

type_synonym 'a tool = "command_log \<Rightarrow> (tool_error + 'a) \<times> command_log"

definition give :: "tool_error + 'a \<Rightarrow> 'a tool" where
  "give r = (\<lambda>past. (r, past))"

definition then_do :: "'a tool \<Rightarrow> ('a \<Rightarrow> 'b tool) \<Rightarrow> 'b tool" where
  "then_do m f = (\<lambda>past. case m past of (Inl e, past') \<Rightarrow> (Inl e, past') | (Inr a, past') \<Rightarrow> f a past')"

definition run_command :: "command_runner \<Rightarrow> CommandInvocation \<Rightarrow> CommandResult tool" where
  "run_command runner i = (\<lambda>past. (runner past i, past @ [(i, runner past i)]))"

text \<open>\<open>requireSuccessfulCommand\<close> of \<open>commands.ts\<close>.\<close>

definition requireSuccessfulCommand :: "command_runner \<Rightarrow> CommandInvocation \<Rightarrow> jsstr \<Rightarrow> CommandResult tool" where
  "requireSuccessfulCommand runner i failure =
     then_do (run_command runner i) (\<lambda>r. give (if exitCode r \<noteq> 0 then Inl (SafeCommandError failure) else Inr r))"

subsection \<open>The project of the run\<close>

definition docker_command :: "jsstr list \<Rightarrow> int \<Rightarrow> CommandInvocation" where
  "docker_command arguments ms = \<lparr>inv_command = js ''docker'', inv_args = arguments, inv_timeoutMs = ms, inv_stdin = None\<rparr>"

definition composeInvocation :: "jsstr \<Rightarrow> jsstr list \<Rightarrow> int \<Rightarrow> tool_error + CommandInvocation" where
  "composeInvocation project arguments ms =
     or_error (assertValidComposeProjectName project) (\<lambda>_.
       Inr (docker_command ([js ''compose'', js ''-p'', project] @ arguments) ms))"

definition startCompose :: "command_runner \<Rightarrow> jsstr \<Rightarrow> unit tool" where
  "startCompose runner project =
     then_do (give (composeInvocation project [js ''up'', js ''--build'', js ''--detach''] 180000)) (\<lambda>i.
     then_do (requireSuccessfulCommand runner i (js ''The isolated Compose stack failed to start.'')) (\<lambda>_. give (Inr ())))"

text \<open>\<open>split(/\r?\n/)\<close>, and the lines that are not empty.\<close>

fun split_lines :: "jsstr \<Rightarrow> jsstr \<Rightarrow> jsstr list" where
  "split_lines line [] = [rev line]"
| "split_lines line (c # s) =
     (if c = 10 then rev line # split_lines [] s
      else if c = 13 \<and> starts_with [10] s then rev line # split_lines [] (drop 1 s)
      else split_lines (c # line) s)"

definition output_lines :: "jsstr \<Rightarrow> jsstr list" where
  "output_lines s = filter (\<lambda>l. l \<noteq> []) (split_lines [] s)"

definition container_id_pattern :: "jsstr \<Rightarrow> bool" where
  "container_id_pattern s \<longleftrightarrow> 12 \<le> length s \<and> length s \<le> 64 \<and> list_all is_hex s"

definition oneContainerId :: "command_runner \<Rightarrow> jsstr \<Rightarrow> jsstr \<Rightarrow> jsstr tool" where
  "oneContainerId runner project serviceName =
     then_do (give (composeInvocation project [js ''ps'', js ''--quiet'', serviceName] 10000)) (\<lambda>i.
     then_do (requireSuccessfulCommand runner i (js ''Unable to identify an isolated Compose service container.'')) (\<lambda>r.
       give (case output_lines (stdout_text r) of
               [identifier] \<Rightarrow>
                 if container_id_pattern identifier then Inr identifier
                 else Inl (SafeCommandError (js ''Compose service container identity was not unique.''))
             | _ \<Rightarrow> Inl (SafeCommandError (js ''Compose service container identity was not unique.'')))))"

record ComposeContainers =
  app_container :: jsstr
  postgres_container :: jsstr

definition identifyComposeContainers :: "command_runner \<Rightarrow> jsstr \<Rightarrow> ComposeContainers tool" where
  "identifyComposeContainers runner project =
     then_do (oneContainerId runner project (js ''app'')) (\<lambda>a.
     then_do (oneContainerId runner project (js ''postgres'')) (\<lambda>p.
       give (Inr \<lparr>app_container = a, postgres_container = p\<rparr>)))"

subsection \<open>Health\<close>

text \<open>A round of the loop: the time, the signal, whether the answer was \<open>ok\<close>, and the sleep after it.\<close>

record health_round =
  round_now :: int
  round_aborted :: bool
  round_ok :: bool
  round_sleep :: "tool_error + unit"

partial_function (option) waitForHealth :: "int \<Rightarrow> (nat \<Rightarrow> health_round) \<Rightarrow> nat \<Rightarrow> (tool_error + unit) option" where
  "waitForHealth deadline rounds i =
     (if \<not> round_now (rounds i) < deadline \<or> round_aborted (rounds i)
      then Some (Inl (SafeCommandError (js ''The isolated Compose application did not become healthy in time.'')))
      else if round_ok (rounds i) then Some (Inr ())
      else case round_sleep (rounds i) of
          Inl e \<Rightarrow> Some (Inl e)
        | Inr _ \<Rightarrow> waitForHealth deadline rounds (i + 1))"

declare waitForHealth.simps [code]

subsection \<open>Limits of the containers\<close>

record ContainerControls =
  nanoCpus :: int
  memoryBytes :: int

definition APP_CONTROLS :: ContainerControls where
  "APP_CONTROLS = \<lparr>nanoCpus = 500000000, memoryBytes = 268435456\<rparr>"

definition POSTGRES_CONTROLS :: ContainerControls where
  "POSTGRES_CONTROLS = \<lparr>nanoCpus = 1000000000, memoryBytes = 1073741824\<rparr>"

definition parseContainerControls :: "jsstr \<Rightarrow> tool_error + ContainerControls" where
  "parseContainerControls json =
     (case json_parse json of
        None \<Rightarrow> Inl (SafeCommandError (js ''Docker returned invalid resource-control inspection data.''))
      | Some parsed \<Rightarrow>
          if \<not> is_object_or_array parsed
          then Inl (SafeCommandError (js ''Docker resource-control inspection data has an invalid shape.''))
          else case (safe_integer_value (get_prop parsed (js ''NanoCpus'')), safe_integer_value (get_prop parsed (js ''Memory''))) of
              (Some n, Some m) \<Rightarrow> Inr \<lparr>nanoCpus = n, memoryBytes = m\<rparr>
            | _ \<Rightarrow> Inl (SafeCommandError (js ''Docker resource controls are missing or invalid.'')))"

definition inspectOneControl :: "command_runner \<Rightarrow> jsstr \<Rightarrow> ContainerControls tool" where
  "inspectOneControl runner containerId =
     then_do (requireSuccessfulCommand runner
         (docker_command [js ''inspect'', js ''--format'', js ''{{json .HostConfig}}'', containerId] 10000)
         (js ''Docker resource controls could not be inspected.'')) (\<lambda>r.
       give (parseContainerControls (trim_text (stdout_text r))))"

definition inspectAndVerifyControls :: "command_runner \<Rightarrow> ComposeContainers \<Rightarrow> (ContainerControls \<times> ContainerControls) tool" where
  "inspectAndVerifyControls runner containers =
     then_do (inspectOneControl runner (app_container containers)) (\<lambda>a.
     then_do (inspectOneControl runner (postgres_container containers)) (\<lambda>p.
       give (if a \<noteq> APP_CONTROLS \<or> p \<noteq> POSTGRES_CONTROLS
             then Inl (SafeCommandError (js ''Effective Docker resource controls do not match the required limits.''))
             else Inr (a, p))))"

subsection \<open>Counting the rows\<close>

definition COUNT_SQL :: jsstr where
  "COUNT_SQL = sql_text
     [''SELECT count(*)'', ''FROM logstream.logs'',
      ''WHERE attributes_search @> jsonb_build_object('' @ [CHR 0x27] @ ''loadgen_run_id'' @ [CHR 0x27] @ '', :'' @
        [CHR 0x27] @ ''run_id'' @ [CHR 0x27] @ '');'']"

definition parseCount :: "jsstr \<Rightarrow> tool_error + int" where
  "parseCount output =
     (let v = trim_text output
      in if \<not> unsigned_pattern v then Inl (SafeCommandError (js ''PostgreSQL reconciliation returned an invalid count.''))
         else if \<not> safe_int (num v) then Inl (SafeCommandError (js ''PostgreSQL reconciliation count exceeds the safe range.''))
         else Inr (num v))"

definition buildReconciliationInvocation :: "jsstr \<Rightarrow> jsstr \<Rightarrow> tool_error + CommandInvocation" where
  "buildReconciliationInvocation project run_id =
     or_error (assertValidComposeProjectName project) (\<lambda>_.
       if \<not> run_id_pattern run_id then Inl (SafeCommandError (js ''Run marker failed reconciliation validation.''))
       else Inr \<lparr>inv_command = js ''docker'',
         inv_args =
           [js ''compose'', js ''-p'', project, js ''exec'', js ''--no-TTY'', js ''postgres'', js ''psql'',
            js ''--username'', js ''postgres'', js ''--dbname'', js ''logstream'', js ''--no-psqlrc'',
            js ''--tuples-only'', js ''--no-align'', js ''--set'', js ''ON_ERROR_STOP=1'', js ''--set'', js ''run_id='' @ run_id],
         inv_timeoutMs = 30000, inv_stdin = Some COUNT_SQL\<rparr>)"

definition countRunRows :: "command_runner \<Rightarrow> jsstr \<Rightarrow> jsstr \<Rightarrow> int tool" where
  "countRunRows runner project run_id =
     then_do (give (buildReconciliationInvocation project run_id)) (\<lambda>i.
     then_do (requireSuccessfulCommand runner i (js ''PostgreSQL row reconciliation failed.'')) (\<lambda>r.
       give (parseCount (stdout_text r))))"

record RowReconciliation =
  preExistingRows :: int
  expectedRows :: int
  observedRows :: int
  delta :: int
  reconciled :: bool

definition reconcileRows :: "int \<Rightarrow> int \<Rightarrow> int \<Rightarrow> tool_error + RowReconciliation" where
  "reconcileRows before confirmedRows observed =
     (if \<not> list_all (\<lambda>v. safe_int v \<and> 0 \<le> v) [before, confirmedRows, observed]
      then Inl (SafeCommandError (js ''Row reconciliation inputs are invalid.''))
      else Inr \<lparr>preExistingRows = before, expectedRows = confirmedRows, observedRows = observed, delta = observed - confirmedRows,
                reconciled = (before = 0 \<and> observed - confirmedRows = 0)\<rparr>)"

subsection \<open>Cleanup\<close>

datatype project_object = ContainerObject | NetworkObject | VolumeObject

fun object_arguments :: "project_object \<Rightarrow> jsstr list" where
  "object_arguments ContainerObject = [js ''ps'', js ''--all'', js ''--quiet'']"
| "object_arguments NetworkObject = [js ''network'', js ''ls'', js ''--quiet'']"
| "object_arguments VolumeObject = [js ''volume'', js ''ls'', js ''--quiet'']"

definition list_command :: "jsstr \<Rightarrow> project_object \<Rightarrow> CommandInvocation" where
  "list_command project kind =
     docker_command (object_arguments kind @ [js ''--filter'', js ''label=com.docker.compose.project='' @ project]) 10000"

definition listProjectResources :: "command_runner \<Rightarrow> jsstr \<Rightarrow> project_object \<Rightarrow> jsstr list tool" where
  "listProjectResources runner project kind =
     then_do (requireSuccessfulCommand runner (list_command project kind) (js ''Docker cleanup verification failed.'')) (\<lambda>r.
       give (Inr (output_lines (stdout_text r))))"

record CleanupVerification =
  composeDownSucceeded :: bool
  remainingContainers :: "jsstr list"
  remainingNetworks :: "jsstr list"
  remainingVolumes :: "jsstr list"
  cleanup_passed :: bool
  cleanup_error :: "jsstr option"

definition DOWN_ARGUMENTS :: "jsstr list" where
  "DOWN_ARGUMENTS = [js ''down'', js ''--volumes'', js ''--remove-orphans'', js ''--timeout'', js ''15'']"

text \<open>
  The listings one after the other: the ones before the first failure, and whether there was one.
\<close>

fun remaining_resources :: "command_runner \<Rightarrow> jsstr \<Rightarrow> project_object list \<Rightarrow> command_log \<Rightarrow> (jsstr list list \<times> bool) \<times> command_log" where
  "remaining_resources runner project [] past = (([], False), past)"
| "remaining_resources runner project (kind # kinds) past =
     (case listProjectResources runner project kind past of
        (Inl e, past') \<Rightarrow> (([], True), past')
      | (Inr found, past') \<Rightarrow>
          (let ((rest, failed), past'') = remaining_resources runner project kinds past' in ((found # rest, failed), past'')))"

definition nth_listing :: "jsstr list list \<Rightarrow> nat \<Rightarrow> jsstr list" where
  "nth_listing listings i = (if i < length listings then listings ! i else [])"

definition cleanupCompose :: "command_runner \<Rightarrow> jsstr \<Rightarrow> command_log \<Rightarrow> CleanupVerification \<times> command_log" where
  "cleanupCompose runner project past =
     (let (down, past') = then_do (give (composeInvocation project DOWN_ARGUMENTS 60000)) (run_command runner) past;
          succeeded = (case down of Inl e \<Rightarrow> False | Inr r \<Rightarrow> exitCode r = 0);
          down_error = (case down of Inl e \<Rightarrow> Some (js ''Isolated Compose cleanup did not complete.'')
            | Inr r \<Rightarrow> if exitCode r = 0 then None else Some (js ''Isolated Compose cleanup returned a failure status.''));
          ((listings, failed), past'') = remaining_resources runner project [ContainerObject, NetworkObject, VolumeObject] past';
          problem = (if failed \<and> down_error = None then Some (js ''Exact-project cleanup verification failed.'') else down_error)
      in (\<lparr>composeDownSucceeded = succeeded, remainingContainers = nth_listing listings 0, remainingNetworks = nth_listing listings 1,
           remainingVolumes = nth_listing listings 2,
           cleanup_passed =
             (succeeded \<and> nth_listing listings 0 = [] \<and> nth_listing listings 1 = [] \<and> nth_listing listings 2 = [] \<and> problem = None),
           cleanup_error = problem\<rparr>, past''))"

subsection \<open>What an operation gives\<close>

named_theorems tool_simps

lemma tool_then_simps [tool_simps]:
  "give r past = (r, past)" "run_command runner i past = (runner past i, past @ [(i, runner past i)])"
  "then_do m f past = (case fst (m past) of Inl e \<Rightarrow> (Inl e, snd (m past)) | Inr a \<Rightarrow> f a (snd (m past)))"
  by (simp_all add: give_def run_command_def then_do_def split_beta split: sum.splits)

text \<open>A command that must succeed is run once, and gives its result when it exits with 0.\<close>

lemma required_command [tool_simps]:
  "requireSuccessfulCommand runner i failure past =
     ((case runner past i of Inl e \<Rightarrow> Inl e | Inr r \<Rightarrow> if exitCode r \<noteq> 0 then Inl (SafeCommandError failure) else Inr r),
      past @ [(i, runner past i)])"
  by (simp add: requireSuccessfulCommand_def tool_simps split: sum.splits)

lemma listing_gives:
  "listProjectResources runner project kind past =
     ((case runner past (list_command project kind) of Inl e \<Rightarrow> Inl e
       | Inr r \<Rightarrow> if exitCode r \<noteq> 0 then Inl (SafeCommandError (js ''Docker cleanup verification failed.''))
           else Inr (output_lines (stdout_text r))),
      past @ [(list_command project kind, runner past (list_command project kind))])"
  by (simp add: listProjectResources_def tool_simps split: sum.splits)

subsection \<open>The limits docker prints\<close>

lemma half_even_int [simp]: "round_half_even (of_int k) = k"
  by (simp add: round_half_even_def)

lemma round_double_int:
  assumes "0 < n" "n < 2 ^ 53"
  shows "round_double (of_int n) = of_int n"
proof -
  let ?r = "of_int n :: rat"
  have "?r < of_int (2 ^ 53)" using assms(2) by (simp only: of_int_less_iff)
  then have "pow2 (floor_log2 ?r) < pow2 53" using floor_log2_bounds [of ?r] assms(1) pow2_nat [of 53] by simp
  then have "floor_log2 ?r \<le> 52" using pow2_less by fastforce
  then obtain k where "max (floor_log2 ?r) (- 1022) - 52 = - int k" using nonpos_int_cases [of "max (floor_log2 ?r) (- 1022) - 52"] by auto
  then have k: "ulp ?r = 1 / 2 ^ k" by (simp add: ulp_def pow2_neg)
  have "?r / ulp ?r = of_int (n * 2 ^ k)" by (simp add: k)
  then have "round_half_even (?r / ulp ?r) = n * 2 ^ k" by (simp only: half_even_int)
  then show ?thesis using assms(1) by (simp add: round_double_ulp k)
qed

lemma decimal_int: "0 < n \<Longrightarrow> n < 2 ^ 53 \<Longrightarrow> number_of_decimal False (of_int n) = JFin (of_int n)"
proof -
  assume n: "0 < n" "n < 2 ^ 53"
  have "(of_int n :: rat) < of_int (2 ^ 53)" using n(2) by (simp only: of_int_less_iff)
  also have "\<dots> \<le> pow2 1024" using pow2_mono [of 53 1024] pow2_nat [of 53] by simp
  finally show ?thesis using n round_double_int [OF n] by (simp add: number_of_decimal_def Let_def not_le)
qed

lemma digits_then:
  assumes "all_digits s" "\<not> is_digit c"
  shows "takeWhile is_digit (s @ c # r) = s" "dropWhile is_digit (s @ c # r) = c # r"
  using assms by (simp_all add: all_digits_def list_all_iff takeWhile_append2 dropWhile_append2)

lemma parse_number_int:
  assumes n: "0 < n" "n < 2 ^ 53" and c: "c \<in> {44, 125}"
  shows "parse_number (show_int n @ c # r) = Some (JFin (of_int n), c # r)"
proof -
  let ?s = "show_nat (nat n)"
  have s: "show_int n = ?s" using n(1) by (simp add: show_int_def show_pos_nat)
  obtain d t where dt: "?s = d # t" by (cases ?s) auto
  then have "is_digit d" using all_digits_show_nat [of "nat n"] by (simp add: all_digits_def)
  then have head: "d \<noteq> cu CHR ''-''" by (auto simp: is_digit_def cu_def)
  have nd: "\<not> is_digit c" "c \<noteq> cu CHR ''.''" "c \<noteq> cu CHR ''e''" "c \<noteq> cu CHR ''E''" using c by (auto simp: is_digit_def cu_def)
  note split = digits_then [OF all_digits_show_nat [of "nat n"] nd(1), of r]
  have zero: "hd ?s \<noteq> cu CHR ''0''" using hd_show_nat [of "nat n"] n(1) by (simp add: cu_zero)
  have neg: "(?s @ c # r \<noteq> [] \<and> hd (?s @ c # r) = cu CHR ''-'') = False" using dt head by simp
  have "(of_nat (read_dec ?s) :: rat) = of_int n" using n(1) by simp
  then show ?thesis
    unfolding parse_number_def s neg if_False Let_def split
    using zero nd n by (simp add: parse_exponent_def pow10_def decimal_int)
qed

lemma parse_value_int:
  assumes n: "0 < n" "n < 2 ^ 53" and c: "c \<in> {44, 125}"
  shows "parse_value (Suc fuel) (show_int n @ c # r) = Some (JNum (JFin (of_int n)), c # r)"
proof -
  have s: "show_int n = show_nat (nat n)" using n(1) by (simp add: show_int_def show_pos_nat)
  obtain d t where dt: "show_int n = d # t" using s show_nat_nonempty [of "nat n"] by (metis neq_Nil_conv)
  then have "is_digit d" using all_digits_show_nat [of "nat n"] s by (simp add: all_digits_def)
  then have "\<not> is_json_space d" "d \<noteq> 34" "d \<noteq> cu CHR ''[''" "d \<noteq> cu CHR ''{''" "d \<noteq> cu CHR ''n''" "d \<noteq> cu CHR ''t''" "d \<noteq> cu CHR ''f''"
    by (auto simp: is_digit_def is_json_space_def cu_def)
  then show ?thesis using parse_number_int [OF assms, of r] unfolding dt
    by (simp add: starts_with_def js_Cons del: parse_elements.simps parse_members.simps)
qed

definition controls_json :: "int \<Rightarrow> int \<Rightarrow> jsstr" where
  "controls_json n m =
     js ''{'' @ json_quote (js ''NanoCpus'') @ js '':'' @ show_int n @ js '','' @ json_quote (js ''Memory'') @ js '':'' @ show_int m @ js ''}''"

lemma controls_read:
  assumes n: "0 < n" "n < 2 ^ 53" and m: "0 < m" "m < 2 ^ 53"
  shows "parseContainerControls (trim_text (controls_json n m)) = Inr \<lparr>nanoCpus = n, memoryBytes = m\<rparr>"
proof -
  let ?k = "js ''NanoCpus''" and ?l = "js ''Memory''" and ?text = "controls_json n m"
  let ?tail = "json_quote ?l @ 58 # show_int m @ [125]"
  have shape: "?text = 123 # json_quote ?k @ 58 # show_int n @ 44 # ?tail" by (simp add: controls_json_def js_Cons cu_def)
  have body: "?text = 123 # 34 # quote_body ?k @ 34 # 58 # show_int n @ 44 # ?tail" by (simp add: shape quote_units)
  have ends: "\<not> space_class (hd ?text)" "\<not> space_class (last ?text)" "?text \<noteq> []" by (simp_all add: shape space_class_def)
  then have trim: "trim_text ?text = ?text" using trimmed by blast
  obtain f where f: "2 * length ?text + 2 = Suc (Suc (Suc (Suc f)))" "8 \<le> f"
    by (rule that [of "2 * length ?text - 2"]) (simp_all add: shape quote_units)
  have v: "parse_value (Suc f) (show_int m @ [125]) = Some (JNum (JFin (of_int m)), [125])"
    using parse_value_int [OF m, of 125 f "[]"] by simp
  have l: "parse_members (Suc (Suc f)) (assign_key [] ?k (JNum (JFin (of_int n)))) ?tail =
      Some (assign_key (assign_key [] ?k (JNum (JFin (of_int n)))) ?l (JNum (JFin (of_int m))), [])"
    using f(2) by (subst parse_members_value [OF _ v]) simp_all
  have "parse_members (Suc (Suc (Suc f))) [] (json_quote ?k @ 58 # show_int n @ 44 # ?tail) =
      Some ([(?k, JNum (JFin (of_int n))), (?l, JNum (JFin (of_int m)))], [])"
    using f(2) l by (subst parse_members_value [OF _ parse_value_int [OF n, of 44]]) (simp_all add: is_json_space_def)
  then have "parse_value (Suc (Suc (Suc (Suc f)))) ?text = Some (plain [(?k, JNum (JFin (of_int n))), (?l, JNum (JFin (of_int m)))], [])"
    unfolding body by (intro parse_value_object) (simp_all add: quote_units)
  then have "json_parse ?text = Some (plain [(?k, JNum (JFin (of_int n))), (?l, JNum (JFin (of_int m)))])" unfolding json_parse_def f(1) by simp
  moreover have "safe_integer_value (JNum (JFin (of_int i))) = Some i" if "0 < i" "i < 2 ^ 53" for i
    using that by (simp add: safe_int_def max_safe_integer_def)
  moreover have "is_object_or_array (plain kvs)" for kvs by (simp add: plain_def)
  ultimately show ?thesis using n m by (simp add: parseContainerControls_def trim)
qed

subsection \<open>Counts\<close>

lemma unsigned_shown: "unsigned_pattern v \<Longrightarrow> 0 \<le> num v \<and> show_int (num v) = v"
proof -
  assume v: "unsigned_pattern v"
  have zero: "show_nat 0 = js ''0''" "read_dec (js ''0'') = 0" by (subst show_nat.simps) (simp_all add: js_def cu_zero read_dec_def)
  have n: "show_int (num v) = show_nat (read_dec v)" by (simp add: num_def show_int_def show_pos_nat)
  show ?thesis
  proof (cases "v = js ''0''")
    case False
    then have "all_digits v" "v \<noteq> []" "hd v \<noteq> digit_cu 0" using v by (simp_all add: unsigned_pattern_def cu_zero)
    then show ?thesis using show_nat_read_dec n by (simp add: num_def)
  qed (use n in \<open>simp add: zero num_def del: js_simps\<close>)
qed

lemma parseCount_iff: "parseCount output = Inr n \<longleftrightarrow> 0 \<le> n \<and> safe_int n \<and> trim_text output = show_int n"
  using unsigned_shown [of "trim_text output"] unsigned_show [of n] by (auto simp: parseCount_def Let_def)

lemma valid_project: "assertValidComposeProjectName project = Inr u \<longleftrightarrow> compose_project_pattern project"
  by (simp add: assertValidComposeProjectName_def)

text \<open>
  A count is what the database printed, and reconciliation compares counts: counting the rows of
  a run gives a number exactly when the project and the marker have their forms and the one command
  it runs exits with 0 and prints this number in its canonical decimal form, in the range the program
  computes with; and reconciled means that no row was there before and that as many are there as
  were confirmed.
\<close>

theorem count_is_what_was_printed:
  "(fst (countRunRows runner project run_id past) = Inr n) =
     (compose_project_pattern project \<and> run_id_pattern run_id \<and> 0 \<le> n \<and> safe_int n \<and>
      (\<exists>i r. buildReconciliationInvocation project run_id = Inr i \<and> runner past i = Inr r \<and> exitCode r = 0 \<and>
         trim_text (stdout_text r) = show_int n)) \<and>
   (case reconcileRows before confirmed observed of
      Inl e \<Rightarrow> before < 0 \<or> confirmed < 0 \<or> observed < 0 \<or> max_safe_integer < max before (max confirmed observed)
    | Inr r \<Rightarrow> reconciled r = (before = 0 \<and> observed = confirmed) \<and> observedRows r = observed)"
proof -
  have "(fst (countRunRows runner project run_id past) = Inr n) =
     (compose_project_pattern project \<and> run_id_pattern run_id \<and> 0 \<le> n \<and> safe_int n \<and>
      (\<exists>i r. buildReconciliationInvocation project run_id = Inr i \<and> runner past i = Inr r \<and> exitCode r = 0 \<and>
         trim_text (stdout_text r) = show_int n))"
    by (auto simp: countRunRows_def buildReconciliationInvocation_def assertValidComposeProjectName_def or_error_def tool_simps
        parseCount_iff split: sum.splits)
  moreover have "case reconcileRows before confirmed observed of
      Inl e \<Rightarrow> before < 0 \<or> confirmed < 0 \<or> observed < 0 \<or> max_safe_integer < max before (max confirmed observed)
    | Inr r \<Rightarrow> reconciled r = (before = 0 \<and> observed = confirmed) \<and> observedRows r = observed"
    by (auto simp: reconcileRows_def safe_int_def)
  ultimately show ?thesis by blast
qed

subsection \<open>Cleanup\<close>

definition down_command :: "jsstr \<Rightarrow> CommandInvocation" where
  "down_command project = docker_command ([js ''compose'', js ''-p'', project] @ DOWN_ARGUMENTS) 60000"

lemma down_gives:
  "then_do (give (composeInvocation project DOWN_ARGUMENTS 60000)) (run_command runner) past =
     (if compose_project_pattern project
      then (runner past (down_command project), past @ [(down_command project, runner past (down_command project))])
      else (Inl (LoadGeneratorConfigurationError (js ''Compose project name failed validation.'')), past))"
  by (simp add: tool_simps composeInvocation_def assertValidComposeProjectName_def or_error_def down_command_def)

text \<open>The results of the listings: each ran and exited with 0.\<close>

fun exits_well :: "tool_error + CommandResult \<Rightarrow> bool" where
  "exits_well (Inl e) = False"
| "exits_well (Inr r) = (exitCode r = 0)"

fun exits_empty :: "tool_error + CommandResult \<Rightarrow> bool" where
  "exits_empty (Inl e) = False"
| "exits_empty (Inr r) = (exitCode r = 0 \<and> output_lines (stdout_text r) = [])"

lemma remaining_gives:
  "\<exists>answers. snd (remaining_resources runner project kinds past) = past @ zip (map (list_command project) kinds) answers \<and>
     length answers \<le> length kinds \<and>
     snd (fst (remaining_resources runner project kinds past)) = (length answers < length kinds \<or> \<not> list_all exits_well answers) \<and>
     length (fst (fst (remaining_resources runner project kinds past))) \<le> length answers \<and>
     (snd (fst (remaining_resources runner project kinds past)) \<or>
       list_all2 (\<lambda>found answer. (found = []) = exits_empty answer) (fst (fst (remaining_resources runner project kinds past))) answers)"
proof (induction kinds arbitrary: past)
  case (Cons kind kinds)
  let ?i = "list_command project kind"
  let ?past = "past @ [(?i, runner past ?i)]"
  show ?case
  proof (cases "exits_well (runner past ?i)")
    case True
    then obtain r where r: "runner past ?i = Inr r" "exitCode r = 0" by (cases "runner past ?i") auto
    from Cons.IH [of ?past] obtain answers where a:
      "snd (remaining_resources runner project kinds ?past) = ?past @ zip (map (list_command project) kinds) answers"
      "length answers \<le> length kinds"
      "snd (fst (remaining_resources runner project kinds ?past)) = (length answers < length kinds \<or> \<not> list_all exits_well answers)"
      "length (fst (fst (remaining_resources runner project kinds ?past))) \<le> length answers"
      "snd (fst (remaining_resources runner project kinds ?past)) \<or>
       list_all2 (\<lambda>found answer. (found = []) = exits_empty answer) (fst (fst (remaining_resources runner project kinds ?past))) answers"
      by blast
    show ?thesis
      by (rule exI [of _ "Inr r # answers"])
        (use r a in \<open>auto simp: listing_gives split_beta\<close>)
  next
    case False
    show ?thesis
      by (rule exI [of _ "[runner past ?i]"])
        (use False in \<open>auto simp: listing_gives split: sum.splits\<close>)
  qed
qed simp

abbreviation project_objects :: "project_object list" where
  "project_objects \<equiv> [ContainerObject, NetworkObject, VolumeObject]"

lemma cleanup_gives:
  fixes past :: command_log
  assumes "then_do (give (composeInvocation project DOWN_ARGUMENTS 60000)) (run_command runner) past = (down, past')"
    and "remaining_resources runner project project_objects past' = ((found, failed), past'')"
  shows "snd (cleanupCompose runner project past) = past''"
    and "cleanup_passed (fst (cleanupCompose runner project past)) =
      ((case down of Inl e \<Rightarrow> False | Inr r \<Rightarrow> exitCode r = 0) \<and> \<not> failed \<and> nth_listing found 0 = [] \<and> nth_listing found 1 = [] \<and> nth_listing found 2 = [])"
    and "cleanup_passed (fst (cleanupCompose runner project past)) \<or> (\<exists>reason. cleanup_error (fst (cleanupCompose runner project past)) = Some reason) \<or>
      (\<exists>left. left \<in> set (remainingContainers (fst (cleanupCompose runner project past)) @
        remainingNetworks (fst (cleanupCompose runner project past)) @ remainingVolumes (fst (cleanupCompose runner project past))))"
  using assms by (auto simp: cleanupCompose_def Let_def simp del: remaining_resources.simps split: sum.splits if_splits) (metis list.set_sel(1))+

lemma three_answers:
  assumes "length found \<le> length answers" "length answers \<le> 3" "failed = (length answers < 3 \<or> \<not> list_all exits_well answers)"
    and "failed \<or> list_all2 (\<lambda>found answer. (found = []) = exits_empty answer) found answers"
  shows "(\<not> failed \<and> nth_listing found 0 = [] \<and> nth_listing found 1 = [] \<and> nth_listing found 2 = []) =
    (\<exists>a b c. answers = [a, b, c] \<and> exits_empty a \<and> exits_empty b \<and> exits_empty c)"
proof (cases failed)
  case True
  have "exits_empty a \<Longrightarrow> exits_well a" for a by (cases a) auto
  then show ?thesis using True assms(3) by auto
next
  case False
  with assms(2,3) obtain a b c where answers: "answers = [a, b, c]"
    by (cases answers; cases "tl answers"; cases "tl (tl answers)") auto
  with False assms(4) obtain x y z where "found = [x, y, z]" by (auto simp: list_all2_Cons2)
  with False assms(4) answers show ?thesis by (auto simp: nth_listing_def)
qed

text \<open>What a cleanup runs and when it passes, in terms of the answers of its commands.\<close>

lemma cleanup_course:
  "\<exists>down answers. 1 \<le> length answers \<and> length answers \<le> 3 \<and> (compose_project_pattern project \<or> isl down) \<and>
     snd (cleanupCompose runner project past) = past @ (if compose_project_pattern project then [(down_command project, down)] else []) @
       zip (map (list_command project) project_objects) answers \<and>
     cleanup_passed (fst (cleanupCompose runner project past)) =
       ((case down of Inl e \<Rightarrow> False | Inr r \<Rightarrow> exitCode r = 0) \<and>
        (\<exists>a b c. answers = [a, b, c] \<and> exits_empty a \<and> exits_empty b \<and> exits_empty c))"
proof -
  obtain down past' where down: "then_do (give (composeInvocation project DOWN_ARGUMENTS 60000)) (run_command runner) past = (down, past')"
    by fastforce
  obtain found failed past'' where rem: "remaining_resources runner project project_objects past' = ((found, failed), past'')"
    by (metis surj_pair)
  note gives = cleanup_gives [OF down rem]
  obtain answers where a: "past'' = past' @ zip (map (list_command project) project_objects) answers"
    "length answers \<le> 3" "failed = (length answers < 3 \<or> \<not> list_all exits_well answers)" "length found \<le> length answers"
    "failed \<or> list_all2 (\<lambda>found answer. (found = []) = exits_empty answer) found answers"
    using remaining_gives [of runner project project_objects past'] unfolding rem fst_conv snd_conv by force
  have "past'' \<noteq> past'" using rem by (auto simp: listing_gives split_beta split: sum.splits if_splits)
  then have "answers \<noteq> []" using a(1) by auto
  then have "1 \<le> length answers" by (cases answers) simp_all
  moreover have "past' = past @ (if compose_project_pattern project then [(down_command project, down)] else [])"
    "compose_project_pattern project \<or> isl down"
    using down by (auto simp: down_gives split: if_splits)
  ultimately show ?thesis
    using a(1,2) gives(2) three_answers [OF a(4,2,3,5)] unfolding gives(1) by (intro exI [of _ down] exI [of _ answers]) simp
qed

lemma cleanup_excuse:
  "cleanup_passed (fst (cleanupCompose runner project past)) \<or> (\<exists>reason. cleanup_error (fst (cleanupCompose runner project past)) = Some reason) \<or>
      (\<exists>left. left \<in> set (remainingContainers (fst (cleanupCompose runner project past)) @
        remainingNetworks (fst (cleanupCompose runner project past)) @ remainingVolumes (fst (cleanupCompose runner project past))))"
proof -
  obtain down past' where "then_do (give (composeInvocation project DOWN_ARGUMENTS 60000)) (run_command runner) past = (down, past')"
    by fastforce
  moreover obtain found failed past'' where "remaining_resources runner project project_objects past' = ((found, failed), past'')"
    by (metis surj_pair)
  ultimately show ?thesis using cleanup_gives(3) by blast
qed

lemma commands_of_listings:
  "length answers \<le> 3 \<Longrightarrow>
    map fst (zip (map (list_command project) project_objects) answers) = map (list_command project) (take (length answers) project_objects)"
  by (cases answers; cases "tl answers"; cases "tl (tl answers)") auto

lemma three_listings:
  assumes "length answers \<le> 3"
  shows "zip (map (list_command project) project_objects) answers =
      [(list_command project ContainerObject, x), (list_command project NetworkObject, y), (list_command project VolumeObject, z)] \<longleftrightarrow>
    answers = [x, y, z]"
  using assms by (cases answers; cases "tl answers"; cases "tl (tl answers)") auto

text \<open>
  C31. Cleanup passes exactly when nothing of the run is left: it never throws; it passes exactly
  when removing the project's containers with their volumes exited with 0 and then the listings of
  this project's containers, networks and volumes each exited with 0 and named none; when it does
  not pass it says why or lists what is left; the listing is tried even after a failed removal; and
  it runs no command but these four, the removal only for a project with a name of the tool's own form.
\<close>

theorem cleanup_passes_when_nothing_is_left:
  "cleanup_passed (fst (cleanupCompose runner project past)) =
     (\<exists>r a b c. snd (cleanupCompose runner project past) =
        past @ [(down_command project, Inr r), (list_command project ContainerObject, a), (list_command project NetworkObject, b),
          (list_command project VolumeObject, c)] \<and>
        exitCode r = 0 \<and> exits_empty a \<and> exits_empty b \<and> exits_empty c) \<and>
   (cleanup_passed (fst (cleanupCompose runner project past)) \<or> (\<exists>reason. cleanup_error (fst (cleanupCompose runner project past)) = Some reason) \<or>
      (\<exists>left. left \<in> set (remainingContainers (fst (cleanupCompose runner project past)) @
        remainingNetworks (fst (cleanupCompose runner project past)) @ remainingVolumes (fst (cleanupCompose runner project past))))) \<and>
   (\<exists>ran. snd (cleanupCompose runner project past) = past @ ran \<and>
      (if compose_project_pattern project
       then map fst ran = down_command project # map (list_command project) (take (length ran - 1) project_objects) \<and> 2 \<le> length ran
       else map fst ran = map (list_command project) (take (length ran) project_objects) \<and> 1 \<le> length ran))"
proof -
  let ?lists = "\<lambda>answers. zip (map (list_command project) project_objects) answers"
  obtain down answers where c: "1 \<le> length answers" "length answers \<le> 3" "compose_project_pattern project \<or> isl down"
    "snd (cleanupCompose runner project past) =
      past @ (if compose_project_pattern project then [(down_command project, down)] else []) @ ?lists answers"
    "cleanup_passed (fst (cleanupCompose runner project past)) =
      ((case down of Inl e \<Rightarrow> False | Inr r \<Rightarrow> exitCode r = 0) \<and>
       (\<exists>a b c. answers = [a, b, c] \<and> exits_empty a \<and> exits_empty b \<and> exits_empty c))"
    using cleanup_course [of project runner past] by (elim exE conjE) (rule that)
  note commands = commands_of_listings [OF c(2), of project]
  have ran: "\<exists>ran. snd (cleanupCompose runner project past) = past @ ran \<and>
      (if compose_project_pattern project
       then map fst ran = down_command project # map (list_command project) (take (length ran - 1) project_objects) \<and> 2 \<le> length ran
       else map fst ran = map (list_command project) (take (length ran) project_objects) \<and> 1 \<le> length ran)"
    using c(1,2) commands
    by (intro exI [of _ "(if compose_project_pattern project then [(down_command project, down)] else []) @ ?lists answers"]) (simp add: c(4))
  have "cleanup_passed (fst (cleanupCompose runner project past)) = (\<exists>r x y z. snd (cleanupCompose runner project past) =
        past @ [(down_command project, Inr r), (list_command project ContainerObject, x), (list_command project NetworkObject, y),
          (list_command project VolumeObject, z)] \<and> exitCode r = 0 \<and> exits_empty x \<and> exits_empty y \<and> exits_empty z)"
  proof -
    define made where "made = ?lists answers"
    have made: "(made = [(list_command project ContainerObject, x), (list_command project NetworkObject, y),
        (list_command project VolumeObject, z)]) = (answers = [x, y, z])" for x y z
      unfolding made_def by (rule three_listings [OF c(2)])
    have "length made \<le> 3" unfolding made_def by simp
    then show ?thesis unfolding c(4,5) made_def [symmetric] using c(3)
      by (cases "compose_project_pattern project"; cases down) (auto simp: made)
  qed
  then show ?thesis using ran cleanup_excuse by (intro conjI)
qed

end
