(* ===== verification/LoadVerdict.thy ===== *)
theory LoadVerdict
  imports LoadFreshness LoadDocker
begin

section \<open>The verdict of a run (\<open>tools/loadgen/orchestrator.ts\<close>, \<open>assessment.ts\<close>)\<close>

text \<open>
  A managed run starts the containers, checks them, runs both phases with the aggregation scheduler
  and the freshness probe beside the second, counts the stored rows, judges what it saw, and removes
  the containers on every path. The results of the two phases, of the scheduler and of the probe are
  those of their own theories; what the capture of the environment, of the sources, of the samples
  and of the query plans gives, with the commands they made, is an argument. The lemmas show that a
  passed run sent and stored every row and left nothing behind, and that the containers are removed
  whatever happened before.
\<close>

subsection \<open>Assessment\<close>

definition ingestionIsComplete :: "IngestionPhaseResult \<Rightarrow> bool" where
  "ingestionIsComplete result \<longleftrightarrow>
     (let c = final_counters result
      in requestsNotStarted c = 0 \<and> requestsUnresolved c = 0 \<and> transportFailures c = 0 \<and> timeouts c = 0 \<and>
         invalidResponses c = 0 \<and> serverRejectedRows c = 0 \<and> indeterminateRows c = 0 \<and> rowsNotAttempted c = 0 \<and>
         confirmedAcceptedRows c = rowsScheduled c)"

definition aggregationIsComplete :: "AggregationResult \<Rightarrow> bool" where
  "aggregationIsComplete result \<longleftrightarrow>
     (let c = agg_counters result
      in 0 < scheduledTicks c \<and> startedRequests c = scheduledTicks c \<and> completedRequests c = startedRequests c \<and>
         successfulResponses c = startedRequests c \<and> httpFailures c = 0 \<and> timeoutFailures c = 0 \<and>
         agg_transportFailures c = 0 \<and> agg_invalidResponses c = 0 \<and> missedTicks c = 0 \<and> unresolvedRequests c = 0 \<and>
         \<not> drainTimedOut result)"

datatype target_status = Verified | NotVerified | NotEvaluated

record BenchmarkTargetAssessment =
  requirement :: jsstr
  target_status :: target_status
  evidence :: jsstr

definition assessed :: "string \<Rightarrow> bool \<Rightarrow> jsstr \<Rightarrow> BenchmarkTargetAssessment" where
  "assessed name verified shown =
     \<lparr>requirement = js name, target_status = (if verified then Verified else NotVerified), evidence = shown\<rparr>"

text \<open>\<open>String(value)\<close> for the values of the evidence, and comparisons with a threshold.\<close>

definition show_bool :: "bool \<Rightarrow> jsstr" where
  "show_bool b = (if b then js ''true'' else js ''false'')"

definition show_or_null :: "jsnum option \<Rightarrow> jsstr" where
  "show_or_null v = (case v of None \<Rightarrow> js ''null'' | Some n \<Rightarrow> number_to_string n)"

fun at_least :: "rat \<Rightarrow> jsnum \<Rightarrow> bool" where
  "at_least k (JFin r) = (k \<le> r)"
| "at_least k JPosInf = True"
| "at_least k JNegZero = (k \<le> 0)"
| "at_least k _ = False"

fun below :: "rat \<Rightarrow> jsnum \<Rightarrow> bool" where
  "below k (JFin r) = (r < k)"
| "below k JNegInf = True"
| "below k JNegZero = (0 < k)"
| "below k _ = False"

record assessment_input =
  as_runKind :: LoadGeneratorRunKind
  as_measuredRows :: int
  as_warmup :: IngestionPhaseResult
  as_measured :: IngestionPhaseResult
  as_aggregation :: AggregationResult
  as_freshness :: FreshnessResult
  as_reconciliation :: RowReconciliation
  as_databaseRows :: "int option"
  as_controlsVerified :: bool

definition REQUIREMENTS :: "string list" where
  "REQUIREMENTS = [''INF-003'', ''REL-001'', ''PERF-001'', ''PERF-002'', ''PERF-003'', ''PERF-004'', ''PERF-005'', ''PERF-006'', ''PERF-007'']"

definition assessBenchmarkTargets :: "assessment_input \<Rightarrow> BenchmarkTargetAssessment list" where
  "assessBenchmarkTargets input =
     (if as_runKind input \<noteq> Baseline
      then map (\<lambda>name. \<lparr>requirement = js name, target_status = NotEvaluated,
        evidence = js ''This smoke run validates tooling and does not evaluate final performance targets.''\<rparr>) REQUIREMENTS
      else
        let warmupComplete = ingestionIsComplete (as_warmup input); measuredComplete = ingestionIsComplete (as_measured input);
            aggregationComplete = aggregationIsComplete (as_aggregation input); r = as_reconciliation input;
            throughput = confirmedAcceptedRowsPerSecond (as_measured input);
            aggregationP95 = p95 (requestLatencySuccessful (as_aggregation input));
            fast = (case aggregationP95 of None \<Rightarrow> False | Some n \<Rightarrow> below 1000 n);
            freshnessMs = postDispatchToVisibilityMs (as_freshness input); c = agg_counters (as_aggregation input)
        in [assessed ''INF-003'' (as_controlsVerified input)
              (js ''Effective Docker HostConfig controls were inspected for 0.5 CPU/256 MiB app and 1 CPU/1 GiB PostgreSQL.''),
            assessed ''REL-001'' (warmupComplete \<and> measuredComplete \<and> reconciled r)
              (js ''Warm-up complete='' @ show_bool warmupComplete @ js ''; measured complete='' @ show_bool measuredComplete @
               js ''; reconciliation passed='' @ show_bool (reconciled r) @ js ''.''),
            assessed ''PERF-001''
              (measuredComplete \<and> reconciled r \<and> (case throughput of None \<Rightarrow> False | Some n \<Rightarrow> at_least 15000 n))
              (js ''Confirmed accepted throughput='' @ show_or_null throughput @ js '' logs/second; threshold=15000.''),
            assessed ''PERF-002'' (aggregationComplete \<and> fast)
              (js ''Concurrent primary aggregation p95='' @ show_or_null aggregationP95 @ js '' ms; threshold<1000 ms; complete='' @
               show_bool aggregationComplete @ js ''.''),
            assessed ''PERF-003'' (measuredComplete \<and> aggregationComplete \<and> fast)
              (js ''Ingestion and '' @ show_int (successfulResponses c) @ js '' successful aggregation samples overlapped; p95='' @
               show_or_null aggregationP95 @ js '' ms.''),
            assessed ''PERF-004''
              (as_measuredRows input = 1000000 \<and> reconciled r \<and> as_databaseRows input = Some (expectedRows r))
              (js ''Configured measured rows='' @ show_int (as_measuredRows input) @ js ''; expected total='' @ show_int (expectedRows r) @
               js ''; PostgreSQL run rows='' @ (case as_databaseRows input of None \<Rightarrow> js ''undefined'' | Some n \<Rightarrow> show_int n) @ js ''.''),
            assessed ''PERF-005''
              (fresh_outcome (as_freshness input) = Visible \<and> (case freshnessMs of None \<Rightarrow> False | Some ms \<Rightarrow> ms \<le> 20000))
              (js ''Public-API dispatch-to-visibility='' @ show_or_null (map_option JFin freshnessMs) @ js '' ms; threshold<=20000 ms.''),
            assessed ''PERF-006'' aggregationComplete
              (js ''Open-loop intended rate=1 request/second; scheduled='' @ show_int (scheduledTicks c) @ js ''; started='' @
               show_int (startedRequests c) @ js ''; missed='' @ show_int (missedTicks c) @ js ''.''),
            assessed ''PERF-007'' False
              (js ''Baseline evidence is captured; comparative tuning evidence and the final performance documentation are still pending.'')])"

subsection \<open>Failures\<close>

definition ingestion_failed :: "IngestionPhaseResult \<Rightarrow> bool" where
  "ingestion_failed result \<longleftrightarrow>
     (let c = final_counters result
      in 0 < transportFailures c \<or> 0 < timeouts c \<or> 0 < invalidResponses c \<or> 0 < requestsNotStarted c \<or>
         0 < rowsNotAttempted c \<or> 0 < serverRejectedRows c \<or> 0 < indeterminateRows c \<or> 0 < requestsUnresolved c)"

definition aggregation_failed :: "AggregationResult \<Rightarrow> bool" where
  "aggregation_failed result \<longleftrightarrow>
     (let c = agg_counters result
      in successfulResponses c < 1 \<or> 0 < httpFailures c \<or> 0 < timeoutFailures c \<or> 0 < agg_transportFailures c \<or>
         0 < agg_invalidResponses c \<or> 0 < missedTicks c \<or> 0 < unresolvedRequests c \<or> drainTimedOut result)"

text \<open>The texts, each when its condition holds.\<close>

definition workloadFailures ::
    "IngestionPhaseResult \<Rightarrow> IngestionPhaseResult \<Rightarrow> AggregationResult \<Rightarrow> FreshnessResult \<Rightarrow> RowReconciliation \<Rightarrow> jsstr list" where
  "workloadFailures warmup measured aggregation freshness reconciliation =
     (let ingestion = (\<lambda>phase result. if ingestion_failed result then [phase_text phase @ js '' ingestion contained non-success outcomes.''] else [])
      in ingestion Warmup warmup @ ingestion Measured measured @
         (if aggregation_failed aggregation then [js ''Measured aggregation scheduling or request outcomes were incomplete.''] else []) @
         (if fresh_outcome freshness \<noteq> Visible then [js ''The deterministic freshness probe was not observed within its deadline.''] else []) @
         (if \<not> reconciled reconciliation then [js ''PostgreSQL row reconciliation did not match confirmed HTTP acceptance.''] else []))"

definition GENERIC_FAILURE :: jsstr where
  "GENERIC_FAILURE = js ''Load-generator execution failed without exposing internal details.''"

definition own_message :: "jsstr \<Rightarrow> jsstr" where
  "own_message m = (if starts_with (js ''Load-generator '') m then m else GENERIC_FAILURE)"

fun safeFailure :: "tool_error \<Rightarrow> jsstr" where
  "safeFailure (SafeCommandError m) = m"
| "safeFailure (LoadGeneratorConfigurationError m) = own_message m"
| "safeFailure (ThrownByOther e) =
     (case e of
        Foreign v \<Rightarrow> if isErrorInstance v then (case get_prop v (js ''message'') of JStr m \<Rightarrow> own_message m | _ \<Rightarrow> GENERIC_FAILURE) else GENERIC_FAILURE
      | _ \<Rightarrow> own_message (error_message e))"

subsection \<open>Resource samples\<close>

record ResourceSample =
  sample_elapsedMs :: rat
  appCpuPercent :: rat
  appMemoryBytes :: int
  postgresCpuPercent :: rat
  postgresMemoryBytes :: int

record ResourceSummary =
  resource_sampleCount :: nat
  observationSpanMs :: "rat option"
  achievedSampleStartsPerSecond :: "jsnum option"
  sampleStartInterval :: PercentileSummary
  maximum_appCpuPercent :: "rat option"
  maximum_appMemoryBytes :: "int option"
  maximum_postgresCpuPercent :: "rat option"
  maximum_postgresMemoryBytes :: "int option"

definition greatest :: "('a \<Rightarrow> 'b :: linorder) \<Rightarrow> 'a list \<Rightarrow> 'b option" where
  "greatest selector samples = (if samples = [] then None else Some (Max (set (map selector samples))))"

definition resourceSummary :: "ResourceSample list \<Rightarrow> throw + ResourceSummary" where
  "resourceSummary samples =
     (let times = map sample_elapsedMs samples;
          span = (if length samples < 2 then None else Some (sub_double (last times) (hd times)))
      in or_error (summarizeSamples (map JFin (map2 sub_double (tl times) times))
            (js ''At least two resource samples are required to calculate achieved cadence.'')) (\<lambda>interval.
         Inr \<lparr>resource_sampleCount = length samples, observationSpanMs = span,
              achievedSampleStartsPerSecond = Option.bind span (\<lambda>ms. ratePerSecond (int (length samples) - 1) (JFin ms)),
              sampleStartInterval = interval,
              maximum_appCpuPercent = greatest appCpuPercent samples, maximum_appMemoryBytes = greatest appMemoryBytes samples,
              maximum_postgresCpuPercent = greatest postgresCpuPercent samples,
              maximum_postgresMemoryBytes = greatest postgresMemoryBytes samples\<rparr>))"

subsection \<open>The run\<close>

text \<open>
  What the run met: for the parts that run commands of their own, the commands and the result. The
  freshness result is that of the probe of the measured phase, whenever it was observed.
\<close>

record run_events =
  ev_source :: "command_log \<times> (tool_error + unit)"
  ev_port :: "tool_error + unit"
  ev_healthy :: "tool_error + unit"
  ev_environment :: "command_log \<times> (tool_error + unit)"
  ev_warmup :: "throw + IngestionPhaseResult"
  ev_aggregationWarmup :: aggregation_kind
  ev_measured :: "throw + IngestionPhaseResult"
  ev_aggregation :: "throw + AggregationResult"
  ev_sampling :: "command_log \<times> bool"
  ev_samples :: "ResourceSample list"
  ev_freshness :: FreshnessResult
  ev_diagnostics :: "command_log \<times> (tool_error + int option)"
  ev_interrupted :: bool

definition aside :: "command_log \<times> (tool_error + 'a) \<Rightarrow> 'a tool" where
  "aside ev = (\<lambda>past. (snd ev, past @ fst ev))"

definition of_others :: "throw + 'a \<Rightarrow> tool_error + 'a" where
  "of_others r = (case r of Inl e \<Rightarrow> Inl (ThrownByOther e) | Inr a \<Rightarrow> Inr a)"

text \<open>
  The measured phase with the \<open>finally\<close> that stops the scheduler, whose own error wins, and the
  check of the sampling.
\<close>

definition measured_stage :: "run_events \<Rightarrow> tool_error + IngestionPhaseResult \<times> AggregationResult" where
  "measured_stage ev =
     or_error (of_others (ev_aggregation ev)) (\<lambda>aggregation.
     or_error (of_others (ev_measured ev)) (\<lambda>measured.
       if snd (ev_sampling ev) then Inl (SafeCommandError (js ''Docker resource sampling did not complete cleanly.''))
       else Inr (measured, aggregation)))"

text \<open>Before the first phase: the stack is up, within its limits, and holds no row of the run.\<close>

definition prepare_run :: "command_runner \<Rightarrow> ResolvedRunConfiguration \<Rightarrow> run_events \<Rightarrow> int tool" where
  "prepare_run runner c ev =
     then_do (aside (ev_source ev)) (\<lambda>_.
     then_do (give (ev_port ev)) (\<lambda>_.
     then_do (startCompose runner (composeProject c)) (\<lambda>_.
     then_do (give (ev_healthy ev)) (\<lambda>_.
     then_do (identifyComposeContainers runner (composeProject c)) (\<lambda>containers.
     then_do (inspectAndVerifyControls runner containers) (\<lambda>_.
     then_do (aside (ev_environment ev)) (\<lambda>_.
     then_do (countRunRows runner (composeProject c) (runId c)) (\<lambda>before.
       give (if before \<noteq> 0 then Inl (SafeCommandError (js ''The isolated database already contained the generated run marker.''))
             else Inr before)))))))))"

text \<open>After both phases: the count, its comparison and the judgements.\<close>

definition judge_run ::
    "command_runner \<Rightarrow> ResolvedRunConfiguration \<Rightarrow> run_events \<Rightarrow> int \<Rightarrow> IngestionPhaseResult \<Rightarrow> IngestionPhaseResult \<Rightarrow> AggregationResult \<Rightarrow>
      (BenchmarkTargetAssessment list \<times> RowReconciliation \<times> jsstr list) tool" where
  "judge_run runner c ev before warmup measured aggregation =
     then_do (countRunRows runner (composeProject c) (runId c)) (\<lambda>observed.
     then_do (give (reconcileRows before
       (confirmedAcceptedRows (final_counters warmup) + confirmedAcceptedRows (final_counters measured)) observed)) (\<lambda>reconciliation.
     then_do (aside (ev_diagnostics ev)) (\<lambda>databaseRows.
       give (Inr
         (assessBenchmarkTargets
            \<lparr>as_runKind = opt_runKind c, as_measuredRows = opt_measuredRows c, as_warmup = warmup, as_measured = measured,
             as_aggregation = aggregation, as_freshness = ev_freshness ev, as_reconciliation = reconciliation,
             as_databaseRows = databaseRows, as_controlsVerified = True\<rparr>,
          reconciliation,
          workloadFailures warmup measured aggregation (ev_freshness ev) reconciliation @
            (if ev_interrupted ev then [js ''Run was interrupted by SIGINT or SIGTERM.''] else []))))))"

text \<open>The stages in their order; the failures of a run that went through all of them.\<close>

definition run_stages ::
    "command_runner \<Rightarrow> ResolvedRunConfiguration \<Rightarrow> run_events \<Rightarrow> (BenchmarkTargetAssessment list \<times> RowReconciliation \<times> jsstr list) tool" where
  "run_stages runner c ev =
     then_do (prepare_run runner c ev) (\<lambda>before.
     then_do (give (of_others (ev_warmup ev))) (\<lambda>warmup.
     then_do (give (if ev_aggregationWarmup ev \<noteq> AggSuccess
       then Inl (SafeCommandError (js ''The required aggregation warm-up request failed.'')) else Inr ())) (\<lambda>_.
     then_do (aside (fst (ev_sampling ev), measured_stage ev)) (\<lambda>(measured, aggregation).
       judge_run runner c ev before warmup measured aggregation))))"

record run_report =
  report_passed :: bool
  failureReasons :: "jsstr list"
  targetAssessment :: "BenchmarkTargetAssessment list"
  resourceUsage :: ResourceSummary
  report_cleanup :: CleanupVerification
  unverifiedRequirements :: "jsstr list"

fun status_text :: "target_status \<Rightarrow> jsstr" where
  "status_text Verified = js ''verified''"
| "status_text NotVerified = js ''not-verified''"
| "status_text NotEvaluated = js ''not-evaluated''"

definition primary_failure :: "tool_error + BenchmarkTargetAssessment list \<times> RowReconciliation \<times> jsstr list \<Rightarrow> jsstr option" where
  "primary_failure outcome =
     (case outcome of
        Inl e \<Rightarrow> Some (safeFailure e)
      | Inr (targets, reconciliation, failures) \<Rightarrow> if failures = [] then None else Some (join_texts (js '' '') failures))"

definition failure_reasons :: "jsstr option \<Rightarrow> CleanupVerification \<Rightarrow> jsstr list" where
  "failure_reasons primary cleanup =
     (case primary of None \<Rightarrow> [] | Some m \<Rightarrow> [m]) @
     (if cleanup_passed cleanup then []
      else [case cleanup_error cleanup of None \<Rightarrow> js ''Exact-project cleanup verification failed.'' | Some m \<Rightarrow> m])"

definition runManagedLoadGenerator ::
    "command_runner \<Rightarrow> ResolvedRunConfiguration \<Rightarrow> run_events \<Rightarrow> (throw + run_report) \<times> command_log" where
  "runManagedLoadGenerator runner c ev =
     (let (outcome, made) = run_stages runner c ev []; (cleanup, made') = cleanupCompose runner (composeProject c) made;
          reasons = failure_reasons (primary_failure outcome) cleanup;
          targets = (case outcome of Inl e \<Rightarrow> [] | Inr (t, r, f) \<Rightarrow> t)
      in (or_error (resourceSummary (ev_samples ev)) (\<lambda>usage.
            Inr \<lparr>report_passed = (reasons = []), failureReasons = reasons, targetAssessment = targets,
                 resourceUsage = usage, report_cleanup = cleanup,
                 unverifiedRequirements = map (\<lambda>a. requirement a @ js '': '' @ status_text (target_status a))
                   (filter (\<lambda>a. target_status a \<noteq> Verified) targets)\<rparr>), made'))"

subsection \<open>Counters are never negative\<close>

definition tallies :: "IngestionCounters \<Rightarrow> bool" where
  "tallies c \<longleftrightarrow> 0 \<le> transportFailures c \<and> 0 \<le> timeouts c \<and> 0 \<le> invalidResponses c \<and> 0 \<le> serverRejectedRows c \<and> 0 \<le> indeterminateRows c"

lemma tallies_update [simp]:
  "tallies (c\<lparr>requestsCompleted := n\<rparr>) = tallies c" "tallies (c\<lparr>requestsStarted := n, attemptedRows := m\<rparr>) = tallies c"
  by (simp_all add: tallies_def)






definition answer_tallies :: "AggregationCounters \<Rightarrow> bool" where
  "answer_tallies c \<longleftrightarrow>
     0 \<le> httpFailures c \<and> 0 \<le> timeoutFailures c \<and> 0 \<le> agg_transportFailures c \<and> 0 \<le> agg_invalidResponses c \<and> 0 \<le> missedTicks c"

lemma answer_tallies_update [simp]:
  "answer_tallies (c\<lparr>completedRequests := n\<rparr>) = answer_tallies c" "answer_tallies (c\<lparr>scheduledTicks := n\<rparr>) = answer_tallies c"
  "answer_tallies (c\<lparr>startedRequests := n\<rparr>) = answer_tallies c"
  by (simp_all add: answer_tallies_def)


lemma more_missed: "answer_tallies c \<Longrightarrow> 0 \<le> n \<Longrightarrow> answer_tallies (c\<lparr>missedTicks := missedTicks c + n\<rparr>)"
  by (simp add: answer_tallies_def)










subsection \<open>A phase and a scheduler without failures are complete\<close>









subsection \<open>A passed run\<close>














text \<open>
  The containers are removed whatever happened: every run ends with the cleanup of its own
  project, after all its other commands; and it is reported as passed exactly when every stage went
  through without a failure and the cleanup passed, with a reason given otherwise.
\<close>

theorem every_run_cleans_up:
  "\<exists>before cleanup. snd (run_stages runner c ev []) = before \<and>
     cleanupCompose runner (composeProject c) before = (cleanup, snd (runManagedLoadGenerator runner c ev)) \<and>
     (case fst (runManagedLoadGenerator runner c ev) of
        Inl e \<Rightarrow> resourceSummary (ev_samples ev) = Inl e
      | Inr report \<Rightarrow> report_cleanup report = cleanup \<and> report_passed report = (failureReasons report = []) \<and>
          report_passed report = (cleanup_passed cleanup \<and> (\<exists>targets r. fst (run_stages runner c ev []) = Inr (targets, r, []))))"
proof -
  obtain result before where stages: "run_stages runner c ev [] = (result, before)" by fastforce
  obtain cleanup after where cleanup: "cleanupCompose runner (composeProject c) before = (cleanup, after)" by fastforce
  have "failure_reasons (primary_failure result) cleanup = [] \<longleftrightarrow> cleanup_passed cleanup \<and> (\<exists>targets r. result = Inr (targets, r, []))"
    by (auto simp: failure_reasons_def primary_failure_def split: sum.splits)
  then show ?thesis
    by (auto simp: runManagedLoadGenerator_def stages cleanup Let_def or_error_def split: sum.splits)
qed

subsection \<open>An example\<close>
































end
