(* ===== verification/Spec2Isabelle.thy ===== *)
theory Spec2Isabelle
  imports BatchQueue Routes Startup RetentionService ServerLifecycle LoadVerdict
begin

text \<open>
  A verification library for log-stream, an HTTP service that stores log entries in PostgreSQL and
  answers queries about them. Paths below are relative to the repository.

  The program. \<open>src/server.ts\<close> starts it: the configuration is read, the schema is migrated and the
  partitions are prepared under the owner's role, then the runtime role is checked, the services
  are wired and the server listens until a signal shuts it down. A posted batch goes through the
  validator, the ingestion service, the write queue and the ingestion repository to one insert
  statement; the two reading routes go through a parameter parser, a service and a repository with
  one select statement; a scheduler runs the maintenance of the partitions; every error of a
  request ends in one error handler. Beside the service, \<open>tools/loadgen\<close> is a load generator that
  starts the service in containers of its own, sends it two phases of generated batches while a
  scheduler sends aggregation queries, polls for a probe row, counts what the database holds, and
  reports a verdict after it has removed the containers.

  How the code is modelled. A JavaScript string is a list of 16-bit words (\<open>jsstr\<close>, Prelude), compared
  by code unit; a value of unknown type is a \<open>jsval\<close> (JsValues) with own properties, getters that
  throw and prototypes, so that every check of the code on \<open>unknown\<close> is a check here; numbers are
  rationals with the other doubles beside them. An \<open>async\<close> function is an \<open>io\<close> (Effects): from the
  trace of earlier events to an outcome (\<open>Ret\<close>, \<open>Exn\<close> or \<open>Unfinished\<close>) and a longer trace. An
  \<open>env\<close> answers queries, clock readings and random identifiers as a function of the trace, so a
  theorem for every \<open>env\<close> covers every behaviour of the database, also one that fails, lies or
  changes its answers. Errors are values: one constructor of \<open>throw\<close> per class of the program, and
  \<open>Foreign v\<close> for what code outside throws. Objects whose methods interleave (the write queue, the
  retention scheduler, the server with its probes and shutdown) are records of the closure's
  variables with one function per method or callback and an \<open>inductive\<close> step relation that takes
  them in every order. A loop that need not end takes fuel and gives \<open>Unfinished\<close> without it.
\<close>

text \<open>
  Theories and code.

  \<^item> Prelude, Machines: strings, digits, lists; the locales \<open>invariant_machine\<close> and
    \<open>draining_machine\<close> (an invariant; a measure that every move shrinks and a move while work remains).
  \<^item> JsValues, JsArray, JsNumber, Json, JsonFacts, Encoding, Sha256, Calendar, DateParse: the
    language and its standard library as far as the program uses them: objects, the stable sort,
    numerals, \<open>JSON\<close>, \<open>Buffer\<close>, \<open>TextDecoder\<close>, the hash and \<open>Date\<close>.
  \<^item> Effects, Retry, AdvisoryLock: effects; the polling loop, the transaction, the locked section and
    the advisory lock that several components share, with the locale \<open>lock_user\<close>.
  \<^item> Timestamp, TimestampFacts: \<open>src/domain/timestamp.ts\<close>. LogEntry: the types of \<open>src/domain\<close>,
    \<open>log-entry-validator.ts\<close> and \<open>attribute-normalizer.ts\<close>. Errors: \<open>src/shared\<close>,
    \<open>database-errors.ts\<close> and \<open>migration-errors.ts\<close>.
  \<^item> Ingestion: \<open>ingestion-service.ts\<close> and \<open>ingestion-repository.ts\<close>, with the locale \<open>log_store\<close>, what
    the service asks of a repository. BatchQueue: \<open>batched-ingestion-repository.ts\<close>.
  \<^item> QueryParams, LogPredicate, Cursor, LogQuery: \<open>src/modules/query\<close>, with the locale \<open>page_source\<close>,
    what listing asks of a repository. Aggregation: \<open>src/modules/aggregation\<close>. Routes:
    \<open>src/routes/logs.ts\<close> with the error handler.
  \<^item> Config: \<open>app-config.ts\<close> and \<open>database-config.ts\<close>. MigrationLoader, MigrationRunner:
    \<open>src/database/migrations\<close>. PartitionPlan, PartitionPreparer: \<open>src/database/partitions\<close>. Startup:
    \<open>wait-for-database.ts\<close>, the probes of \<open>database-pool.ts\<close> and \<open>main\<close> of \<open>src/server.ts\<close>.
  \<^item> RetentionRepository, RetentionService: \<open>src/modules/retention\<close>, with the locale \<open>run_counter\<close>
    interpreted once per counter of the report. ServerLifecycle: \<open>server-lifecycle.ts\<close>,
    \<open>readiness.ts\<close> and \<open>routes/health.ts\<close>.
  \<^item> The load generator, \<open>tools/loadgen\<close>. DoubleFacts: rounding to doubles. Workload: \<open>workload.ts\<close>, the
    generated rows and batches. LoadStatistics: \<open>statistics.ts\<close>. LoadClient: \<open>http.ts\<close>, \<open>api-client.ts\<close>
    and the judgement of answers. LoadIngestion: the workers of a phase in \<open>ingestion.ts\<close>.
    LoadConfig: \<open>config.ts\<close>. LoadAggregation: the scheduler of \<open>aggregation.ts\<close>. LoadFreshness:
    \<open>freshness.ts\<close> and the queries of the tool, parsed by the service's own parsers. LoadCommands:
    \<open>commands.ts\<close>, a child process. LoadDocker: \<open>docker.ts\<close> and \<open>reconciliation.ts\<close>, where a runner is
    a function of the commands run before. LoadVerdict: \<open>assessment.ts\<close> and the stages of
    \<open>orchestrator.ts\<close>. The phases, the scheduler and the child process are machines as above, with
    interpretations of \<open>invariant_machine\<close> and \<open>draining_machine\<close>.
\<close>

text \<open>
  What is shown.

  \<^item> Requests: a batch is acknowledged exactly when one answered statement stored its valid entries
    (C1, C4); the validator is its order-free specification (C2); every reading request is answered,
    errors with fixed texts only (C40).
  \<^item> The write queue: bounded, never asleep with work (C9), in order and without loss (C7), every
    promise settled once (C8) and, after \<open>close\<close>, all of them in boundedly many moves (C6).
  \<^item> Queries: parsing is a round trip (C37), the statement's text does not depend on the values (C38),
    cursors are exactly what was encoded (C35, C36), and following them lists every row once (C5).
    The minute aggregates count what the raw query counts when the window is whole minutes (C39); an
    example shows that other windows differ.
  \<^item> Start: its order (C10) and end (C11); a return means migrated (C12) and prepared (C22); the lock of
    the migrations is freed on every path (C13); the plans are exact (C23, C24).
  \<^item> Maintenance: the connection, the budgets and the report of a run (C14 to C16), the scheduler as a
    refinement of a machine of six phases (C17) and a stop that settles (C18).
  \<^item> Shutdown: each resource closed once (C19), a verdict (C20), no healthy reply after it began (C21).
  \<^item> Timestamps: the fast path is the general parser (C3).
  \<^item> The load generator: rows it counts as confirmed are the rows the service stored (C25); a phase keeps
    its accounts in every interleaving (C26) and ends with every row sent once (C27); the scheduler
    keeps its books and leaves out no tick (C29); the service understands both queries of the tool
    (C30); a child process settles once and in time (C32); accepted options make a well-formed run
    (C33) that its printed command reproduces (C34); cleanup passes exactly when nothing is left (C31);
    and the composition of all of these: a run reported as passed is a complete one (C28).

  Bounds. Every wait of the start is bounded by at most 300000 ms by the configuration, and a
  clock that moves on shows a new millisecond after every sleep, so 300001 rounds of each loop are
  enough; the theorem C11 proves it for the whole start. The fuel of the nested reading of error
  objects (\<open>retryable_value\<close>) is the size of the value. A phase of the load generator needs at most two
  answers for each batch and one for each worker; the loop that counts missed ticks, the freshness
  polls and the wait for health are partial functions without a value when they do not end, and
  C29 proves that the first returns.
\<close>

text \<open>
  Parameters. The database, the clock, random identifiers and the directory of migrations are the
  \<open>env\<close>; \<open>localeCompare\<close>, which depends on the locale data of the host, and the parser of URLs are
  functions the definitions take; an integral double is an \<open>int\<close> where the code has checked it to be a
  safe integer.

  Not modelled. What the statements mean to the database: only their texts, parameters and answers
  appear. The framework's routing and body parsing, the logger's and the pool's construction and
  the wiring of \<open>startRuntime\<close> are calls of libraries. \<open>src/database/schema-inspection.ts\<close> serves the
  tests. Of the load generator, the capture of versions, settings and query plans (\<open>environment.ts\<close>,
  \<open>diagnostics.ts\<close>), which runs commands side by side, the numbers of docker's statistics and the file of
  the report are left out; a run takes what they give as an argument, with the commands they ran.
  The scripts under \<open>tools/benchmark\<close> measure. A timer that cannot be scheduled at shutdown is outside
  the model of the lifecycle.
\<close>

end
